(* ===== verification/Prelude.thy ===== *)
theory Prelude
  imports Main "HOL-Library.Word"
begin

text \<open>
  Shared layer of the development: names for the machine integers of the Go sources, the
  values a Go call can end with, the lemma collections the component theories fill, and
  generic facts on lists, maps and words that more than one component uses.

  The sources are compiled for 64-bit targets, so \<open>uint\<close> and \<open>int\<close> are 64 bits wide.
  An \<open>int32\<close> or \<open>int\<close> value is kept as the mathematical integer it denotes; the
  conversions into it are written with \<open>sint\<close>, which is Go's reinterpretation of the bits.
\<close>

unbundle bit_operations_syntax

type_synonym uint8 = "8 word"
type_synonym uint32 = "32 word"
type_synonym uint64 = "64 word"

text \<open>How a goroutine can die: the run-time panics that the modelled statements can raise.\<close>

datatype go_panic =
    IndexOutOfRange
  | NilDereference
  | TypeAssertion
  | DivideByZero

text \<open>The result of running a piece of code: a value, or a panic.\<close>

datatype 'a outcome = Done 'a | Crashed go_panic

text \<open>
  Collections: \<open>go_run\<close> holds the equations that execute an effectful program,
  \<open>go_safe\<close> the rules that bound what a program can do on every path, and
  \<open>word_facts\<close> the bridge from words to naturals.
\<close>

named_theorems go_run
named_theorems go_safe
named_theorems word_facts

text \<open>Go's conversions between integer types.\<close>

definition int32_of :: "uint32 \<Rightarrow> int" where
  "int32_of w = sint w"

definition uint32_of_uint :: "uint64 \<Rightarrow> uint32" where
  "uint32_of_uint w = ucast w"

definition uint_of_uint32 :: "uint32 \<Rightarrow> uint64" where
  "uint_of_uint32 w = ucast w"

text \<open>
  Serving a list of requests one after the other on a shared state: what a sequence of calls,
  each made under the same mutex, returns. The order of the list is the order in which the
  callers got the lock.
\<close>

fun serve :: "('k \<Rightarrow> 's \<Rightarrow> 'v \<times> 's) \<Rightarrow> 'k list \<Rightarrow> 's \<Rightarrow> ('k \<times> 'v) list \<times> 's" where
  "serve get [] s = ([], s)"
| "serve get (k # ks) s =
     (let r = get k s; t = serve get ks (snd r) in ((k, fst r) # fst t, snd t))"

section \<open>Generic lemmas\<close>

lemma map_fst_serve [simp]: "map fst (fst (serve get ks s)) = ks"
  by (induction ks arbitrary: s) (simp_all add: Let_def)

lemma bit_bound:
  fixes w :: "'a::len word"
  assumes "unat w < 2 ^ m" "bit w n"
  shows "n < m"
proof (rule ccontr)
  assume "\<not> n < m"
  then have "(2::nat) ^ m \<le> 2 ^ n" by simp
  with assms(1) have "unat w < 2 ^ n" by (rule less_le_trans)
  then have "\<not> bit (unat w) n" by (simp add: bit_iff_odd)
  with assms(2) show False by (simp add: bit_unsigned_iff)
qed

lemma distinct_counter:
  assumes "n \<le> 2 ^ LENGTH('a)"
  shows "distinct (map (\<lambda>i. (b :: 'a::len word) + of_nat i) [0..<n])"
proof -
  have "inj_on (\<lambda>i. b + of_nat i) {0..<n}"
  proof (rule inj_onI)
    fix i j assume "i \<in> {0..<n}" "j \<in> {0..<n}" "b + of_nat i = b + (of_nat j :: 'a word)"
    then show "i = j" using assms
      by (auto simp: word_of_nat_eq_iff take_bit_nat_eq_self)
  qed
  then show ?thesis by (simp add: distinct_map)
qed

lemma list_index_split:
  assumes "i < length xs"
  shows "xs = take i xs @ xs ! i # drop (Suc i) xs"
  using assms by (rule id_take_nth_drop)

lemma int32_of_bounds: "- (2 ^ 31) \<le> int32_of w" "int32_of w < 2 ^ 31"
  using sint_greater_eq [of w] sint_less [of w] by (simp_all add: int32_of_def)

lemma int32_of_inj [simp]: "int32_of a = int32_of b \<longleftrightarrow> a = b"
  by (auto simp: int32_of_def intro: signed_word_eqI)

lemma int32_of_0 [simp]: "int32_of 0 = 0"
  by (simp add: int32_of_def)

lemma unat_uint_of_uint32 [word_facts]: "unat (uint_of_uint32 w) = unat w"
  by (simp add: uint_of_uint32_def unsigned_ucast_eq)
    (rule take_bit_nat_eq_self, rule less_le_trans [OF unsigned_less], simp)

lemma unat_uint32_of_uint [word_facts]: "unat (uint32_of_uint w) = unat w mod 2 ^ 32"
  by (simp add: uint32_of_uint_def unsigned_ucast_eq take_bit_eq_mod)

lemma unat_Suc_word [word_facts]:
  fixes w :: "'a::len word"
  assumes "unat w + 1 < 2 ^ LENGTH('a)"
  shows "unat (w + 1) = unat w + 1"
  using assms by (simp add: unat_word_ariths)

lemma map_of_zip_index:
  assumes "distinct ks" "length ks = length vs" "i < length ks"
  shows "map_of (zip ks vs) (ks ! i) = Some (vs ! i)"
  using assms by (simp add: map_of_zip_nth)

end
