(* ===== verification/Go_Strings.thy ===== *)
theory Go_Strings
  imports Prelude
begin

text \<open>
  The parts of Go's \<open>strconv\<close>, \<open>strings\<close> and \<open>fmt\<close> packages that the sources use, over
  Isabelle strings (lists of bytes, as a Go string is): printing a number in base 10 and 16,
  \<open>strconv.Atoi\<close> on a 64-bit target, \<open>strings.Split\<close> at a one-byte separator,
  \<open>strings.TrimPrefix\<close>, and the conversions between strings and byte slices.
  The lemmas show that printing and reading back is the identity and that splitting undoes
  joining.
\<close>

section \<open>Definitions\<close>

definition digit_char :: "nat \<Rightarrow> char" where
  "digit_char d = (if d < 10 then char_of (48 + d) else char_of (87 + d))"

text \<open>\<open>fmt\<close>'s \<open>%d\<close> and \<open>%x\<close> of an unsigned value: base 10 and base 16.\<close>

function fmt_base :: "nat \<Rightarrow> nat \<Rightarrow> string" where
  "fmt_base b n = (if n < b \<or> b \<le> 1 then [digit_char n]
                   else fmt_base b (n div b) @ [digit_char (n mod b)])"
  by pat_completeness auto
termination
  by (relation "measure snd") auto

declare fmt_base.simps [simp del]

definition FormatUint :: "nat \<Rightarrow> string" where
  "FormatUint n = fmt_base 10 n"

definition Itoa :: "int \<Rightarrow> string" where
  "Itoa i = (if i < 0 then CHR ''-'' # FormatUint (nat (- i)) else FormatUint (nat i))"

definition Sprintf_x :: "nat \<Rightarrow> string" where
  "Sprintf_x n = fmt_base 16 n"

text \<open>\<open>strconv.Atoi\<close>: an optional sign, at least one digit, and the 64-bit range.\<close>

definition digit_val :: "char \<Rightarrow> nat option" where
  "digit_val c = (let v = of_char c in if 48 \<le> v \<and> v \<le> 57 then Some (v - 48) else None)"

fun parse_digits :: "nat \<Rightarrow> string \<Rightarrow> nat option" where
  "parse_digits acc [] = Some acc"
| "parse_digits acc (c # cs) =
     (case digit_val c of None \<Rightarrow> None | Some d \<Rightarrow> parse_digits (acc * 10 + d) cs)"

definition parse_uint :: "string \<Rightarrow> nat option" where
  "parse_uint s = (if s = [] then None else parse_digits 0 s)"

definition Atoi :: "string \<Rightarrow> int option" where
  "Atoi s =
     (case s of
        [] \<Rightarrow> None
      | c # cs \<Rightarrow>
          (if c = CHR ''-'' then
             (case parse_uint cs of
                None \<Rightarrow> None
              | Some n \<Rightarrow> if n \<le> 2 ^ 63 then Some (- int n) else None)
           else
             (case parse_uint (if c = CHR ''+'' then cs else s) of
                None \<Rightarrow> None
              | Some n \<Rightarrow> if n < 2 ^ 63 then Some (int n) else None)))"

text \<open>\<open>strings.Split(s, sep)\<close> for a one-byte separator; the empty string gives one empty field.\<close>

fun Split :: "string \<Rightarrow> char \<Rightarrow> string list" where
  "Split [] sep = [[]]"
| "Split (c # cs) sep =
     (if c = sep then [] # Split cs sep
      else (case Split cs sep of [] \<Rightarrow> [[c]] | f # fs \<Rightarrow> (c # f) # fs))"

fun Join :: "string list \<Rightarrow> char \<Rightarrow> string" where
  "Join [] sep = []"
| "Join [f] sep = f"
| "Join (f # g # fs) sep = f @ sep # Join (g # fs) sep"

definition TrimPrefix :: "string \<Rightarrow> string \<Rightarrow> string" where
  "TrimPrefix s p = (if take (length p) s = p then drop (length p) s else s)"

text \<open>\<open>[]byte(s)\<close> and \<open>string(bs)\<close>.\<close>

definition bytes_of :: "string \<Rightarrow> uint8 list" where
  "bytes_of s = map (\<lambda>c. of_nat (of_char c)) s"

definition string_of :: "uint8 list \<Rightarrow> string" where
  "string_of bs = map (\<lambda>b. char_of (unat b)) bs"

section \<open>Digits\<close>

lemma of_char_digit_char [simp]: "d < 16 \<Longrightarrow> (of_char (digit_char d) :: nat) = (if d < 10 then 48 + d else 87 + d)"
  by (simp add: digit_char_def)

lemma digit_char_inj:
  assumes "d < 16" "e < 16" "digit_char d = digit_char e"
  shows "d = e"
proof -
  have "(of_char (digit_char d) :: nat) = of_char (digit_char e)" using assms by simp
  with assms(1,2) show ?thesis by (simp split: if_splits)
qed

lemma digit_val_digit_char [simp]: "d < 10 \<Longrightarrow> digit_val (digit_char d) = Some d"
  by (simp add: digit_val_def Let_def)

lemma digit_char_not_minus [simp]: "d < 10 \<Longrightarrow> digit_char d \<noteq> CHR ''-''"
  and digit_char_not_plus [simp]: "d < 10 \<Longrightarrow> digit_char d \<noteq> CHR ''+''"
  and digit_char_not_comma [simp]: "d < 10 \<Longrightarrow> digit_char d \<noteq> CHR '',''"
  by (auto dest: arg_cong [where f = "of_char :: char \<Rightarrow> nat"])

section \<open>Printing and reading numbers\<close>

lemma fmt_base_small: "n < b \<Longrightarrow> fmt_base b n = [digit_char n]"
  by (simp add: fmt_base.simps [of b n])

lemma fmt_base_step: "1 < b \<Longrightarrow> b \<le> n \<Longrightarrow> fmt_base b n = fmt_base b (n div b) @ [digit_char (n mod b)]"
  by (simp add: fmt_base.simps [of b n])

lemma fmt_base_neq_Nil [simp]: "fmt_base b n \<noteq> []"
  by (simp add: fmt_base.simps [of b n])

lemma set_fmt_base_10: "c \<in> set (fmt_base 10 n) \<Longrightarrow> \<exists>d<10. c = digit_char d"
proof (induction n rule: less_induct)
  case (less n)
  show ?case
  proof (cases "n < 10")
    case True
    with less.prems show ?thesis by (auto simp: fmt_base_small)
  next
    case False
    then have eq: "fmt_base 10 n = fmt_base 10 (n div 10) @ [digit_char (n mod 10)]"
      by (simp add: fmt_base_step)
    from False have "n div 10 < n" by simp
    then have "c \<in> set (fmt_base 10 (n div 10)) \<Longrightarrow> \<exists>d<10. c = digit_char d"
      by (rule less.IH)
    moreover have "n mod 10 < 10" by simp
    ultimately show ?thesis using less.prems unfolding eq by fastforce
  qed
qed

lemma parse_digits_append:
  "parse_digits acc (xs @ ys) = (case parse_digits acc xs of None \<Rightarrow> None | Some a \<Rightarrow> parse_digits a ys)"
  by (induction xs arbitrary: acc) (auto split: option.splits)

lemma parse_digits_fmt: "parse_digits 0 (fmt_base 10 n) = Some n"
proof (induction n rule: less_induct)
  case (less n)
  show ?case
  proof (cases "n < 10")
    case True
    then show ?thesis by (simp add: fmt_base_small)
  next
    case False
    then have "parse_digits 0 (fmt_base 10 (n div 10)) = Some (n div 10)"
      by (intro less.IH) simp
    with False show ?thesis by (simp add: fmt_base_step parse_digits_append)
  qed
qed

lemma FormatUint_inj [simp]: "FormatUint m = FormatUint n \<longleftrightarrow> m = n"
  by (metis FormatUint_def parse_digits_fmt option.inject)

lemma FormatUint_digits: "c \<in> set (FormatUint n) \<Longrightarrow> \<exists>d<10. c = digit_char d"
  unfolding FormatUint_def by (rule set_fmt_base_10)

lemma FormatUint_Cons: "\<exists>d cs. FormatUint n = digit_char d # cs \<and> d < 10"
proof (cases "FormatUint n")
  case Nil
  then show ?thesis by (simp add: FormatUint_def)
next
  case (Cons c cs)
  then have "c \<in> set (FormatUint n)" by simp
  then obtain d where "d < 10" "c = digit_char d" using FormatUint_digits by blast
  with Cons show ?thesis by auto
qed

lemma parse_uint_FormatUint [simp]: "parse_uint (FormatUint n) = Some n"
  by (simp add: parse_uint_def FormatUint_def parse_digits_fmt)

lemma Atoi_Itoa:
  assumes "- (2 ^ 63) \<le> i" "i < 2 ^ 63"
  shows "Atoi (Itoa i) = Some i"
proof (cases "i < 0")
  case True
  with assms show ?thesis by (simp add: Atoi_def Itoa_def)
next
  case False
  obtain d cs where eq: "FormatUint (nat i) = digit_char d # cs" "d < 10"
    using FormatUint_Cons by blast
  then have "parse_uint (digit_char d # cs) = Some (nat i)"
    by (metis parse_uint_FormatUint)
  with False eq assms show ?thesis by (simp add: Atoi_def Itoa_def)
qed

lemma Atoi_range: "Atoi s = Some i \<Longrightarrow> - (2 ^ 63) \<le> i \<and> i < 2 ^ 63"
  by (auto simp: Atoi_def split: list.splits if_splits option.splits)

lemma Itoa_no_comma: "CHR '','' \<notin> set (Itoa i)"
  by (auto simp: Itoa_def digit_char_not_comma [symmetric] dest!: FormatUint_digits)

section \<open>Splitting and joining\<close>

lemma Split_neq_Nil [simp]: "Split s sep \<noteq> []"
  by (induction s) (auto split: list.splits)

lemma Split_no_sep: "sep \<notin> set s \<Longrightarrow> Split s sep = [s]"
  by (induction s) auto

lemma Split_append_sep: "sep \<notin> set f \<Longrightarrow> Split (f @ sep # s) sep = f # Split s sep"
  by (induction f) auto

lemma Split_Join:
  assumes "fs \<noteq> []" "\<And>f. f \<in> set fs \<Longrightarrow> sep \<notin> set f"
  shows "Split (Join fs sep) sep = fs"
  using assms by (induction fs sep rule: Join.induct) (simp_all add: Split_no_sep Split_append_sep)

lemma Join_Split: "Join (Split s sep) sep = s"
proof (induction s)
  case (Cons c cs)
  obtain f fs where eq: "Split cs sep = f # fs" by (meson Split_neq_Nil list.exhaust)
  with Cons show ?case by (cases fs) auto
qed simp

section \<open>Bytes\<close>

lemma length_bytes_of [simp]: "length (bytes_of s) = length s"
  by (simp add: bytes_of_def)

lemma unat_of_char: "unat (of_nat (of_char c) :: uint8) = of_char c"
  by (simp add: unsigned_of_nat take_bit_nat_eq_self)

lemma string_of_bytes_of [simp]: "string_of (bytes_of s) = s"
  by (simp add: string_of_def bytes_of_def comp_def unat_of_char map_idI)

end
