(* ===== verification/Config.thy ===== *)
theory Config
  imports Go_Strings
begin

text \<open>
  Model of \<open>config/config.go\<close> and of the part of \<open>main.go\<close> that completes the
  configuration: the record with its defaults, the command line flags laid over it, the address of the
  agent and the list of technology profile identifiers. The flag package's reading of the argument
  vector is the record \<open>cli\<close>: for each flag, the value given or \<open>None\<close>.
\<close>

section \<open>Definitions\<close>

definition defaultOpenOltAgentIp :: string where "defaultOpenOltAgentIp = ''10.90.0.114''"
definition defaultOpenOltAgentPort :: uint64 where "defaultOpenOltAgentPort = 9191"
definition defaultNumOfOnu :: uint64 where "defaultNumOfOnu = 128"
definition defaultNumOfSubscribersPerOnu :: uint64 where "defaultNumOfSubscribersPerOnu = 1"
definition defaultWorkFlowName :: string where "defaultWorkFlowName = ''TT''"
definition defaultTimeIntervalBetweenSubs :: uint64 where "defaultTimeIntervalBetweenSubs = 5"
definition defaultNniIntfId :: uint64 where "defaultNniIntfId = 0"
definition defaultKVstoreHost :: string where "defaultKVstoreHost = ''192.168.1.1''"
definition defaultKVstorePort :: int where "defaultKVstorePort = 2379"
definition defaultTpIDs :: string where "defaultTpIDs = ''64''"
definition defaultIsGroupTest :: bool where "defaultIsGroupTest = False"

lemmas config_defaults = defaultOpenOltAgentIp_def defaultOpenOltAgentPort_def defaultNumOfOnu_def
  defaultNumOfSubscribersPerOnu_def defaultWorkFlowName_def defaultTimeIntervalBetweenSubs_def
  defaultNniIntfId_def defaultKVstoreHost_def defaultKVstorePort_def defaultTpIDs_def
  defaultIsGroupTest_def

record OpenOltScaleTesterConfig =
  OpenOltAgentAddress :: string
  OpenOltAgentIP :: string
  OpenOltAgentPort :: uint64
  NniIntfID :: uint64
  NumOfOnu :: uint64
  SubscribersPerOnu :: uint64
  WorkflowName :: string
  TimeIntervalBetweenSubs :: uint64
  KVStoreHost :: string
  KVStorePort :: int
  TpIDsString :: string
  TpIDList :: "int list"
  IsGroupTest :: bool

fun tp_ids_of :: "string list \<Rightarrow> int list" where
  "tp_ids_of [] = []"
| "tp_ids_of (s # ss) =
     (case Atoi s of Some tpID \<Rightarrow> tpID # tp_ids_of ss | None \<Rightarrow> tp_ids_of ss)"

definition GetTpIDList :: "string \<Rightarrow> int list" where
  "GetTpIDList tpIDsStr = tp_ids_of (Split tpIDsStr CHR '','')"

definition NewOpenOltScaleTesterConfig :: OpenOltScaleTesterConfig where
  "NewOpenOltScaleTesterConfig =
     \<lparr>OpenOltAgentAddress = defaultOpenOltAgentIp @ '':'' @ Itoa (int (unat defaultOpenOltAgentPort)),
      OpenOltAgentIP = [],
      OpenOltAgentPort = 0,
      NniIntfID = defaultNniIntfId,
      NumOfOnu = defaultNumOfOnu,
      SubscribersPerOnu = defaultNumOfSubscribersPerOnu,
      WorkflowName = defaultWorkFlowName,
      TimeIntervalBetweenSubs = defaultTimeIntervalBetweenSubs,
      KVStoreHost = defaultKVstoreHost,
      KVStorePort = defaultKVstorePort,
      TpIDsString = [],
      TpIDList = GetTpIDList defaultTpIDs,
      IsGroupTest = defaultIsGroupTest\<rparr>"

record cli =
  openolt_agent_ip_address :: "string option"
  openolt_agent_port :: "uint64 option"
  openolt_agent_nni_intf_id :: "uint64 option"
  num_of_onu :: "uint64 option"
  subscribers_per_onu :: "uint64 option"
  workflow_name :: "string option"
  time_interval_between_subs :: "uint64 option"
  kv_store_host :: "string option"
  kv_store_port :: "int option"
  tp_ids :: "string option"
  is_group_test :: "bool option"

definition no_flags :: cli where
  "no_flags = \<lparr>openolt_agent_ip_address = None, openolt_agent_port = None,
     openolt_agent_nni_intf_id = None, num_of_onu = None, subscribers_per_onu = None,
     workflow_name = None, time_interval_between_subs = None, kv_store_host = None,
     kv_store_port = None, tp_ids = None, is_group_test = None\<rparr>"

text \<open>Registering a flag stores its default in the variable; a value on the command line replaces it.\<close>

definition flag_var :: "'a option \<Rightarrow> 'a \<Rightarrow> 'a" where
  "flag_var given dflt = (case given of None \<Rightarrow> dflt | Some v \<Rightarrow> v)"

definition ParseCommandArguments :: "cli \<Rightarrow> OpenOltScaleTesterConfig \<Rightarrow> OpenOltScaleTesterConfig" where
  "ParseCommandArguments args st =
     st\<lparr>OpenOltAgentIP := flag_var (openolt_agent_ip_address args) defaultOpenOltAgentIp,
        OpenOltAgentPort := flag_var (openolt_agent_port args) defaultOpenOltAgentPort,
        NniIntfID := flag_var (openolt_agent_nni_intf_id args) defaultNniIntfId,
        NumOfOnu := flag_var (num_of_onu args) defaultNumOfOnu,
        SubscribersPerOnu := flag_var (subscribers_per_onu args) defaultNumOfSubscribersPerOnu,
        WorkflowName := flag_var (workflow_name args) defaultWorkFlowName,
        TimeIntervalBetweenSubs := flag_var (time_interval_between_subs args) defaultTimeIntervalBetweenSubs,
        KVStoreHost := flag_var (kv_store_host args) defaultKVstoreHost,
        KVStorePort := flag_var (kv_store_port args) defaultKVstorePort,
        TpIDsString := flag_var (tp_ids args) defaultTpIDs,
        IsGroupTest := flag_var (is_group_test args) defaultIsGroupTest\<rparr>"

text \<open>The configuration \<open>main\<close> hands to the OLT manager.\<close>

definition main_config :: "cli \<Rightarrow> OpenOltScaleTesterConfig" where
  "main_config args =
     (let cf = ParseCommandArguments args NewOpenOltScaleTesterConfig;
          cf = cf\<lparr>OpenOltAgentAddress := OpenOltAgentIP cf @ '':'' @ FormatUint (unat (OpenOltAgentPort cf))\<rparr>
      in cf\<lparr>TpIDList := GetTpIDList (TpIDsString cf)\<rparr>)"

text \<open>
  The end of \<open>main\<close>: it waits for the first of the signals it has subscribed to and logs the code. \<open>None\<close>: none of them has
  arrived.
\<close>

datatype os_signal =
    SIGHUP
  | SIGINT
  | SIGTERM
  | SIGQUIT
  | OtherSignal

definition exit_code :: "os_signal \<Rightarrow> int" where
  "exit_code s = (if s = SIGHUP \<or> s = SIGINT \<or> s = SIGTERM \<or> s = SIGQUIT then 0 else 1)"

definition waitForExit :: "os_signal list \<Rightarrow> int option" where
  "waitForExit signals =
     map_option exit_code (find (\<lambda>s. s \<in> {SIGHUP, SIGINT, SIGTERM, SIGQUIT}) signals)"

section \<open>Lemmas\<close>

text \<open>The branch for an unexpected signal is never taken: such signals are not delivered.\<close>

lemma waitForExit_zero: "waitForExit signals = Some c \<Longrightarrow> c = 0"
  by (auto simp: waitForExit_def exit_code_def find_Some_iff)

lemma tp_ids_of_append: "tp_ids_of (xs @ ys) = tp_ids_of xs @ tp_ids_of ys"
  by (induction xs) (auto split: option.splits)

lemma tp_ids_of_Itoa:
  "(\<And>i. i \<in> set ids \<Longrightarrow> - (2 ^ 63) \<le> i \<and> i < 2 ^ 63) \<Longrightarrow> tp_ids_of (map Itoa ids) = ids"
  by (induction ids) (simp_all add: Atoi_Itoa)

lemma tp_ids_of_range: "i \<in> set (tp_ids_of fs) \<Longrightarrow> - (2 ^ 63) \<le> i \<and> i < 2 ^ 63"
  by (induction fs) (auto split: option.splits dest: Atoi_range)

lemma GetTpIDList_Join:
  assumes "ids \<noteq> []" "\<And>i. i \<in> set ids \<Longrightarrow> - (2 ^ 63) \<le> i \<and> i < 2 ^ 63"
  shows "GetTpIDList (Join (map Itoa ids) CHR '','') = ids"
proof -
  have "Split (Join (map Itoa ids) CHR '','') CHR '','' = map Itoa ids"
    using assms(1) by (intro Split_Join) (auto simp: Itoa_no_comma)
  with tp_ids_of_Itoa [OF assms(2)] show ?thesis by (simp add: GetTpIDList_def)
qed

lemmas main_config_defs = main_config_def ParseCommandArguments_def NewOpenOltScaleTesterConfig_def
  flag_var_def Let_def

section \<open>Properties\<close>

text \<open>
  The \<open>tp_ids\<close> flag round-trips: joining any non-empty list of 64-bit integers with commas
  and passing it on the command line gives exactly that list in the configuration, whatever the other
  flags are.
\<close>

lemma tp_ids_roundtrip:
  assumes "ids \<noteq> []" and "\<forall>i \<in> set ids. - (2 ^ 63) \<le> i \<and> i < 2 ^ 63"
    and "tp_ids args = Some (Join (map Itoa ids) CHR '','')"
  shows "TpIDList (main_config args) = ids"
  using assms GetTpIDList_Join [of ids] by (simp add: main_config_defs)

lemma tp_ids_roundtrip_witness:
  "TpIDList (main_config (no_flags\<lparr>tp_ids := Some (Join (map Itoa [64, 65, -1]) CHR '','')\<rparr>)) = [64, 65, -1]"
  by (rule tp_ids_roundtrip) (simp_all add: no_flags_def)

text \<open>
  a field that is not a decimal integer is skipped and never stops the parse: the list for two
  comma-separated texts is the list of the first followed by the list of the second, and every entry is
  in the 64-bit range.
\<close>

lemma tp_ids_skip_invalid:
  "GetTpIDList (s @ CHR '','' # t) = GetTpIDList s @ GetTpIDList t \<and>
   (Atoi s = None \<and> CHR '','' \<notin> set s \<longrightarrow> GetTpIDList (s @ CHR '','' # t) = GetTpIDList t)"
proof -
  have "Split (s @ CHR '','' # t) CHR '','' = Split s CHR '','' @ Split t CHR '',''"
  proof (induction s)
    case (Cons c s)
    obtain f fs where "Split s CHR '','' = f # fs" by (meson Split_neq_Nil list.exhaust)
    with Cons.IH show ?case by simp
  qed simp
  then show ?thesis by (auto simp: GetTpIDList_def tp_ids_of_append Split_no_sep)
qed

lemma tp_ids_skip_invalid_witness: "GetTpIDList (''x4'' @ CHR '','' # ''64'') = GetTpIDList ''64''"
proof -
  have "Atoi ''x4'' = None" by (simp add: Atoi_def parse_uint_def digit_val_def Let_def of_char_def)
  then show ?thesis 
    using conjunct2 [OF tp_ids_skip_invalid [of "''x4''" "''64''"]] by simp
qed

text \<open>
  Without any flag the tester runs the TT workflow with technology profile 64 against
  10.90.0.114:9191 and the KV store at 192.168.1.1, with 128 ONUs and one subscriber on each; the
  README gives ATT and 192.168.1.11 as the defaults.
\<close>

lemma default_configuration:
  "WorkflowName (main_config no_flags) = ''TT'' \<and> TpIDList (main_config no_flags) = [64] \<and>
   OpenOltAgentAddress (main_config no_flags) = ''10.90.0.114:9191'' \<and>
   KVStoreHost (main_config no_flags) = ''192.168.1.1'' \<and>
   NumOfOnu (main_config no_flags) = 128 \<and> SubscribersPerOnu (main_config no_flags) = 1"
proof -
  have "GetTpIDList (Join (map Itoa [64]) CHR '','') = [64]" by (rule GetTpIDList_Join) simp_all
  moreover have "Itoa 64 = ''64''" "FormatUint 9191 = ''9191''"
    by (simp_all add: Itoa_def FormatUint_def fmt_base.simps digit_char_def char_of_def bit_simps)
  ultimately show ?thesis by (simp add: main_config_defs no_flags_def config_defaults)
qed

end
