(* ===== verification/Openolt_Api.thy ===== *)
theory Openolt_Api
  imports Go_Strings
begin

text \<open>
  The vocabulary the tester shares with the OLT: gRPC status codes and errors, the protocol
  buffer messages of the openolt and tech\_profile packages that the tester builds, and the
  remote calls it makes. A message is a record with the fields of the generated Go struct (the
  \<open>XXX_\<close> bookkeeping of the protobuf runtime left out), a pointer to a message is an option,
  and the \<open>_zero\<close> constants are the zero values that a Go composite literal starts from.
\<close>

section \<open>gRPC status codes and Go errors\<close>

datatype code =
    OK | Canceled | Unknown | InvalidArgument | DeadlineExceeded | NotFound | AlreadyExists
  | PermissionDenied | ResourceExhausted | FailedPrecondition | Aborted | OutOfRange
  | Unimplemented | Internal | Unavailable | DataLoss | Unauthenticated

text \<open>
  A non-nil Go error as the tester meets it: one built by \<open>errors.New\<close>, or the status error
  that a gRPC stub returns. A status error never carries the code OK (\<open>Status.Err\<close> turns OK
  into nil), so \<open>StatusError\<close> stores the code as it is and \<open>valid_error\<close> says which
  values occur.
\<close>

datatype go_error = ErrorString string | StatusError code string

fun valid_error :: "go_error \<Rightarrow> bool" where
  "valid_error (ErrorString s) = True"
| "valid_error (StatusError c m) = (c \<noteq> OK)"

text \<open>\<open>status.FromError(err)\<close> followed by \<open>Code()\<close>; a nil error has the code OK.\<close>

fun status_code :: "go_error option \<Rightarrow> code" where
  "status_code None = OK"
| "status_code (Some (StatusError c m)) = c"
| "status_code (Some (ErrorString s)) = Unknown"

fun code_name :: "code \<Rightarrow> string" where
  "code_name OK = ''OK''"
| "code_name Canceled = ''Canceled''"
| "code_name Unknown = ''Unknown''"
| "code_name InvalidArgument = ''InvalidArgument''"
| "code_name DeadlineExceeded = ''DeadlineExceeded''"
| "code_name NotFound = ''NotFound''"
| "code_name AlreadyExists = ''AlreadyExists''"
| "code_name PermissionDenied = ''PermissionDenied''"
| "code_name ResourceExhausted = ''ResourceExhausted''"
| "code_name FailedPrecondition = ''FailedPrecondition''"
| "code_name Aborted = ''Aborted''"
| "code_name OutOfRange = ''OutOfRange''"
| "code_name Unimplemented = ''Unimplemented''"
| "code_name Internal = ''Internal''"
| "code_name Unavailable = ''Unavailable''"
| "code_name DataLoss = ''DataLoss''"
| "code_name Unauthenticated = ''Unauthenticated''"

fun Error :: "go_error \<Rightarrow> string" where
  "Error (ErrorString s) = s"
| "Error (StatusError c m) = ''rpc error: code = '' @ code_name c @ '' desc = '' @ m"

section \<open>Traffic profiles\<close>

datatype Direction = UPSTREAM | DOWNSTREAM | BIDIRECTIONAL
datatype SchedulingPolicy = WRR | StrictPriority | Hybrid
datatype AdditionalBW =
  AdditionalBW_None | AdditionalBW_NA | AdditionalBW_BestEffort | AdditionalBW_Auto
datatype DiscardPolicy = TailDrop | WTailDrop | Red | WRed

record SchedulerConfig =
  sc_Direction :: Direction
  sc_AdditionalBw :: AdditionalBW
  sc_Priority :: uint32
  sc_Weight :: uint32
  sc_SchedPolicy :: SchedulingPolicy

record TrafficShapingInfo =
  sh_Cir :: uint32
  sh_Cbs :: uint32
  sh_Pir :: uint32
  sh_Pbs :: uint32
  sh_Gir :: uint32

record TrafficScheduler =
  ts_Direction :: Direction
  ts_AllocId :: uint32
  ts_Scheduler :: "SchedulerConfig option"
  ts_TrafficShapingInfo :: "TrafficShapingInfo option"
  ts_TechProfileId :: uint32

record TrafficSchedulers =
  tss_IntfId :: uint32
  tss_OnuId :: uint32
  tss_UniId :: uint32
  tss_PortNo :: uint32
  tss_TrafficScheds :: "TrafficScheduler list"

record TrafficQueue =
  tq_Direction :: Direction
  tq_GemportId :: uint32
  tq_PbitMap :: string
  tq_AesEncryption :: bool
  tq_SchedPolicy :: SchedulingPolicy
  tq_Priority :: uint32
  tq_Weight :: uint32
  tq_DiscardPolicy :: DiscardPolicy

record TrafficQueues =
  tqs_IntfId :: uint32
  tqs_OnuId :: uint32
  tqs_UniId :: uint32
  tqs_PortNo :: uint32
  tqs_TrafficQueues :: "TrafficQueue list"
  tqs_TechProfileId :: uint32

record SchedulerAttributes =
  sa_Direction :: Direction
  sa_AllocId :: uint32
  sa_AdditionalBw :: AdditionalBW
  sa_Priority :: uint32
  sa_Weight :: uint32
  sa_QSchedPolicy :: SchedulingPolicy

record RedDiscardConfig =
  rd_MinThreshold :: uint32
  rd_MaxThreshold :: uint32
  rd_MaxProbability :: uint32

text \<open>
  \<open>DiscardConfigV2\<close> is left out: only the default profile sets it, it is not copied into instances, and nothing in the program
  reads it.
\<close>

record GemPortAttributes =
  gp_GemportId :: uint32
  gp_MaxQSize :: string
  gp_PbitMap :: string
  gp_AesEncryption :: string
  gp_SchedulingPolicy :: SchedulingPolicy
  gp_PriorityQ :: uint32
  gp_Weight :: uint32
  gp_DiscardPolicy :: DiscardPolicy
  gp_DiscardConfig :: "RedDiscardConfig option"
  gp_IsMulticast :: string
  gp_MulticastGemId :: uint32
  gp_DynamicAccessControlList :: string
  gp_StaticAccessControlList :: string

record InstanceControl =
  ic_Onu :: string
  ic_Uni :: string
  ic_MaxGemPayloadSize :: string

text \<open>The template of a profile, the instance made from it, and the resources of an instance.\<close>

record TechProfile =
  tpl_Name :: string
  tpl_Version :: uint32
  tpl_ProfileType :: string
  tpl_NumGemPorts :: uint32
  tpl_InstanceControl :: "InstanceControl option"
  tpl_UsScheduler :: "SchedulerAttributes option"
  tpl_DsScheduler :: "SchedulerAttributes option"
  tpl_UpstreamGemPortAttributeList :: "GemPortAttributes list"
  tpl_DownstreamGemPortAttributeList :: "GemPortAttributes list"

record ResourceInstance =
  ri_TpId :: uint32
  ri_ProfileType :: string
  ri_SubscriberIdentifier :: string
  ri_AllocId :: uint32
  ri_GemportIds :: "uint32 list"

record TechProfileInstance =
  tp_Name :: string
  tp_Version :: uint32
  tp_SubscriberIdentifier :: string
  tp_ProfileType :: string
  tp_NumGemPorts :: uint32
  tp_InstanceControl :: "InstanceControl option"
  tp_UsScheduler :: "SchedulerAttributes option"
  tp_DsScheduler :: "SchedulerAttributes option"
  tp_UpstreamGemPortAttributeList :: "GemPortAttributes list"
  tp_DownstreamGemPortAttributeList :: "GemPortAttributes list"

section \<open>Flows\<close>

record Classifier =
  cl_OTpid :: uint32
  cl_OVid :: uint32
  cl_ITpid :: uint32
  cl_IVid :: uint32
  cl_OPbits :: uint32
  cl_IPbits :: uint32
  cl_EthType :: uint32
  cl_DstMac :: "uint8 list"
  cl_SrcMac :: "uint8 list"
  cl_IpProto :: uint32
  cl_DstIp :: uint32
  cl_SrcIp :: uint32
  cl_SrcPort :: uint32
  cl_DstPort :: uint32
  cl_PktTagType :: string

record ActionCmd =
  cmd_AddOuterTag :: bool
  cmd_RemoveOuterTag :: bool
  cmd_TrapToHost :: bool
  cmd_RemarkOuterPbits :: bool
  cmd_RemarkInnerPbits :: bool
  cmd_AddInnerTag :: bool
  cmd_RemoveInnerTag :: bool
  cmd_TranslateInnerTag :: bool
  cmd_TranslateOuterTag :: bool

record Action =
  ac_Cmd :: "ActionCmd option"
  ac_OVid :: uint32
  ac_OPbits :: uint32
  ac_OTpid :: uint32
  ac_IVid :: uint32
  ac_IPbits :: uint32
  ac_ITpid :: uint32

record Flow =
  fl_AccessIntfId :: int
  fl_OnuId :: int
  fl_UniId :: int
  fl_FlowId :: uint64
  fl_SymmetricFlowId :: uint64
  fl_FlowType :: string
  fl_AllocId :: int
  fl_NetworkIntfId :: int
  fl_GemportId :: int
  fl_Classifier :: "Classifier option"
  fl_Action :: "Action option"
  fl_Priority :: int
  fl_Cookie :: uint64
  fl_PortNo :: uint32
  fl_GroupId :: uint32
  fl_TechProfileId :: uint32
  fl_ReplicateFlow :: bool
  fl_PbitToGemport :: "uint32 \<rightharpoonup> uint32"
  fl_GemportToAes :: "uint32 \<rightharpoonup> bool"

definition Classifier_zero :: Classifier where
  "Classifier_zero = \<lparr>cl_OTpid = 0, cl_OVid = 0, cl_ITpid = 0, cl_IVid = 0, cl_OPbits = 0,
     cl_IPbits = 0, cl_EthType = 0, cl_DstMac = [], cl_SrcMac = [], cl_IpProto = 0, cl_DstIp = 0,
     cl_SrcIp = 0, cl_SrcPort = 0, cl_DstPort = 0, cl_PktTagType = []\<rparr>"

definition ActionCmd_zero :: ActionCmd where
  "ActionCmd_zero = \<lparr>cmd_AddOuterTag = False, cmd_RemoveOuterTag = False, cmd_TrapToHost = False,
     cmd_RemarkOuterPbits = False, cmd_RemarkInnerPbits = False, cmd_AddInnerTag = False,
     cmd_RemoveInnerTag = False, cmd_TranslateInnerTag = False, cmd_TranslateOuterTag = False\<rparr>"

definition Action_zero :: Action where
  "Action_zero = \<lparr>ac_Cmd = None, ac_OVid = 0, ac_OPbits = 0, ac_OTpid = 0, ac_IVid = 0,
     ac_IPbits = 0, ac_ITpid = 0\<rparr>"

definition Flow_zero :: Flow where
  "Flow_zero = \<lparr>fl_AccessIntfId = 0, fl_OnuId = 0, fl_UniId = 0, fl_FlowId = 0,
     fl_SymmetricFlowId = 0, fl_FlowType = [], fl_AllocId = 0, fl_NetworkIntfId = 0,
     fl_GemportId = 0, fl_Classifier = None, fl_Action = None, fl_Priority = 0, fl_Cookie = 0,
     fl_PortNo = 0, fl_GroupId = 0, fl_TechProfileId = 0, fl_ReplicateFlow = False,
     fl_PbitToGemport = Map.empty, fl_GemportToAes = Map.empty\<rparr>"

definition TrafficShapingInfo_zero :: TrafficShapingInfo where
  "TrafficShapingInfo_zero = \<lparr>sh_Cir = 0, sh_Cbs = 0, sh_Pir = 0, sh_Pbs = 0, sh_Gir = 0\<rparr>"

definition TrafficQueue_zero :: TrafficQueue where
  "TrafficQueue_zero = \<lparr>tq_Direction = UPSTREAM, tq_GemportId = 0, tq_PbitMap = [],
     tq_AesEncryption = False, tq_SchedPolicy = WRR, tq_Priority = 0, tq_Weight = 0,
     tq_DiscardPolicy = TailDrop\<rparr>"

definition TrafficQueues_zero :: TrafficQueues where
  "TrafficQueues_zero = \<lparr>tqs_IntfId = 0, tqs_OnuId = 0, tqs_UniId = 0, tqs_PortNo = 0,
     tqs_TrafficQueues = [], tqs_TechProfileId = 0\<rparr>"

section \<open>Multicast groups, ONUs and device information\<close>

datatype GroupMembersCommand = ADD_MEMBERS | REMOVE_MEMBERS | SET_MEMBERS
datatype InterfaceType = GM_PON | GM_EPON_1G_PATH | GM_EPON_10G_PATH

record GroupMember =
  gm_InterfaceId :: uint32
  gm_InterfaceType :: InterfaceType
  gm_GemPortId :: uint32
  gm_Priority :: uint32

record Group =
  gr_GroupId :: uint32
  gr_Command :: GroupMembersCommand
  gr_Members :: "GroupMember list"
  gr_Action :: "Action option"

record SerialNumber =
  sn_VendorId :: "uint8 list"
  sn_VendorSpecific :: "uint8 list"

record Onu =
  onu_IntfId :: uint32
  onu_OnuId :: uint32
  onu_SerialNumber :: "SerialNumber option"
  onu_Pir :: uint32
  onu_OmccEncryption :: bool

datatype PoolType = Pool_ONU_ID | Pool_ALLOC_ID | Pool_GEMPORT_ID | Pool_FLOW_ID
datatype SharingType =
  DEDICATED_PER_INTF | SHARED_BY_ALL_INTF_ALL_TECH | SHARED_BY_ALL_INTF_SAME_TECH

fun sharing_number :: "SharingType \<Rightarrow> uint32" where
  "sharing_number DEDICATED_PER_INTF = 0"
| "sharing_number SHARED_BY_ALL_INTF_ALL_TECH = 1"
| "sharing_number SHARED_BY_ALL_INTF_SAME_TECH = 2"

record Pool =
  pl_Type :: PoolType
  pl_Sharing :: SharingType
  pl_Start :: uint32
  pl_End :: uint32

record DeviceResourceRanges =
  rr_IntfIds :: "uint32 list"
  rr_Technology :: string
  rr_Pools :: "Pool list"

record DeviceInfo =
  di_PonPorts :: uint32
  di_Technology :: string
  di_Ranges :: "DeviceResourceRanges list"

text \<open>The remote calls whose request the tester composes.\<close>

datatype rpc =
    ActivateOnu Onu
  | CreateTrafficSchedulers TrafficSchedulers
  | CreateTrafficQueues TrafficQueues
  | RemoveTrafficQueues TrafficQueues
  | FlowAdd Flow
  | PerformGroupOp Group

section \<open>Facts\<close>

lemma status_code_OK: "(\<And>e. err = Some e \<Longrightarrow> valid_error e) \<Longrightarrow> status_code err = OK \<longleftrightarrow> err = None"
  by (cases err rule: status_code.cases) auto

lemma status_code_AlreadyExists: "status_code err = AlreadyExists \<longleftrightarrow> (\<exists>m. err = Some (StatusError AlreadyExists m))"
  by (cases err rule: status_code.cases) auto

lemma code_name_inj: "code_name c = code_name d \<longleftrightarrow> c = d"
  by (cases c; cases d; simp)

lemmas zero_defs = Classifier_zero_def ActionCmd_zero_def Action_zero_def Flow_zero_def
  TrafficShapingInfo_zero_def TrafficQueue_zero_def TrafficQueues_zero_def

end
