(* ===== verification/Utils.thy ===== *)
theory Utils
  imports Openolt_Api
begin

text \<open>
  Model of \<open>core/utils.go\<close>: the ONU serial number generator, the UNI port number, and the
  C-tag and S-tag allocators of the three workflows. The package variables of the file are the
  record \<open>tag_state\<close> (the maps guarded by \<open>mutex\<close>) and the counter \<open>vendorSpecificId\<close>,
  which the callers pass and get back; each allocator is one critical section, so it is one
  function on the state.

  The lemmas give the contract of a tag counter once, as the locale \<open>tag_counter\<close>, with an
  interpretation for each workflow; the contract of the S-tag table as \<open>stag_table\<close>; and the
  exact range in which UNI port numbers and printed serial numbers identify their owner.
\<close>

section \<open>Package state\<close>

record DtStagKey =
  dk_ponIntf :: uint32
  dk_onuID :: uint32
  dk_uniID :: uint32

record tag_state =
  tg_currDtStag :: uint32
  tg_DtStag :: "DtStagKey \<rightharpoonup> uint32"
  tg_DtCtag :: "uint32 \<rightharpoonup> uint32"
  tg_AttCtag :: "uint32 \<rightharpoonup> uint32"
  tg_TtCtag :: "uint32 \<rightharpoonup> uint32"

definition tag_init :: tag_state where
  "tag_init = \<lparr>tg_currDtStag = 0, tg_DtStag = Map.empty, tg_DtCtag = Map.empty,
     tg_AttCtag = Map.empty, tg_TtCtag = Map.empty\<rparr>"

definition vendorName :: string where "vendorName = ''ABCD''"
definition bitsForUniID :: nat where "bitsForUniID = 4"
definition bitsForONUID :: nat where "bitsForONUID = 8"
definition MaxOnusPerPon :: int where "MaxOnusPerPon = 2 ^ bitsForONUID"

definition vendorSpecificId_init :: uint64 where "vendorSpecificId_init = 1000"

section \<open>Operations\<close>

definition GenerateNextONUSerialNumber :: "uint64 \<Rightarrow> SerialNumber \<times> uint64" where
  "GenerateNextONUSerialNumber vendorSpecificId =
     (let vi = bytes_of vendorName;
          v = vendorSpecificId + 1;
          vs = bytes_of (Itoa (sint v))
      in (\<lparr>sn_VendorId = vi, sn_VendorSpecific = vs\<rparr>, v))"

text \<open>The returned number, and whether the warning about too many ONUs is logged.\<close>

definition MkUniPortNum :: "uint32 \<Rightarrow> uint32 \<Rightarrow> uint32 \<Rightarrow> uint32" where
  "MkUniPortNum intfID onuID uniID =
     (push_bit (bitsForUniID + bitsForONUID) intfID OR push_bit bitsForUniID onuID) OR uniID"

definition MkUniPortNum_warns :: "uint32 \<Rightarrow> bool" where
  "MkUniPortNum_warns onuID = (let limit = int (unat onuID) in limit > MaxOnusPerPon)"

definition GetAttCtag :: "uint32 \<Rightarrow> tag_state \<Rightarrow> uint32 \<times> tag_state" where
  "GetAttCtag ponIntf s =
     (case tg_AttCtag s ponIntf of
        None \<Rightarrow> (2, s\<lparr>tg_AttCtag := (tg_AttCtag s)(ponIntf \<mapsto> 2)\<rparr>)
      | Some currCtag \<Rightarrow>
          (currCtag + 1, s\<lparr>tg_AttCtag := (tg_AttCtag s)(ponIntf \<mapsto> currCtag + 1)\<rparr>))"

definition GetDtCtag :: "uint32 \<Rightarrow> tag_state \<Rightarrow> uint32 \<times> tag_state" where
  "GetDtCtag ponIntf s =
     (case tg_DtCtag s ponIntf of
        None \<Rightarrow> (1, s\<lparr>tg_DtCtag := (tg_DtCtag s)(ponIntf \<mapsto> 1)\<rparr>)
      | Some currCtag \<Rightarrow>
          (currCtag + 1, s\<lparr>tg_DtCtag := (tg_DtCtag s)(ponIntf \<mapsto> currCtag + 1)\<rparr>))"

definition GetTtCtag :: "uint32 \<Rightarrow> tag_state \<Rightarrow> uint32 \<times> tag_state" where
  "GetTtCtag ponIntf s =
     (case tg_TtCtag s ponIntf of
        None \<Rightarrow> (1, s\<lparr>tg_TtCtag := (tg_TtCtag s)(ponIntf \<mapsto> 1)\<rparr>)
      | Some currCtag \<Rightarrow>
          (currCtag + 1, s\<lparr>tg_TtCtag := (tg_TtCtag s)(ponIntf \<mapsto> currCtag + 1)\<rparr>))"

definition GetAttStag :: "uint32 \<Rightarrow> uint32" where
  "GetAttStag ponIntf = ponIntf + 2"

definition GetDtStag :: "uint32 \<Rightarrow> uint32 \<Rightarrow> uint32 \<Rightarrow> tag_state \<Rightarrow> uint32 \<times> tag_state" where
  "GetDtStag ponIntf onuID uniID s =
     (let key = \<lparr>dk_ponIntf = ponIntf, dk_onuID = onuID, dk_uniID = uniID\<rparr>
      in case tg_DtStag s key of
           Some val \<Rightarrow> (val, s)
         | None \<Rightarrow>
             (let v = tg_currDtStag s + 1
              in (v, s\<lparr>tg_DtStag := (tg_DtStag s)(key \<mapsto> v), tg_currDtStag := v\<rparr>)))"

definition GetTtStag :: "uint32 \<Rightarrow> uint32" where
  "GetTtStag ponIntf = ponIntf + 2"

definition GetCtag :: "string \<Rightarrow> uint32 \<Rightarrow> tag_state \<Rightarrow> uint32 \<times> tag_state" where
  "GetCtag workFlowName ponIntf s =
     (if workFlowName = ''ATT'' then GetAttCtag ponIntf s
      else if workFlowName = ''DT'' then GetDtCtag ponIntf s
      else if workFlowName = ''TT'' then GetTtCtag ponIntf s
      else (0, s))"

definition GetStag :: "string \<Rightarrow> uint32 \<Rightarrow> uint32 \<Rightarrow> uint32 \<Rightarrow> tag_state \<Rightarrow> uint32 \<times> tag_state" where
  "GetStag workFlowName ponIntf onuID uniID s =
     (if workFlowName = ''ATT'' then (GetAttStag ponIntf, s)
      else if workFlowName = ''DT'' then GetDtStag ponIntf onuID uniID s
      else if workFlowName = ''TT'' then (GetTtStag ponIntf, s)
      else (0, s))"

text \<open>The S-tag table seen through its key, and the invariant that its entries come from the counter.\<close>

definition get_stag :: "DtStagKey \<Rightarrow> tag_state \<Rightarrow> uint32 \<times> tag_state" where
  "get_stag key = GetDtStag (dk_ponIntf key) (dk_onuID key) (dk_uniID key)"

definition stag_inv :: "tag_state \<Rightarrow> bool" where
  "stag_inv s \<longleftrightarrow>
     (\<forall>k v. tg_DtStag s k = Some v \<longrightarrow> 1 \<le> unat v \<and> unat v \<le> unat (tg_currDtStag s)) \<and>
     inj_on (tg_DtStag s) (dom (tg_DtStag s))"

section \<open>The contract of a tag counter\<close>

text \<open>
  One counter per PON port, starting at \<open>start\<close>; \<open>view\<close> reads the counters from the state.
\<close>

locale tag_counter =
  fixes get :: "uint32 \<Rightarrow> 's \<Rightarrow> uint32 \<times> 's"
    and view :: "'s \<Rightarrow> uint32 \<rightharpoonup> uint32"
    and start :: uint32
  assumes get_value: "fst (get p s) = (case view s p of None \<Rightarrow> start | Some c \<Rightarrow> c + 1)"
    and view_get: "view (snd (get p s)) = (view s)(p \<mapsto> fst (get p s))"
begin

definition next_tag :: "uint32 \<Rightarrow> 's \<Rightarrow> uint32" where
  "next_tag p s = (case view s p of None \<Rightarrow> start | Some c \<Rightarrow> c + 1)"

lemma get_next_tag: "fst (get p s) = next_tag p s"
  by (simp add: get_value next_tag_def)

lemma next_tag_get: "next_tag q (snd (get p s)) = (if q = p then next_tag p s + 1 else next_tag q s)"
  by (simp add: next_tag_def view_get get_value)

lemma serve_tags:
  "map snd (filter (\<lambda>r. fst r = p) (fst (serve get ps s))) =
   map (\<lambda>i. next_tag p s + of_nat i) [0..<count_list ps p]"
proof (induction ps arbitrary: s)
  case (Cons q ps)
  have "[0..<Suc n] = 0 # map Suc [0..<n]" for n
    by (simp add: upt_conv_Cons map_Suc_upt del: upt_Suc)
  then show ?case
    using Cons.IH [of "snd (get q s)"]
    by (cases "q = p") (simp_all add: get_next_tag next_tag_get Let_def comp_def add.assoc del: upt_Suc)
qed simp

lemma serve_distinct:
  assumes "count_list ps p \<le> 2 ^ 32"
  shows "distinct (map snd (filter (\<lambda>r. fst r = p) (fst (serve get ps s))))"
  using assms by (simp add: serve_tags distinct_counter)

end

interpretation att_ctag: tag_counter GetAttCtag tg_AttCtag 2
  by unfold_locales (auto simp: GetAttCtag_def split: option.splits)

interpretation dt_ctag: tag_counter GetDtCtag tg_DtCtag 1
  by unfold_locales (auto simp: GetDtCtag_def split: option.splits)

interpretation tt_ctag: tag_counter GetTtCtag tg_TtCtag 1
  by unfold_locales (auto simp: GetTtCtag_def split: option.splits)

section \<open>The contract of the S-tag table\<close>

locale stag_table =
  fixes get :: "'k \<Rightarrow> 's \<Rightarrow> 'v \<times> 's"
    and view :: "'s \<Rightarrow> 'k \<rightharpoonup> 'v"
    and inv :: "'s \<Rightarrow> bool"
    and room :: "'s \<Rightarrow> nat"
  assumes hit: "view s k = Some v \<Longrightarrow> get k s = (v, s)"
    and miss: "view s k = None \<Longrightarrow> view (snd (get k s)) = (view s)(k \<mapsto> fst (get k s))"
    and fresh: "inv s \<Longrightarrow> 0 < room s \<Longrightarrow> view s k = None \<Longrightarrow> fst (get k s) \<notin> ran (view s)"
    and keeps: "inv s \<Longrightarrow> 0 < room s \<Longrightarrow> inv (snd (get k s))"
    and uses: "inv s \<Longrightarrow> 0 < room s \<Longrightarrow> room s \<le> Suc (room (snd (get k s)))"
    and injective: "inv s \<Longrightarrow> view s k = Some v \<Longrightarrow> view s j = Some v \<Longrightarrow> k = j"
begin

lemma view_get: "view (snd (get k s)) = (view s)(k \<mapsto> fst (get k s))"
proof (cases "view s k")
  case (Some v)
  then show ?thesis using hit [OF Some] by (simp add: fun_upd_idem)
qed (rule miss)

lemma serve_table:
  assumes "inv s" "length ks \<le> room s"
  shows "inv (snd (serve get ks s)) \<and>
    view s \<subseteq>\<^sub>m view (snd (serve get ks s)) \<and>
    (\<forall>(k, v) \<in> set (fst (serve get ks s)). view (snd (serve get ks s)) k = Some v)"
  using assms
proof (induction ks arbitrary: s)
  case (Cons k ks)
  define s' where "s' = snd (get k s)"
  have inv': "inv s'" and room': "length ks \<le> room s'"
    using keeps [of s k] uses [of s k] Cons.prems by (simp_all add: s'_def)
  note ih = Cons.IH [OF inv' room']
  have upd: "view s' = (view s)(k \<mapsto> fst (get k s))" by (simp add: s'_def view_get)
  have "view s \<subseteq>\<^sub>m view s'"
  proof (cases "view s k")
    case (Some w)
    with hit [OF Some] show ?thesis by (simp add: s'_def)
  qed (auto simp: upd map_le_def)
  moreover have "view (snd (serve get ks s')) k = Some (fst (get k s))"
  proof -
    have "view s' k = Some (fst (get k s))" by (simp add: upd)
    then have "k \<in> dom (view s')" by blast
    with ih have "view s' k = view (snd (serve get ks s')) k" by (simp add: map_le_def)
    then show ?thesis by (simp add: upd)
  qed
  ultimately show ?case
    using ih by (auto simp: Let_def s'_def [symmetric] intro: map_le_trans)
qed simp

lemma serve_same_iff:
  assumes "inv s" "length ks \<le> room s"
    and "(k, v) \<in> set (fst (serve get ks s))" "(j, w) \<in> set (fst (serve get ks s))"
  shows "v = w \<longleftrightarrow> k = j"
proof -
  let ?t = "snd (serve get ks s)"
  from serve_table [OF assms(1,2)] assms(3,4)
  have "inv ?t" "view ?t k = Some v" "view ?t j = Some w" by auto
  then show ?thesis using injective by (metis option.inject)
qed

end

definition stag_room :: "tag_state \<Rightarrow> nat" where
  "stag_room s = 2 ^ 32 - 1 - unat (tg_currDtStag s)"

lemma get_stag_hit: "tg_DtStag s k = Some v \<Longrightarrow> get_stag k s = (v, s)"
  by (cases k) (simp add: get_stag_def GetDtStag_def)

lemma get_stag_miss:
  "tg_DtStag s k = None \<Longrightarrow> get_stag k s =
     (tg_currDtStag s + 1, s\<lparr>tg_DtStag := (tg_DtStag s)(k \<mapsto> tg_currDtStag s + 1),
                             tg_currDtStag := tg_currDtStag s + 1\<rparr>)"
  by (cases k) (simp add: get_stag_def GetDtStag_def Let_def)

lemma stag_curr_Suc: "0 < stag_room s \<Longrightarrow> unat (tg_currDtStag s + 1) = unat (tg_currDtStag s) + 1"
  by (rule unat_Suc_word) (simp add: stag_room_def)

lemma stag_fresh:
  assumes "stag_inv s" "0 < stag_room s"
  shows "tg_currDtStag s + 1 \<notin> ran (tg_DtStag s)"
  using assms stag_curr_Suc [OF assms(2)] by (fastforce simp: stag_inv_def ran_def)

lemma stag_inv_get:
  assumes "stag_inv s" "0 < stag_room s"
  shows "stag_inv (snd (get_stag k s))"
proof (cases "tg_DtStag s k")
  case None
  have curr: "unat (tg_currDtStag s + 1) = unat (tg_currDtStag s) + 1"
    using assms(2) by (rule stag_curr_Suc)
  have new: "Some (tg_currDtStag s + 1) \<notin> tg_DtStag s ` dom (tg_DtStag s)"
    using stag_fresh [OF assms] by (auto simp: ran_def dom_def)
  have "inj_on ((tg_DtStag s)(k \<mapsto> tg_currDtStag s + 1)) (insert k (dom (tg_DtStag s)))"
    using assms(1) None new
    by (intro inj_on_fun_updI [THEN inj_on_insert [THEN iffD2, OF conjI]]) (auto simp: stag_inv_def inj_on_def)
  with None assms(1) curr show ?thesis
    by (fastforce simp: get_stag_miss stag_inv_def)
next
  case (Some v)
  with assms(1) show ?thesis by (simp add: get_stag_hit)
qed

interpretation dt_stag: stag_table get_stag tg_DtStag stag_inv stag_room
proof
  fix s k v j
  show "tg_DtStag s k = Some v \<Longrightarrow> get_stag k s = (v, s)" by (rule get_stag_hit)
  show "tg_DtStag s k = None \<Longrightarrow> tg_DtStag (snd (get_stag k s)) = (tg_DtStag s)(k \<mapsto> fst (get_stag k s))"
    by (simp add: get_stag_miss)
  show "fst (get_stag k s) \<notin> ran (tg_DtStag s)"
    if "stag_inv s" "0 < stag_room s" "tg_DtStag s k = None"
    using stag_fresh [OF that(1,2)] that(3) by (simp add: get_stag_miss)
  show "stag_inv s \<Longrightarrow> 0 < stag_room s \<Longrightarrow> stag_inv (snd (get_stag k s))" by (rule stag_inv_get)
  show "stag_room s \<le> Suc (stag_room (snd (get_stag k s)))" if "0 < stag_room s"
    using stag_curr_Suc [OF that]
    by (cases "tg_DtStag s k") (auto simp: get_stag_hit get_stag_miss stag_room_def)
  show "stag_inv s \<Longrightarrow> tg_DtStag s k = Some v \<Longrightarrow> tg_DtStag s j = Some v \<Longrightarrow> k = j"
    by (metis (mono_tags, lifting) domI inj_onD stag_inv_def)
qed

lemma stag_inv_init [simp]: "stag_inv tag_init"
  by (simp add: stag_inv_def tag_init_def)

lemma stag_room_init [simp]: "stag_room tag_init = 2 ^ 32 - 1"
  by (simp add: stag_room_def tag_init_def)

section \<open>UNI port numbers\<close>

lemmas MkUniPortNum_defs = MkUniPortNum_def bitsForUniID_def bitsForONUID_def

lemma MkUniPortNum_decode:
  assumes "unat intf < 2 ^ 20" "unat onu < 2 ^ 8" "unat uni < 2 ^ 4"
  shows "take_bit 4 (MkUniPortNum intf onu uni) = uni"
    and "take_bit 8 (drop_bit 4 (MkUniPortNum intf onu uni)) = onu"
    and "drop_bit 12 (MkUniPortNum intf onu uni) = intf"
proof -
  note b = bit_bound [OF assms(1)] bit_bound [OF assms(2)] bit_bound [OF assms(3)]
  show "take_bit 4 (MkUniPortNum intf onu uni) = uni"
    by (rule bit_word_eqI) (auto simp: MkUniPortNum_defs bit_simps dest: b)
  show "take_bit 8 (drop_bit 4 (MkUniPortNum intf onu uni)) = onu"
    by (rule bit_word_eqI) (auto simp: MkUniPortNum_defs bit_simps dest: b)
  show "drop_bit 12 (MkUniPortNum intf onu uni) = intf"
    by (rule bit_word_eqI) (auto simp: MkUniPortNum_defs bit_simps dest: b)
qed

lemma MkUniPortNum_inj:
  assumes "unat intf < 2 ^ 20" "unat onu < 2 ^ 8" "unat uni < 2 ^ 4"
    and "unat intf' < 2 ^ 20" "unat onu' < 2 ^ 8" "unat uni' < 2 ^ 4"
  shows "MkUniPortNum intf onu uni = MkUniPortNum intf' onu' uni' \<longleftrightarrow>
           intf = intf' \<and> onu = onu' \<and> uni = uni'"
  using MkUniPortNum_decode [OF assms(1-3)] MkUniPortNum_decode [OF assms(4-6)] by metis

section \<open>Properties\<close>

definition ctag_start :: "string \<Rightarrow> uint32" where
  "ctag_start w = (if w = ''ATT'' then 2 else 1)"

definition known_workflow :: "string \<Rightarrow> bool" where
  "known_workflow w \<longleftrightarrow> w = ''ATT'' \<or> w = ''DT'' \<or> w = ''TT''"

lemma GetCtag_workflow [simp]:
  "GetCtag ''ATT'' = GetAttCtag" "GetCtag ''DT'' = GetDtCtag" "GetCtag ''TT'' = GetTtCtag"
  by (simp_all add: GetCtag_def fun_eq_iff)

lemma next_tag_init:
  "att_ctag.next_tag p tag_init = 2" "dt_ctag.next_tag p tag_init = 1" "tt_ctag.next_tag p tag_init = 1"
  by (simp_all add: att_ctag.next_tag_def dt_ctag.next_tag_def tt_ctag.next_tag_def tag_init_def)

lemma ctags_from_start:
  assumes "known_workflow w"
  shows "map snd (filter (\<lambda>r. fst r = p) (fst (serve (GetCtag w) ps tag_init))) =
           map (\<lambda>i. ctag_start w + of_nat i) [0..<count_list ps p]"
  using assms att_ctag.serve_tags [of p ps tag_init] dt_ctag.serve_tags [of p ps tag_init]
    tt_ctag.serve_tags [of p ps tag_init]
  by (auto simp: known_workflow_def ctag_start_def next_tag_init)

lemma unat_counter:
  fixes b :: "'a::len word"
  assumes "unat b + i < 2 ^ LENGTH('a)"
  shows "unat (b + of_nat i) = unat b + i"
proof -
  have "unat (of_nat i :: 'a word) = i" using assms by (simp add: unsigned_of_nat take_bit_nat_eq_self)
  with assms show ?thesis by (simp add: unat_word_ariths)
qed

text \<open>
  Whatever the order in which the subscribers of all PON ports ask for their C-tag, the
  C-tags given out on one PON port are consecutive, from 2 for ATT and from 1 for DT and TT.
\<close>

lemma ctags_consecutive:
  assumes "known_workflow w"
  shows "map snd (filter (\<lambda>r. fst r = p) (fst (serve (GetCtag w) ps tag_init))) =
           map (\<lambda>i. ctag_start w + of_nat i) [0..<count_list ps p]"
  using assms by (rule ctags_from_start)

lemma ctags_consecutive_witness:
  "map snd (filter (\<lambda>r. fst r = 7) (fst (serve (GetCtag ''ATT'') [7, 3, 7, 7] tag_init))) = [2, 3, 4]"
proof -
  have "known_workflow ''ATT''" by (simp add: known_workflow_def)
  note eq = ctags_consecutive [OF this, of 7 "[7, 3, 7, 7]"]
  have "map (\<lambda>i. ctag_start ''ATT'' + of_nat i) [0..<count_list [7, 3, 7, 7 :: uint32] 7] = [2, 3, 4]"
    by (simp add: ctag_start_def upt_rec)
  with eq show ?thesis by (rule trans)
qed

text \<open>
  As long as a PON port has no more subscribers than there are VLAN identifiers left above
  the first C-tag, its C-tags are pairwise distinct and are all valid VLAN identifiers (1 to 4094).
\<close>

lemma ctags_valid_vlans:
  assumes "known_workflow w" and "unat (ctag_start w) + count_list ps p \<le> 4095"
  shows "distinct (map snd (filter (\<lambda>r. fst r = p) (fst (serve (GetCtag w) ps tag_init)))) \<and>
         (\<forall>(q, t) \<in> set (fst (serve (GetCtag w) ps tag_init)). q = p \<longrightarrow> 1 \<le> unat t \<and> unat t \<le> 4094)"
proof
  let ?rs = "fst (serve (GetCtag w) ps tag_init)"
  note eq = ctags_from_start [OF assms(1), of p ps]
  have "count_list ps p \<le> 2 ^ LENGTH(32)" using assms(2) by simp
  then show "distinct (map snd (filter (\<lambda>r. fst r = p) ?rs))"
    unfolding eq by (rule distinct_counter)
  show "\<forall>(q, t) \<in> set ?rs. q = p \<longrightarrow> 1 \<le> unat t \<and> unat t \<le> 4094"
  proof safe
    fix t assume "(p, t) \<in> set ?rs"
    then have "t \<in> set (map snd (filter (\<lambda>r. fst r = p) ?rs))" by force
    then obtain i where i: "i < count_list ps p" "t = ctag_start w + of_nat i"
      unfolding eq by auto
    then have "unat t = unat (ctag_start w) + i"
      using assms(2) by (simp add: unat_counter)
    moreover have "1 \<le> unat (ctag_start w)" by (simp add: ctag_start_def)
    ultimately show "1 \<le> unat t" "unat t \<le> 4094" using i(1) assms(2) by simp_all
  qed
qed

lemma ctags_valid_vlans_witness:
  "distinct (map snd (filter (\<lambda>r. fst r = 5) (fst (serve (GetCtag ''DT'') [5, 5, 6, 5] tag_init))))"
proof -
  have "known_workflow ''DT''" "unat (ctag_start ''DT'') + count_list [5, 5, 6, 5 :: uint32] 5 \<le> 4095"
    by (simp_all add: known_workflow_def ctag_start_def)
  from ctags_valid_vlans [OF this] show ?thesis by blast
qed

text \<open>
  The DT workflow gives every subscriber its own S-tag: over any sequence of requests from the
  start of the program (fewer than 2 to the 32 of them) two requests get the same S-tag exactly when
  they are for the same PON port, ONU and UNI, so repeating a request repeats its answer.
\<close>

lemma dt_stags_identify:
  assumes "length ks < 2 ^ 32"
    and "(k, v) \<in> set (fst (serve get_stag ks tag_init))" and "(j, w) \<in> set (fst (serve get_stag ks tag_init))"
  shows "v = w \<longleftrightarrow> k = j"
  using assms by (intro dt_stag.serve_same_iff [of tag_init ks]) simp_all

lemma dt_stags_identify_witness:
  "fst (get_stag \<lparr>dk_ponIntf = 0, dk_onuID = 1, dk_uniID = 0\<rparr> tag_init) \<noteq> 2"
proof -
  let ?a = "\<lparr>dk_ponIntf = 0, dk_onuID = 1, dk_uniID = 0\<rparr>"
  let ?b = "\<lparr>dk_ponIntf = 0, dk_onuID = 2, dk_uniID = 0\<rparr>"
  have s: "fst (serve get_stag [?a, ?b] tag_init) = [(?a, 1), (?b, 2)]"
    by (simp add: get_stag_def GetDtStag_def tag_init_def Let_def)
  have "(1 :: uint32) = 2 \<longleftrightarrow> ?a = ?b"
    by (rule dt_stags_identify [of "[?a, ?b]"]) (simp_all add: s del: serve.simps)
  then show ?thesis by (simp add: get_stag_def GetDtStag_def tag_init_def Let_def)
qed

text \<open>
  The UNI port number identifies the UNI: inside the field widths (20 bits of PON interface, 8 of
  ONU, 4 of UNI) two UNIs have the same number only if they are the same UNI, and the three parts can be
  read back from the number.
\<close>

lemma uni_port_roundtrip:
  assumes "unat intf < 2 ^ 20" "unat onu < 2 ^ 8" "unat uni < 2 ^ 4"
  shows "take_bit 4 (MkUniPortNum intf onu uni) = uni \<and>
         take_bit 8 (drop_bit 4 (MkUniPortNum intf onu uni)) = onu \<and>
         drop_bit 12 (MkUniPortNum intf onu uni) = intf"
  using MkUniPortNum_decode [OF assms] by simp

lemma uni_port_roundtrip_witness: "take_bit 8 (drop_bit 4 (MkUniPortNum 3 130 2)) = 130"
  using uni_port_roundtrip [of 3 130 2] by simp

text \<open>
  Outside those widths the numbers collide: the seventeenth UNI of an ONU takes the number of the
  first UNI of the next ONU, and ONU 256 takes that of ONU 0 on the next PON port, for which the check
  in the code logs no warning (it warns only above 256).
\<close>

lemma uni_port_collisions:
  "MkUniPortNum p 0 16 = MkUniPortNum p 1 0 \<and> MkUniPortNum 0 256 u = MkUniPortNum 1 0 u \<and>
   \<not> MkUniPortNum_warns 256"
proof -
  have "MkUniPortNum p 0 16 = MkUniPortNum p 1 0"
    by (simp add: MkUniPortNum_defs push_bit_eq_mult)
  moreover have "MkUniPortNum 0 256 u = MkUniPortNum 1 0 u"
    by (simp add: MkUniPortNum_defs push_bit_eq_mult)
  ultimately show ?thesis
    by (simp add: MkUniPortNum_warns_def MaxOnusPerPon_def bitsForONUID_def)
qed

end
