(* ===== verification/Effects.thy ===== *)
theory Effects
  imports Utils
begin

text \<open>
  How the model runs the code of the goroutines. A function of the sources that touches shared
  state is translated to a value of type \<open>'a prog\<close>: the sequence of its atomic actions, each
  followed by a continuation on the action's result. The actions are the critical sections and atomic
  operations of the program (the flow ID counter of a resource manager, the tag allocators, the
  \<open>lastPonIntf\<close> word), the remote calls to the OLT agent, the calls that create technology
  profile instances, and draws of random numbers.

  \<open>run\<close> executes a program alone on a \<open>world\<close> (the shared memory and the history of the
  calls made). \<open>pool_step\<close> interleaves the goroutines of a pool, one action at a time. The OLT
  agent and the technology profile store are parameters: the record \<open>env\<close> gives their answer to a
  call as a function of the history of the calls before it, so that any sequence of answers is covered.

  \<open>safe P Q p\<close> says that \<open>p\<close>, whatever the answers it gets, never panics, asks the library for no
  instance, sends only requests in \<open>P\<close>, and ends with a value in \<open>Q\<close>. The lemmas lift it from the parts of a
  program to the whole, to its runs and to every interleaving with other programs.
\<close>

section \<open>Programs\<close>

datatype tag_req = ReqCtag string uint32 | ReqStag string uint32 uint32 uint32

record tp_req =
  tr_tpID :: uint32
  tr_uniPortName :: string
  tr_intfID :: uint32

text \<open>
  What \<open>CreateTechProfileInstance\<close> hands back: the instance when the returned interface holds a
  \<open>*TechProfileInstance\<close> (\<open>None\<close> for a nil interface or another dynamic type) and the error.
\<close>

type_synonym tp_result = "TechProfileInstance option \<times> go_error option"

datatype 'a prog =
    Ret 'a
  | Panic go_panic
  | NextFlowID uint32 "uint64 \<Rightarrow> 'a prog"
  | Tag tag_req "uint32 \<Rightarrow> 'a prog"
  | LoadPon "uint32 \<Rightarrow> 'a prog"
  | AddPon uint32 "uint32 \<Rightarrow> 'a prog"
  | Rand nat "nat \<Rightarrow> 'a prog"
  | Call rpc "go_error option \<Rightarrow> 'a prog"
  | TpCreate tp_req "tp_result \<Rightarrow> 'a prog"

primrec bindp :: "'a prog \<Rightarrow> ('a \<Rightarrow> 'b prog) \<Rightarrow> 'b prog" where
  "bindp (Ret x) f = f x"
| "bindp (Panic e) f = Panic e"
| "bindp (NextFlowID m k) f = NextFlowID m (\<lambda>v. bindp (k v) f)"
| "bindp (Tag r k) f = Tag r (\<lambda>v. bindp (k v) f)"
| "bindp (LoadPon k) f = LoadPon (\<lambda>v. bindp (k v) f)"
| "bindp (AddPon d k) f = AddPon d (\<lambda>v. bindp (k v) f)"
| "bindp (Rand n k) f = Rand n (\<lambda>v. bindp (k v) f)"
| "bindp (Call r k) f = Call r (\<lambda>v. bindp (k v) f)"
| "bindp (TpCreate r k) f = TpCreate r (\<lambda>v. bindp (k v) f)"

text \<open>
  The idiom \<open>if err := step; err != nil { return err }\<close>: run a step that returns an error, and go
  on only when it is nil.
\<close>

definition and_then :: "go_error option prog \<Rightarrow> go_error option prog \<Rightarrow> go_error option prog" where
  "and_then m n = bindp m (\<lambda>err. case err of Some e \<Rightarrow> Ret (Some e) | None \<Rightarrow> n)"

text \<open>Reading through a pointer or an index that may be missing.\<close>

definition deref :: "go_panic \<Rightarrow> 'a option \<Rightarrow> 'a prog" where
  "deref e p = (case p of Some x \<Rightarrow> Ret x | None \<Rightarrow> Panic e)"

section \<open>Memory and environment\<close>

record world =
  flow_id :: "uint32 \<Rightarrow> uint64"
  lastPonIntf :: uint32
  tags :: tag_state
  sent :: "rpc list"
  draws :: nat
  tp_calls :: "tp_req list"

definition world_init :: world where
  "world_init = \<lparr>flow_id = (\<lambda>_. 0), lastPonIntf = 0, tags = tag_init, sent = [], draws = 0, tp_calls = []\<rparr>"

record env =
  reply :: "rpc list \<Rightarrow> rpc \<Rightarrow> go_error option"
  rand_src :: "nat \<Rightarrow> nat"
  tp_store :: "tp_req list \<Rightarrow> tp_req \<Rightarrow> tp_result"

text \<open>The critical section of \<open>GetFlowID\<close>: increment the manager's counter and read it.\<close>

definition flow_id_section :: "uint32 \<Rightarrow> world \<Rightarrow> uint64 \<times> world" where
  "flow_id_section m w =
     (let w' = w\<lparr>flow_id := (flow_id w)(m := flow_id w m + 1)\<rparr> in (flow_id w' m, w'))"

fun tag_section :: "tag_req \<Rightarrow> tag_state \<Rightarrow> uint32 \<times> tag_state" where
  "tag_section (ReqCtag wn pon) s = GetCtag wn pon s"
| "tag_section (ReqStag wn pon onu uni) s = GetStag wn pon onu uni s"

primrec step1 :: "env \<Rightarrow> 'a prog \<Rightarrow> world \<Rightarrow> ('a prog \<times> world) option" where
  "step1 E (Ret x) w = None"
| "step1 E (Panic e) w = None"
| "step1 E (NextFlowID m k) w = Some (k (fst (flow_id_section m w)), snd (flow_id_section m w))"
| "step1 E (Tag r k) w =
     Some (k (fst (tag_section r (tags w))), w\<lparr>tags := snd (tag_section r (tags w))\<rparr>)"
| "step1 E (LoadPon k) w = Some (k (lastPonIntf w), w)"
| "step1 E (AddPon d k) w = Some (k (lastPonIntf w + d), w\<lparr>lastPonIntf := lastPonIntf w + d\<rparr>)"
| "step1 E (Rand n k) w = Some (k (rand_src E (draws w) mod n), w\<lparr>draws := Suc (draws w)\<rparr>)"
| "step1 E (Call r k) w = Some (k (reply E (sent w) r), w\<lparr>sent := sent w @ [r]\<rparr>)"
| "step1 E (TpCreate r k) w = Some (k (tp_store E (tp_calls w) r), w\<lparr>tp_calls := tp_calls w @ [r]\<rparr>)"

primrec run :: "env \<Rightarrow> 'a prog \<Rightarrow> world \<Rightarrow> 'a outcome \<times> world" where
  "run E (Ret x) w = (Done x, w)"
| "run E (Panic e) w = (Crashed e, w)"
| "run E (NextFlowID m k) w = run E (k (fst (flow_id_section m w))) (snd (flow_id_section m w))"
| "run E (Tag r k) w =
     run E (k (fst (tag_section r (tags w)))) (w\<lparr>tags := snd (tag_section r (tags w))\<rparr>)"
| "run E (LoadPon k) w = run E (k (lastPonIntf w)) w"
| "run E (AddPon d k) w = run E (k (lastPonIntf w + d)) (w\<lparr>lastPonIntf := lastPonIntf w + d\<rparr>)"
| "run E (Rand n k) w = run E (k (rand_src E (draws w) mod n)) (w\<lparr>draws := Suc (draws w)\<rparr>)"
| "run E (Call r k) w = run E (k (reply E (sent w) r)) (w\<lparr>sent := sent w @ [r]\<rparr>)"
| "run E (TpCreate r k) w =
     run E (k (tp_store E (tp_calls w) r)) (w\<lparr>tp_calls := tp_calls w @ [r]\<rparr>)"

text \<open>
  Goroutines: a pool of programs over one world. A step moves one of them by one action. A panic in
  any goroutine ends the process, so nothing moves after one.
\<close>

definition is_panic :: "'a prog \<Rightarrow> bool" where
  "is_panic p = (case p of Panic e \<Rightarrow> True | _ \<Rightarrow> False)"

inductive pool_step :: "env \<Rightarrow> 'a prog list \<times> world \<Rightarrow> 'a prog list \<times> world \<Rightarrow> bool"
  for E :: env where
  move: "i < length ps \<Longrightarrow> \<forall>p \<in> set ps. \<not> is_panic p \<Longrightarrow> step1 E (ps ! i) w = Some (p', w') \<Longrightarrow>
     pool_step E (ps, w) (ps[i := p'], w')"

inductive pool_steps :: "env \<Rightarrow> 'a prog list \<times> world \<Rightarrow> 'a prog list \<times> world \<Rightarrow> bool"
  for E :: env where
  none: "pool_steps E c c"
| more: "pool_steps E c d \<Longrightarrow> pool_step E d e \<Longrightarrow> pool_steps E c e"

section \<open>Path predicates\<close>

primrec safe :: "(rpc \<Rightarrow> bool) \<Rightarrow> ('a \<Rightarrow> bool) \<Rightarrow> 'a prog \<Rightarrow> bool" where
  "safe P Q (Ret x) = Q x"
| "safe P Q (Panic e) = False"
| "safe P Q (NextFlowID m k) = (\<forall>v. safe P Q (k v))"
| "safe P Q (Tag r k) = (\<forall>v. safe P Q (k v))"
| "safe P Q (LoadPon k) = (\<forall>v. safe P Q (k v))"
| "safe P Q (AddPon d k) = (\<forall>v. safe P Q (k v))"
| "safe P Q (Rand n k) = (0 < n \<and> (\<forall>v<n. safe P Q (k v)))"
| "safe P Q (Call r k) = (P r \<and> (\<forall>v. safe P Q (k v)))"
| "safe P Q (TpCreate r k) = False"

definition any :: "'a \<Rightarrow> bool" where "any x = True"

section \<open>Equations of the monad and of runs\<close>

lemma bindp_assoc [simp]: "bindp (bindp m f) g = bindp m (\<lambda>x. bindp (f x) g)"
  by (induction m) simp_all

lemma bindp_Ret [simp]: "bindp m Ret = m"
  by (induction m) simp_all

lemma deref_simps [simp]: "deref e (Some x) = Ret x" "deref e None = Panic e"
  by (simp_all add: deref_def)

lemma and_then_simps [simp]:
  "and_then (Ret None) n = n" "and_then (Ret (Some e)) n = Ret (Some e)"
  "and_then (Panic p) n = Panic p"
  by (simp_all add: and_then_def)

lemma run_bindp [go_run]:
  "run E (bindp m f) w =
     (case run E m w of (Done x, w') \<Rightarrow> run E (f x) w' | (Crashed e, w') \<Rightarrow> (Crashed e, w'))"
  by (induction m arbitrary: w) simp_all

lemma run_and_then [go_run]:
  "run E (and_then m n) w =
     (case run E m w of
        (Done None, w') \<Rightarrow> run E n w'
      | (Done (Some e), w') \<Rightarrow> (Done (Some e), w')
      | (Crashed e, w') \<Rightarrow> (Crashed e, w'))"
  by (simp add: and_then_def run_bindp split: prod.split outcome.split option.split)

lemma run_step1: "step1 E p w = Some (p', w') \<Longrightarrow> run E p w = run E p' w'"
  by (cases p) auto

lemma step1_progress: "(\<exists>x. p = Ret x) \<or> (\<exists>e. p = Panic e) \<or> (\<exists>c. step1 E p w = Some c)"
  by (cases p) auto

text \<open>An invariant of single actions holds at the end of a run, with what is left of the program.\<close>

lemma run_inv:
  assumes step: "\<And>p w p' w'. step1 E p w = Some (p', w') \<Longrightarrow> I p w \<Longrightarrow> I p' w'"
    and start: "I p w"
  shows "case run E p w of (Done x, w') \<Rightarrow> I (Ret x) w' | (Crashed e, w') \<Rightarrow> I (Panic e) w'"
  using start
proof (induction p arbitrary: w)
  case (NextFlowID m k)
  then show ?case using step [of "NextFlowID m k" w] by simp
next
  case (Tag r k)
  then show ?case using step [of "Tag r k" w] by simp
next
  case (LoadPon k)
  then show ?case using step [of "LoadPon k" w] by simp
next
  case (AddPon d k)
  then show ?case using step [of "AddPon d k" w] by simp
next
  case (Rand n k)
  then show ?case using step [of "Rand n k" w] by simp
next
  case (Call r k)
  then show ?case using step [of "Call r k" w] by simp
next
  case (TpCreate r k)
  then show ?case using step [of "TpCreate r k" w] by simp
qed simp_all

lemma step1_sent:
  "step1 E p w = Some (p', w') \<Longrightarrow> \<exists>rs. sent w' = sent w @ rs"
  by (cases p) (auto simp: flow_id_section_def Let_def)

lemma run_extends_sent: "\<exists>rs. sent (snd (run E p w)) = sent w @ rs"
proof -
  have "case run E p w of (Done x, w') \<Rightarrow> \<exists>rs. sent w' = sent w @ rs
      | (Crashed e, w') \<Rightarrow> \<exists>rs. sent w' = sent w @ rs"
    by (rule run_inv [where I = "\<lambda>p w'. \<exists>rs. sent w' = sent w @ rs"]) (fastforce dest: step1_sent)+
  then show ?thesis by (cases "run E p w") (auto split: outcome.splits)
qed

section \<open>Safety rules\<close>

lemma safe_mono:
  "safe P Q p \<Longrightarrow> (\<And>r. P r \<Longrightarrow> P' r) \<Longrightarrow> (\<And>x. Q x \<Longrightarrow> Q' x) \<Longrightarrow> safe P' Q' p"
  by (induction p) auto

lemma safe_bindp [go_safe]:
  "safe P R m \<Longrightarrow> (\<And>x. R x \<Longrightarrow> safe P Q (f x)) \<Longrightarrow> safe P Q (bindp m f)"
  by (induction m) auto

lemma safe_and_then [go_safe]:
  assumes "safe P Q m" "safe P Q n"
  shows "safe P Q (and_then m n)"
  unfolding and_then_def by (rule safe_bindp [OF assms(1)]) (use assms(2) in \<open>auto split: option.splits\<close>)

lemma safe_step1:
  assumes "safe P Q p" "step1 E p w = Some (p', w')"
  shows "safe P Q p' \<and> (sent w' = sent w \<or> (\<exists>r. sent w' = sent w @ [r] \<and> P r))"
  using assms by (cases p) (auto simp: flow_id_section_def Let_def simp del: split_paired_All)

lemma safe_run:
  assumes "safe P Q p"
  shows "\<exists>x rs. fst (run E p w) = Done x \<and> Q x \<and>
     sent (snd (run E p w)) = sent w @ rs \<and> (\<forall>r \<in> set rs. P r)"
proof -
  let ?I = "\<lambda>p w'. safe P Q p \<and> (\<exists>rs. sent w' = sent w @ rs \<and> (\<forall>r \<in> set rs. P r))"
  have step: "?I p' w'" if s: "step1 E p1 w1 = Some (p', w')" and i: "?I p1 w1" for p1 w1 p' w'
  proof -
    from i obtain rs where rs: "sent w1 = sent w @ rs" "\<forall>r \<in> set rs. P r" by blast
    from i have "safe P Q p1" by blast
    from safe_step1 [OF this s] rs show ?thesis by auto
  qed
  have "case run E p w of (Done x, w') \<Rightarrow> ?I (Ret x) w' | (Crashed e, w') \<Rightarrow> ?I (Panic e) w'"
    by (rule run_inv [where I = ?I, OF step]) (use assms in simp_all)
  then show ?thesis by (cases "run E p w") (auto split: outcome.splits)
qed

lemma safe_not_panic: "safe P Q p \<Longrightarrow> \<not> is_panic p"
  by (cases p) (auto simp: is_panic_def)

inductive_simps pool_step_iff: "pool_step E (ps, w) (ps', w')"

text \<open>Each goroutine of a pool has its own bounds, \<open>P i\<close> and \<open>Q i\<close> for the one at position \<open>i\<close>.\<close>

definition pool_safe :: "(nat \<Rightarrow> rpc \<Rightarrow> bool) \<Rightarrow> (nat \<Rightarrow> 'a \<Rightarrow> bool) \<Rightarrow> 'a prog list \<Rightarrow> bool" where
  "pool_safe P Q ps \<longleftrightarrow> (\<forall>i<length ps. safe (P i) (Q i) (ps ! i))"

lemma pool_step_safe:
  assumes "pool_step E (ps, w) (ps', w')" "pool_safe P Q ps"
  shows "pool_safe P Q ps' \<and> length ps' = length ps \<and>
         (sent w' = sent w \<or> (\<exists>i<length ps. \<exists>r. sent w' = sent w @ [r] \<and> P i r))"
proof -
  obtain i p' where i: "i < length ps" "step1 E (ps ! i) w = Some (p', w')" "ps' = ps[i := p']"
    using assms(1) by (auto simp: pool_step_iff)
  have "safe (P i) (Q i) (ps ! i)" using assms(2) i(1) by (simp add: pool_safe_def)
  note s = safe_step1 [OF this i(2)]
  have "pool_safe P Q ps'"
    using s assms(2) i by (simp add: pool_safe_def nth_list_update)
  with s i show ?thesis by auto
qed

lemma pool_steps_safe:
  assumes "pool_steps E (ps, w) (ps', w')" "pool_safe P Q ps"
  shows "pool_safe P Q ps' \<and> length ps' = length ps \<and>
         (\<exists>rs. sent w' = sent w @ rs \<and> (\<forall>r \<in> set rs. \<exists>i<length ps. P i r))"
  using assms
proof (induction "(ps, w)" "(ps', w')" arbitrary: ps' w' rule: pool_steps.induct)
  case (more d)
  obtain ps1 w1 where d: "d = (ps1, w1)" by (cases d)
  from more.hyps(2) [OF d] more.prems
  obtain rs where 1: "pool_safe P Q ps1" "length ps1 = length ps" "sent w1 = sent w @ rs"
    "\<forall>r \<in> set rs. \<exists>i<length ps. P i r" by auto
  from more.hyps(3) d have s: "pool_step E (ps1, w1) (ps', w')" by simp
  from pool_step_safe [OF s 1(1)] 1 show ?case by auto
qed auto

lemma pool_safe_not_panic:
  assumes "pool_safe P Q ps" "p \<in> set ps"
  shows "\<not> is_panic p"
proof -
  obtain i where "i < length ps" "p = ps ! i" using assms(2) by (auto simp: in_set_conv_nth)
  with assms(1) show ?thesis using safe_not_panic [of "P i" "Q i" p] by (simp add: pool_safe_def)
qed

text \<open>A program run alone is a schedule of the pool that holds only it.\<close>

definition result_prog :: "'a outcome \<Rightarrow> 'a prog" where
  "result_prog r = (case r of Done x \<Rightarrow> Ret x | Crashed e \<Rightarrow> Panic e)"

lemma run_pool_steps:
  assumes "run E p w = (r, w')"
  shows "pool_steps E ([p], w) ([result_prog r], w')"
proof -
  have np: "\<not> is_panic p'" if "step1 E p' w' = Some c" for p' :: "'a prog" and w' c
    using that by (cases p') (simp_all add: is_panic_def)
  have step: "pool_steps E ([p], w) ([q], v)"
    if "pool_steps E ([p], w) ([p'], w')" "step1 E p' w' = Some (q, v)" for p' w' q v
    using that(1) by (rule pool_steps.more)
      (use pool_step.move [of 0 "[p']" E w' q v] that(2) np in auto)
  have "case run E p w of (Done x, w') \<Rightarrow> pool_steps E ([p], w) ([Ret x], w')
      | (Crashed e, w') \<Rightarrow> pool_steps E ([p], w) ([Panic e], w')"
    by (rule run_inv [where I = "\<lambda>p' w'. pool_steps E ([p], w) ([p'], w')"])
      (auto intro: step pool_steps.none)
  with assms show ?thesis by (auto simp: result_prog_def split: outcome.splits)
qed

section \<open>Termination of pools\<close>

text \<open>
  A program is a well-founded tree, so it takes finitely many actions on every path; a pool that cannot
  move has finished, when it is safe.
\<close>

definition next_rel :: "env \<Rightarrow> ('a prog \<times> 'a prog) set" where
  "next_rel E = {(p', p). \<exists>w w'. step1 E p w = Some (p', w')}"

lemma wf_next_rel: "wf (next_rel E :: ('a prog \<times> 'a prog) set)"
proof (rule wfUNIVI)
  fix R :: "'a prog \<Rightarrow> bool" and p :: "'a prog"
  assume "\<forall>p. (\<forall>p'. (p', p) \<in> next_rel E \<longrightarrow> R p') \<longrightarrow> R p"
  then have ind: "(\<And>p' w w'. step1 E p w = Some (p', w') \<Longrightarrow> R p') \<Longrightarrow> R p" for p
    unfolding next_rel_def by blast
  show "R p" by (induction p; rule ind) auto
qed

lemma pool_step_listrel1:
  assumes "pool_step E (ps, w) (ps', w')"
  shows "(ps', ps) \<in> listrel1 (next_rel E)"
proof -
  obtain i p' where i: "i < length ps" "step1 E (ps ! i) w = Some (p', w')" "ps' = ps[i := p']"
    using assms by (auto simp: pool_step_iff)
  then have "(p', ps ! i) \<in> next_rel E" by (auto simp: next_rel_def)
  moreover have "ps = take i ps @ ps ! i # drop (Suc i) ps" "ps' = take i ps @ p' # drop (Suc i) ps"
    using i by (simp_all add: id_take_nth_drop [symmetric] upd_conv_take_nth_drop)
  ultimately show ?thesis by (intro listrel1I)
qed

lemma pool_terminates: "wf {(d, c). pool_step E c d}"
proof (rule wf_subset)
  show "wf (inv_image (listrel1 (next_rel E)) fst)"
    by (simp add: wf_listrel1_iff wf_next_rel)
  show "{(d, c). pool_step E c d} \<subseteq> inv_image (listrel1 (next_rel E)) fst"
    by (auto simp: pool_step_listrel1)
qed

lemma pool_stuck_done:
  assumes "pool_safe P Q ps" "\<nexists>c. pool_step E (ps, w) c" "i < length ps"
  shows "\<exists>x. ps ! i = Ret x \<and> Q i x"
proof -
  have "step1 E (ps ! i) w = None"
    using assms pool_step.move [of i ps E w] pool_safe_not_panic [OF assms(1)]
    by (cases "step1 E (ps ! i) w") auto
  moreover have "\<not> is_panic (ps ! i)" using pool_safe_not_panic [OF assms(1)] assms(3) by simp
  ultimately obtain x where "ps ! i = Ret x"
    using step1_progress [of "ps ! i" E w] by (auto simp: is_panic_def)
  with assms show ?thesis by (auto simp: pool_safe_def)
qed

end
