(* ===== verification/Id_Pool.thy ===== *)
theory Id_Pool
  imports Openolt_Api
begin

text \<open>
  Identifier pools of voltha-lib-go: the bitmap of \<open>github.com/boljen/go-bitmap\<close> and, over it,
  \<open>GenerateNextID\<close>, \<open>ReleaseID\<close>, \<open>reserveID\<close> and \<open>FormatResource\<close> of
  \<open>pkg/ponresourcemanager\<close> (vendored). A pool is a byte slice; its bit \<open>k\<close> says whether the identifier
  \<open>start + k\<close> is taken. An index outside the slice is a panic.

  The locale \<open>allocator\<close> is the contract of a pool of identifiers; it is interpreted on the bitmap code. The
  lemmas relate the byte operations to the set of indices taken and give the sequence of identifiers a
  fresh pool hands out.
\<close>

section \<open>Bitmaps\<close>

definition tA :: "uint8 list" where "tA = [1, 2, 4, 8, 16, 32, 64, 128]"

definition tB :: "uint8 list" where "tB = [254, 253, 251, 247, 239, 223, 191, 127]"

definition NewSlice :: "nat \<Rightarrow> uint8 list" where
  "NewSlice l = (let remainder = (if l mod 8 \<noteq> 0 then 1 else 0) in replicate (l div 8 + remainder) 0)"

definition bm_Get :: "uint8 list \<Rightarrow> nat \<Rightarrow> bool outcome" where
  "bm_Get m i =
     (if length m \<le> i div 8 then Crashed IndexOutOfRange
      else Done (m ! (i div 8) AND tA ! (i mod 8) \<noteq> 0))"

definition bm_Set :: "uint8 list \<Rightarrow> nat \<Rightarrow> bool \<Rightarrow> uint8 list outcome" where
  "bm_Set m i v =
     (let index = i div 8; bit = i mod 8
      in if length m \<le> index then Crashed IndexOutOfRange
         else if v then Done (m[index := m ! index OR tA ! bit])
         else Done (m[index := m ! index AND tB ! bit]))"

definition bm_Len :: "uint8 list \<Rightarrow> nat" where
  "bm_Len m = length m * 8"

section \<open>Pools\<close>

text \<open>The decoded JSON object of a pool, with the keys \<open>pon_intf_id\<close>, \<open>start_idx\<close>, \<open>end_idx\<close> and \<open>pool\<close>.\<close>

record IdResource =
  res_pon_intf_id :: uint32
  res_start_idx :: uint32
  res_end_idx :: uint32
  res_pool :: "uint8 list"

text \<open>The search loop of \<open>GenerateNextID\<close> from \<open>Idx\<close> on, with \<open>n\<close> bits left.\<close>

fun find_free :: "uint8 list \<Rightarrow> nat \<Rightarrow> nat \<Rightarrow> nat outcome" where
  "find_free Data Idx 0 = Done Idx"
| "find_free Data Idx (Suc n) =
     (case bm_Get Data Idx of
        Crashed p \<Rightarrow> Crashed p
      | Done taken \<Rightarrow> if \<not> taken then Done Idx else find_free Data (Suc Idx) n)"

text \<open>\<open>None\<close> is the nil map, whose entry \<open>pool\<close> is a nil interface.\<close>

definition GenerateNextID ::
  "IdResource option \<Rightarrow> ((uint32 \<times> go_error option) \<times> IdResource option) outcome" where
  "GenerateNextID Resource =
     (case Resource of
        None \<Rightarrow> Done ((0, Some (ErrorString ''unexpected-type-<nil>'')), None)
      | Some r \<Rightarrow>
          (case find_free (res_pool r) 0 (bm_Len (res_pool r)) of
             Crashed p \<Rightarrow> Crashed p
           | Done Idx \<Rightarrow>
               if Idx = bm_Len (res_pool r)
               then Done ((0, Some (ErrorString ''resource-exhausted--no-free-id-in-the-pool'')), Some r)
               else
                 (case bm_Set (res_pool r) Idx True of
                    Crashed p \<Rightarrow> Crashed p
                  | Done pool \<Rightarrow>
                      Done ((of_nat Idx + res_start_idx r, None), Some (r\<lparr>res_pool := pool\<rparr>)))))"

text \<open>
  The loop of \<open>GetResourceID\<close> that collects \<open>n\<close> identifiers; an error ends it with those collected so far.
\<close>

fun generate_ids ::
  "nat \<Rightarrow> IdResource option \<Rightarrow> ((uint32 list \<times> go_error option) \<times> IdResource option) outcome" where
  "generate_ids 0 Resource = Done (([], None), Resource)"
| "generate_ids (Suc NumIDs) Resource =
     (case GenerateNextID Resource of
        Crashed p \<Rightarrow> Crashed p
      | Done ((NextID, Some err), Resource') \<Rightarrow> Done (([], Some err), Resource')
      | Done ((NextID, None), Resource') \<Rightarrow>
          (case generate_ids NumIDs Resource' of
             Crashed p \<Rightarrow> Crashed p
           | Done ((Result, err), Resource'') \<Rightarrow> Done ((NextID # Result, err), Resource'')))"

definition ReleaseID :: "IdResource option \<Rightarrow> uint32 \<Rightarrow> (bool \<times> IdResource option) outcome" where
  "ReleaseID Resource uid =
     (case Resource of
        None \<Rightarrow> Done (False, None)
      | Some r \<Rightarrow>
          (let Idx = uid - res_start_idx r
           in if (of_nat (bm_Len (res_pool r)) :: uint32) \<le> Idx then Done (False, Some r)
              else
                (case bm_Set (res_pool r) (unat Idx) False of
                   Crashed p \<Rightarrow> Crashed p
                 | Done pool \<Rightarrow> Done (True, Some (r\<lparr>res_pool := pool\<rparr>)))))"

definition reserveID :: "uint8 list \<Rightarrow> uint32 \<Rightarrow> uint32 \<Rightarrow> (bool \<times> uint8 list) outcome" where
  "reserveID TSData StartIndex uid =
     (let Idx = uid - StartIndex
      in if (of_nat (bm_Len TSData) :: uint32) \<le> Idx then Done (False, TSData)
         else
           (case bm_Set TSData (unat Idx) True of
              Crashed p \<Rightarrow> Crashed p
            | Done pool \<Rightarrow> Done (True, pool)))"

text \<open>The loop of \<open>FormatResource\<close> over the excluded identifiers.\<close>

fun reserve_excluded :: "uint8 list \<Rightarrow> uint32 \<Rightarrow> uint32 \<Rightarrow> uint32 list \<Rightarrow> uint8 list outcome" where
  "reserve_excluded TSData StartIDx EndIDx [] = Done TSData"
| "reserve_excluded TSData StartIDx EndIDx (excludedID # rest) =
     (if excludedID < StartIDx \<or> excludedID > EndIDx then reserve_excluded TSData StartIDx EndIDx rest
      else
        (case reserveID TSData StartIDx excludedID of
           Crashed p \<Rightarrow> Crashed p
         | Done (ok, TSData') \<Rightarrow> reserve_excluded TSData' StartIDx EndIDx rest))"

definition FormatResource :: "uint32 \<Rightarrow> uint32 \<Rightarrow> uint32 \<Rightarrow> uint32 list \<Rightarrow> IdResource outcome" where
  "FormatResource IntfID StartIDx EndIDx Excluded =
     (case reserve_excluded (NewSlice (unat EndIDx)) StartIDx EndIDx Excluded of
        Crashed p \<Rightarrow> Crashed p
      | Done pool \<Rightarrow>
          Done \<lparr>res_pon_intf_id = IntfID, res_start_idx = StartIDx, res_end_idx = EndIDx, res_pool = pool\<rparr>)"

section \<open>The contract of an allocator\<close>

text \<open>
  \<open>take\<close> hands out an identifier that is not taken, or fails only when every identifier is; \<open>give\<close>
  returns one. \<open>ids\<close> is what the state can hand out, \<open>taken\<close> what it has handed out, \<open>inv\<close> its invariant.
\<close>

locale allocator =
  fixes take1 :: "'s \<Rightarrow> ('i \<times> 's) option"
    and give1 :: "'i \<Rightarrow> 's \<Rightarrow> 's"
    and ids :: "'s \<Rightarrow> 'i set"
    and taken :: "'s \<Rightarrow> 'i set"
    and inv :: "'s \<Rightarrow> bool"
  assumes take1_Some: "inv s \<Longrightarrow> take1 s = Some (i, s') \<Longrightarrow>
      i \<in> ids s \<and> i \<notin> taken s \<and> taken s' = insert i (taken s) \<and> ids s' = ids s \<and> inv s'"
    and take1_None: "inv s \<Longrightarrow> take1 s = None \<Longrightarrow> ids s \<subseteq> taken s"
    and give1_law: "inv s \<Longrightarrow> taken (give1 i s) = taken s - {i} \<and> ids (give1 i s) = ids s \<and> inv (give1 i s)"
begin

text \<open>Taking \<open>n\<close> identifiers one after the other, all or nothing.\<close>

fun takes :: "nat \<Rightarrow> 's \<Rightarrow> ('i list \<times> 's) option" where
  "takes 0 s = Some ([], s)"
| "takes (Suc n) s =
     (case take1 s of
        None \<Rightarrow> None
      | Some (i, s') \<Rightarrow> (case takes n s' of None \<Rightarrow> None | Some (is, s'') \<Rightarrow> Some (i # is, s'')))"

lemma takes_Some:
  assumes "inv s" "takes n s = Some (is, s')"
  shows "length is = n \<and> distinct is \<and> set is \<subseteq> ids s - taken s \<and> taken s' = taken s \<union> set is \<and>
     ids s' = ids s \<and> inv s'"
  using assms
proof (induction n arbitrary: s "is")
  case (Suc n)
  then obtain i s1 is1 where t: "take1 s = Some (i, s1)" "takes n s1 = Some (is1, s')" "is = i # is1"
    by (auto split: option.splits)
  note one = take1_Some [OF Suc.prems(1) t(1)]
  from one have "inv s1" by blast
  from Suc.IH [OF this t(2)] one t(3) show ?case by auto
qed simp

lemma takes_None:
  assumes "inv s" "takes n s = None" "finite (ids s)"
  shows "card (ids s - taken s) < n"
  using assms
proof (induction n arbitrary: s)
  case (Suc n)
  show ?case
  proof (cases "take1 s")
    case None
    from take1_None [OF Suc.prems(1) None] have "ids s - taken s = {}" by blast
    then show ?thesis by (simp only: card.empty)
  next
    case (Some p)
    obtain i s1 where p: "p = (i, s1)" by (cases p)
    note one = take1_Some [OF Suc.prems(1) Some [unfolded p]]
    from Suc.prems(2) Some p have "takes n s1 = None" by (auto split: option.splits)
    from Suc.IH [OF _ this] one Suc.prems(3) have "card (ids s1 - taken s1) < n" by simp
    moreover have "ids s - taken s = insert i (ids s1 - taken s1)" using one by blast
    moreover have "finite (ids s1 - taken s1)" using one Suc.prems(3) by simp
    ultimately show ?thesis
      using card_insert_le_m1 [of n "ids s1 - taken s1" i] by (auto simp: card_insert_if)
  qed
qed simp

text \<open>Any sequence of takes and gives; the identifiers held are those taken and not given back since.\<close>

fun serve_ops :: "'i option list \<Rightarrow> 's \<Rightarrow> 'i list \<Rightarrow> 's \<times> 'i list" where
  "serve_ops [] s held = (s, held)"
| "serve_ops (None # ops) s held =
     (case take1 s of
        None \<Rightarrow> serve_ops ops s held
      | Some (i, s') \<Rightarrow> serve_ops ops s' (i # held))"
| "serve_ops (Some i # ops) s held = serve_ops ops (give1 i s) (filter (\<lambda>j. j \<noteq> i) held)"

lemma held_distinct:
  assumes "inv s" "distinct held" "set held \<subseteq> taken s" "serve_ops ops s held = (s', held')"
  shows "distinct held' \<and> set held' \<subseteq> taken s' \<and> inv s'"
  using assms
proof (induction ops s held rule: serve_ops.induct)
  case (2 ops s held)
  show ?case
  proof (cases "take1 s")
    case (Some p)
    obtain i s1 where p: "p = (i, s1)" by (cases p)
    note one = take1_Some [OF 2(3) Some [unfolded p]]
    show ?thesis by (rule 2(2) [OF Some p [symmetric]]) (use one 2 Some p in auto)
  qed (use 2 in auto)
next
  case (3 i ops s held)
  show ?case by (rule 3(1)) (use give1_law [OF 3(2), of i] 3 in auto)
qed simp

end

section \<open>Bits of a byte slice\<close>

text \<open>The indices of the bits that are set.\<close>

definition used :: "uint8 list \<Rightarrow> nat set" where
  "used m = {k. k < 8 * length m \<and> bit (m ! (k div 8)) (k mod 8)}"

lemma nth_tA: "j < 8 \<Longrightarrow> tA ! j = 2 ^ j"
  by (auto simp: tA_def less_Suc_eq numeral_eq_Suc)

lemma tA_test: "j < 8 \<Longrightarrow> (w AND tA ! j \<noteq> 0) = bit w j"
  by (simp add: nth_tA and_exp_eq_0_iff_not_bit)

lemma tA_set: "j < 8 \<Longrightarrow> w OR tA ! j = set_bit j w"
  by (simp add: nth_tA set_bit_eq_or push_bit_eq_mult)

lemma nth_tB: "j < 8 \<Longrightarrow> tB ! j = NOT (2 ^ j)"
proof -
  assume "j < 8"
  then consider "j = 0" | "j = 1" | "j = 2" | "j = 3" | "j = 4" | "j = 5" | "j = 6" | "j = 7" by linarith
  then show ?thesis by cases (simp_all add: tB_def)
qed

lemma tB_unset: "j < 8 \<Longrightarrow> w AND tB ! j = unset_bit j w"
  by (simp add: nth_tB unset_bit_eq_and_not push_bit_eq_mult)

lemma bm_Len_mult: "bm_Len m = 8 * length m"
  by (simp add: bm_Len_def)

lemma bm_Get_used: "k < bm_Len m \<Longrightarrow> bm_Get m k = Done (k \<in> used m)"
  by (simp add: bm_Get_def bm_Len_def used_def tA_test less_mult_imp_div_less not_le mult.commute)

lemma bm_Set_bits:
  assumes "k < bm_Len m"
  shows "\<exists>m'. bm_Set m k v = Done m' \<and> length m' = length m \<and>
     used m' = (if v then insert k (used m) else used m - {k})"
proof -
  let ?f = "if v then set_bit (k mod 8) else unset_bit (k mod 8)"
  let ?m = "m[k div 8 := ?f (m ! (k div 8))]"
  have l: "k div 8 < length m" using assms by (simp add: bm_Len_def less_mult_imp_div_less)
  have "bm_Set m k v = Done ?m" using l by (simp add: bm_Set_def Let_def tA_set tB_unset)
  moreover have "j \<in> used ?m \<longleftrightarrow> j \<in> (if v then insert k (used m) else used m - {k})" for j
  proof (cases "j div 8 = k div 8")
    case True
    then have "j = k \<longleftrightarrow> j mod 8 = k mod 8" by (metis div_mult_mod_eq)
    with True l assms show ?thesis
      by (auto simp: used_def bm_Len_def bit_set_bit_iff bit_unset_bit_iff)
  next
    case False
    then have "j \<noteq> k" by blast
    with False l show ?thesis by (auto simp: used_def)
  qed
  ultimately show ?thesis by (intro exI [of _ ?m]) auto
qed

lemma used_zero [simp]: "used (replicate n 0) = {}"
proof -
  have "k div 8 < n" if "k < 8 * n" for k using that by (simp add: less_mult_imp_div_less mult.commute)
  then show ?thesis by (simp add: used_def)
qed

lemma used_below: "used m \<subseteq> {..<bm_Len m}"
  by (auto simp: used_def bm_Len_def)

lemma length_NewSlice: "length (NewSlice l) = (l + 7) div 8"
proof -
  have "l div 8 + (if l mod 8 = 0 then 0 else 1) = (l + 7) div 8" by presburger
  then show ?thesis by (simp add: NewSlice_def Let_def split: if_splits)
qed

lemma used_NewSlice [simp]: "used (NewSlice l) = {}"
  by (simp add: NewSlice_def Let_def)

text \<open>The search finds the first bit that is not set.\<close>

lemma find_free_least:
  "i + n = bm_Len m \<Longrightarrow>
     \<exists>k. find_free m i n = Done k \<and> i \<le> k \<and> k \<le> bm_Len m \<and> {i..<k} \<subseteq> used m \<and> (k < bm_Len m \<longrightarrow> k \<notin> used m)"
proof (induction m i n rule: find_free.induct)
  case (2 Data Idx n)
  then have i: "Idx < bm_Len Data" by simp
  show ?case
  proof (cases "Idx \<in> used Data")
    case True
    from 2(1) [OF bm_Get_used [OF i]] True 2(2)
    obtain k where k: "find_free Data (Suc Idx) n = Done k" "Suc Idx \<le> k" "k \<le> bm_Len Data"
      "{Suc Idx..<k} \<subseteq> used Data" "k < bm_Len Data \<longrightarrow> k \<notin> used Data" by auto
    have "{Idx..<k} \<subseteq> used Data"
    proof
      fix j assume "j \<in> {Idx..<k}"
      then have "j = Idx \<or> j \<in> {Suc Idx..<k}" by auto
      with True k(4) show "j \<in> used Data" by blast
    qed
    with k True show ?thesis by (simp add: bm_Get_used [OF i])
  qed (use i in \<open>simp add: bm_Get_used [OF i]\<close>)
qed simp

lemma find_free_full:
  "find_free m 0 (bm_Len m) = Done (bm_Len m) \<longleftrightarrow> used m = {..<bm_Len m}"
proof -
  obtain k where k: "find_free m 0 (bm_Len m) = Done k" "k \<le> bm_Len m" "{0..<k} \<subseteq> used m"
    "k < bm_Len m \<longrightarrow> k \<notin> used m" using find_free_least [of 0 "bm_Len m" m] by auto
  show ?thesis
  proof
    assume "find_free m 0 (bm_Len m) = Done (bm_Len m)"
    with k show "used m = {..<bm_Len m}" using used_below [of m] by (auto simp: lessThan_atLeast0)
  next
    assume "used m = {..<bm_Len m}"
    with k have "\<not> k < bm_Len m" by auto
    with k show "find_free m 0 (bm_Len m) = Done (bm_Len m)" by simp
  qed
qed

text \<open>What one \<open>GenerateNextID\<close> does: the least free index, or the error of a full pool.\<close>

lemma GenerateNextID_cases:
  obtains (free) k m' where "k < bm_Len (res_pool r)" "k \<notin> used (res_pool r)" "{..<k} \<subseteq> used (res_pool r)"
      "GenerateNextID (Some r) = Done ((of_nat k + res_start_idx r, None), Some (r\<lparr>res_pool := m'\<rparr>))"
      "length m' = length (res_pool r)" "used m' = insert k (used (res_pool r))"
    | (full) "used (res_pool r) = {..<bm_Len (res_pool r)}"
      "GenerateNextID (Some r) =
         Done ((0, Some (ErrorString ''resource-exhausted--no-free-id-in-the-pool'')), Some r)"
proof -
  obtain k where k: "find_free (res_pool r) 0 (bm_Len (res_pool r)) = Done k" "k \<le> bm_Len (res_pool r)"
    "{0..<k} \<subseteq> used (res_pool r)" "k < bm_Len (res_pool r) \<longrightarrow> k \<notin> used (res_pool r)"
    using find_free_least [of 0 "bm_Len (res_pool r)" "res_pool r"] by auto
  show thesis
  proof (cases "k < bm_Len (res_pool r)")
    case True
    then obtain m' where "bm_Set (res_pool r) k True = Done m'" "length m' = length (res_pool r)"
      "used m' = insert k (used (res_pool r))" using bm_Set_bits [OF True, of True] by auto
    with k True show thesis
      by (intro free [of k m']) (auto simp: GenerateNextID_def lessThan_atLeast0)
  next
    case False
    with k have "k = bm_Len (res_pool r)" by simp
    with k show thesis using find_free_full [of "res_pool r"] by (intro full) (simp_all add: GenerateNextID_def)
  qed
qed

section \<open>Pools as allocators\<close>

text \<open>
  A pool as a set of identifiers. The invariant keeps the length below \<open>2 ^ 32\<close>: at exactly that length
  \<open>uint32(Data.Len())\<close> is zero and nothing can be released.
\<close>

definition pool_ids :: "IdResource \<Rightarrow> uint32 set" where
  "pool_ids r = (\<lambda>k. of_nat k + res_start_idx r) ` {..<bm_Len (res_pool r)}"

definition pool_taken :: "IdResource \<Rightarrow> uint32 set" where
  "pool_taken r = (\<lambda>k. of_nat k + res_start_idx r) ` used (res_pool r)"

definition pool_inv :: "IdResource \<Rightarrow> bool" where
  "pool_inv r \<longleftrightarrow> bm_Len (res_pool r) < 2 ^ 32"

definition pool_take :: "IdResource \<Rightarrow> (uint32 \<times> IdResource) option" where
  "pool_take r =
     (case GenerateNextID (Some r) of
        Done ((uid, None), Some r') \<Rightarrow> Some (uid, r')
      | _ \<Rightarrow> None)"

definition pool_give :: "uint32 \<Rightarrow> IdResource \<Rightarrow> IdResource" where
  "pool_give uid r = (case ReleaseID (Some r) uid of Done (ok, Some r') \<Rightarrow> r' | _ \<Rightarrow> r)"

lemma index_inj:
  assumes "pool_inv r"
  shows "inj_on (\<lambda>k. of_nat k + res_start_idx r) {..<bm_Len (res_pool r)}"
proof (rule inj_onI)
  fix i j assume "i \<in> {..<bm_Len (res_pool r)}" "j \<in> {..<bm_Len (res_pool r)}"
    and e: "of_nat i + res_start_idx r = of_nat j + res_start_idx r"
  with assms have b: "i < 2 ^ 32" "j < 2 ^ 32" by (auto simp: pool_inv_def)
  from e have "(of_nat i :: uint32) = of_nat j" by simp
  with b show "i = j" by (simp add: word_of_nat_eq_iff take_bit_nat_eq_self)
qed

lemma pool_taken_insert:
  "used m' = insert k (used (res_pool r)) \<Longrightarrow>
     pool_taken (r\<lparr>res_pool := m'\<rparr>) = insert (of_nat k + res_start_idx r) (pool_taken r)"
  by (simp add: pool_taken_def)

lemma pool_index_free:
  assumes "pool_inv r" "k < bm_Len (res_pool r)"
  shows "of_nat k + res_start_idx r \<in> pool_taken r \<longleftrightarrow> k \<in> used (res_pool r)"
  using inj_on_image_mem_iff [OF index_inj [OF assms(1)]] assms(2) used_below by (simp add: pool_taken_def)

text \<open>Releasing clears the bit of the identifier, when it is in the pool.\<close>

lemma ReleaseID_cases:
  assumes "pool_inv r"
  obtains (inside) k m' where "k < bm_Len (res_pool r)" "uid = of_nat k + res_start_idx r"
      "ReleaseID (Some r) uid = Done (True, Some (r\<lparr>res_pool := m'\<rparr>))"
      "length m' = length (res_pool r)" "used m' = used (res_pool r) - {k}"
    | (outside) "uid \<notin> pool_ids r" "ReleaseID (Some r) uid = Done (False, Some r)"
proof -
  let ?k = "unat (uid - res_start_idx r)"
  have k: "(of_nat (bm_Len (res_pool r)) :: uint32) \<le> uid - res_start_idx r \<longleftrightarrow> bm_Len (res_pool r) \<le> ?k"
    using assms by (simp add: word_le_nat_alt unsigned_of_nat take_bit_nat_eq_self pool_inv_def)
  show thesis
  proof (cases "?k < bm_Len (res_pool r)")
    case True
    obtain m' where m': "bm_Set (res_pool r) ?k False = Done m'" "length m' = length (res_pool r)"
      "used m' = used (res_pool r) - {?k}" using bm_Set_bits [OF True, of False] by auto
    show thesis
    proof (rule inside)
      show "uid = of_nat ?k + res_start_idx r" by simp
    qed (use True k m' in \<open>auto simp: ReleaseID_def Let_def\<close>)
  next
    case False
    have "uid \<noteq> of_nat j + res_start_idx r" if "j < bm_Len (res_pool r)" for j
      using that assms False by (auto simp: unsigned_of_nat take_bit_nat_eq_self pool_inv_def)
    with False k show thesis by (intro outside) (auto simp: ReleaseID_def Let_def pool_ids_def)
  qed
qed

interpretation pool: allocator pool_take pool_give pool_ids pool_taken pool_inv
proof unfold_locales
  fix r uid r'
  assume inv: "pool_inv r" and t: "pool_take r = Some (uid, r')"
  show "uid \<in> pool_ids r \<and> uid \<notin> pool_taken r \<and> pool_taken r' = insert uid (pool_taken r) \<and>
    pool_ids r' = pool_ids r \<and> pool_inv r'"
  proof (cases r rule: GenerateNextID_cases)
    case (free k m')
    with t have r': "r' = r\<lparr>res_pool := m'\<rparr>" "uid = of_nat k + res_start_idx r" by (auto simp: pool_take_def)
    with free inv pool_index_free [OF inv free(1)] show ?thesis
      by (simp add: pool_taken_insert pool_ids_def pool_inv_def bm_Len_def)
  qed (use t in \<open>simp add: pool_take_def\<close>)
next
  fix r
  assume "pool_take r = None"
  then show "pool_ids r \<subseteq> pool_taken r"
    by (cases r rule: GenerateNextID_cases) (simp_all add: pool_take_def pool_ids_def pool_taken_def)
next
  fix r uid
  assume inv: "pool_inv r"
  show "pool_taken (pool_give uid r) = pool_taken r - {uid} \<and> pool_ids (pool_give uid r) = pool_ids r \<and>
    pool_inv (pool_give uid r)"
    using inv
  proof (cases rule: ReleaseID_cases [of r uid])
    case (inside k m')
    have "(\<lambda>k. of_nat k + res_start_idx r) ` (used (res_pool r) - {k}) = pool_taken r - {of_nat k + res_start_idx r}"
      using inj_on_image_set_diff [OF index_inj [OF inv], of "used (res_pool r)" "{k}"] used_below inside(1)
      by (auto simp: pool_taken_def)
    with inside inv show ?thesis by (simp add: pool_give_def pool_ids_def pool_inv_def bm_Len_def pool_taken_def)
  next
    case outside
    moreover have "pool_taken r \<subseteq> pool_ids r" using used_below by (auto simp: pool_taken_def pool_ids_def)
    ultimately show ?thesis using inv by (auto simp: pool_give_def)
  qed
qed

text \<open>The loop of \<open>GetResourceID\<close> is the contract's \<open>takes\<close>.\<close>

lemma generate_ids_takes:
  "case pool.takes n r of
     Some (is, r') \<Rightarrow> generate_ids n (Some r) = Done ((is, None), Some r')
   | None \<Rightarrow> \<exists>is r'. generate_ids n (Some r) =
       Done ((is, Some (ErrorString ''resource-exhausted--no-free-id-in-the-pool'')), Some r')"
proof (induction n arbitrary: r)
  case (Suc n)
  show ?case
  proof (cases r rule: GenerateNextID_cases)
    case (free k m')
    then have "pool_take r = Some (of_nat k + res_start_idx r, r\<lparr>res_pool := m'\<rparr>)" by (simp add: pool_take_def)
    with free(4) Suc [of "r\<lparr>res_pool := m'\<rparr>"] show ?thesis by (auto split: option.splits)
  next
    case full
    then have "pool_take r = None" by (simp add: pool_take_def)
    with full(2) show ?thesis by simp
  qed
qed simp

lemma generate_ids_cases:
  assumes "pool_inv r"
  obtains (given) "is" r' where "generate_ids n (Some r) = Done ((is, None), Some r')" "length is = n" "distinct is"
      "set is \<subseteq> pool_ids r - pool_taken r" "pool_taken r' = pool_taken r \<union> set is"
      "pool_ids r' = pool_ids r" "pool_inv r'"
    | (exhausted) "is" r' where "generate_ids n (Some r) =
         Done ((is, Some (ErrorString ''resource-exhausted--no-free-id-in-the-pool'')), Some r')"
      "card (pool_ids r - pool_taken r) < n"
proof (cases "pool.takes n r")
  case None
  have "finite (pool_ids r)" by (simp add: pool_ids_def)
  from pool.takes_None [OF assms None this] show thesis
    using None generate_ids_takes [of n r] exhausted by auto
next
  case (Some p)
  obtain "is" r' where p: "p = (is, r')" by (cases p)
  from pool.takes_Some [OF assms Some [unfolded p]] show thesis
    using Some p generate_ids_takes [of n r] given by auto
qed

section \<open>New pools\<close>

lemma generate_fresh:
  assumes "used (res_pool r) = {..<k}" "k + n \<le> bm_Len (res_pool r)"
  shows "\<exists>m'. generate_ids n (Some r) =
       Done ((map (\<lambda>i. of_nat i + res_start_idx r) [k..<k + n], None), Some (r\<lparr>res_pool := m'\<rparr>)) \<and>
     length m' = length (res_pool r) \<and> used m' = {..<k + n}"
  using assms
proof (induction n arbitrary: r k)
  case 0
  then show ?case by (intro exI [of _ "res_pool r"]) simp
next
  case (Suc n)
  show ?case
  proof (cases r rule: GenerateNextID_cases)
    case (free j m')
    have "j = k" using free(2,3) Suc.prems by (metis lessThan_iff lessThan_subset_iff linorder_not_le order_antisym)
    with free Suc.prems have "used m' = {..<Suc k}" "Suc k + n \<le> bm_Len m'"
      by (auto simp: lessThan_Suc bm_Len_def)
    with Suc.IH [of "r\<lparr>res_pool := m'\<rparr>" "Suc k"] obtain m'' where
      "generate_ids n (Some (r\<lparr>res_pool := m'\<rparr>)) =
         Done ((map (\<lambda>i. of_nat i + res_start_idx r) [Suc k..<Suc k + n], None), Some (r\<lparr>res_pool := m''\<rparr>))"
      "length m'' = length m'" "used m'' = {..<Suc k + n}" by auto
    with free \<open>j = k\<close> show ?thesis by (intro exI [of _ m'']) (simp add: upt_rec [of k])
  next
    case full
    with Suc.prems show ?thesis by (auto simp: lessThan_eq_iff)
  qed
qed

text \<open>Reserving an identifier takes its index, when the pool has it.\<close>

lemma reserveID_used:
  assumes "bm_Len m < 2 ^ 32"
  shows "\<exists>ok m'. reserveID m s uid = Done (ok, m') \<and> length m' = length m \<and>
     used m' = used m \<union> ({unat (uid - s)} \<inter> {..<bm_Len m})"
proof -
  have k: "(of_nat (bm_Len m) :: uint32) \<le> uid - s \<longleftrightarrow> bm_Len m \<le> unat (uid - s)"
    using assms by (simp add: word_le_nat_alt unsigned_of_nat take_bit_nat_eq_self)
  show ?thesis
  proof (cases "unat (uid - s) < bm_Len m")
    case True
    with bm_Set_bits [OF True, of True] k show ?thesis by (auto simp: reserveID_def Let_def)
  qed (use k in \<open>auto simp: reserveID_def Let_def\<close>)
qed

lemma reserve_excluded_used:
  "bm_Len m < 2 ^ 32 \<Longrightarrow>
     \<exists>m'. reserve_excluded m s e xs = Done m' \<and> length m' = length m \<and>
       used m' = used m \<union> {unat (x - s) |x. x \<in> set xs \<and> s \<le> x \<and> x \<le> e \<and> unat (x - s) < bm_Len m}"
proof (induction xs arbitrary: m)
  case (Cons x xs)
  show ?case
  proof (cases "x < s \<or> x > e")
    case True
    with Cons.IH [OF Cons.prems] show ?thesis by (auto simp: not_less)
  next
    case False
    obtain ok m1 where m1: "reserveID m s x = Done (ok, m1)" "length m1 = length m"
      "used m1 = used m \<union> ({unat (x - s)} \<inter> {..<bm_Len m})" using reserveID_used [OF Cons.prems] by blast
    then have l: "bm_Len m1 = bm_Len m" by (simp add: bm_Len_def)
    with Cons.prems Cons.IH [of m1] obtain m' where "reserve_excluded m1 s e xs = Done m'" "length m' = length m1"
      "used m' = used m1 \<union> {unat (x - s) |x. x \<in> set xs \<and> s \<le> x \<and> x \<le> e \<and> unat (x - s) < bm_Len m1}"
      by auto
    with m1 False l show ?thesis by (intro exI [of _ m']) (auto simp: not_less)
  qed
qed simp

lemma reserve_excluded_Done: "\<exists>m'. reserve_excluded m s e xs = Done m'"
proof (induction xs arbitrary: m)
  case (Cons x xs)
  have "\<exists>r. reserveID m s x = Done r"
  proof (cases "(of_nat (bm_Len m) :: uint32) \<le> x - s")
    case False
    then have "unat (x - s) < unat (of_nat (bm_Len m) :: uint32)" by (simp add: word_le_nat_alt)
    also have "\<dots> \<le> bm_Len m" by (simp add: unsigned_of_nat take_bit_nat_less_eq_self)
    finally obtain m' where "bm_Set m (unat (x - s)) True = Done m'" using bm_Set_bits by blast
    with False show ?thesis by (auto simp: reserveID_def Let_def)
  qed (auto simp: reserveID_def Let_def)
  then obtain ok m1 where "reserveID m s x = Done (ok, m1)" by auto
  with Cons.IH show ?case by simp
qed simp

lemma FormatResource_Done:
  "\<exists>r. FormatResource intf StartIDx EndIDx excluded = Done r \<and> res_start_idx r = StartIDx"
  using reserve_excluded_Done [of "NewSlice (unat EndIDx)" StartIDx EndIDx excluded]
  by (auto simp: FormatResource_def)

lemma FormatResource_new:
  "\<exists>r. FormatResource intf StartIDx EndIDx [] = Done r \<and> res_start_idx r = StartIDx \<and> pool_taken r = {}"
  by (simp add: FormatResource_def pool_taken_def)

lemma FormatResource_used:
  assumes "unat EndIDx \<le> 2 ^ 32 - 8"
  shows "\<exists>m. FormatResource intf StartIDx EndIDx excluded =
       Done \<lparr>res_pon_intf_id = intf, res_start_idx = StartIDx, res_end_idx = EndIDx, res_pool = m\<rparr> \<and>
     bm_Len m = 8 * ((unat EndIDx + 7) div 8) \<and>
     used m = {unat (x - StartIDx) |x. x \<in> set excluded \<and> StartIDx \<le> x \<and> x \<le> EndIDx \<and>
       unat (x - StartIDx) < bm_Len m}"
proof -
  have l: "bm_Len (NewSlice (unat EndIDx)) = 8 * ((unat EndIDx + 7) div 8)"
    by (simp add: bm_Len_mult length_NewSlice)
  have "unat EndIDx + 7 < 2 ^ 32" using assms by simp
  with l have "bm_Len (NewSlice (unat EndIDx)) < 2 ^ 32" by simp
  from reserve_excluded_used [OF this, of StartIDx EndIDx excluded] l show ?thesis
    by (auto simp: FormatResource_def bm_Len_mult)
qed

section \<open>Properties\<close>

text \<open>
  C29: a new pool without reserved identifiers hands out \<open>start\<close>, \<open>start + 1\<close>, ... in this order, as many as its bitmap has
  bits, and then reports that it is exhausted. The bitmap is sized by the end of the range, rounded up to whole bytes, and not by the
  number of identifiers in it: a range that does not start at 0 yields identifiers beyond its end, such
  as 128 for the range from 1 to 127.
\<close>

theorem fresh_pool_sequence:
  assumes "n \<le> 8 * ((unat EndIDx + 7) div 8)"
  shows "\<exists>r r'. FormatResource intf StartIDx EndIDx [] = Done r \<and>
     generate_ids n (Some r) = Done ((map (\<lambda>i. of_nat i + StartIDx) [0..<n], None), Some r') \<and>
     (n = 8 * ((unat EndIDx + 7) div 8) \<longrightarrow> GenerateNextID (Some r') =
        Done ((0, Some (ErrorString ''resource-exhausted--no-free-id-in-the-pool'')), Some r'))"
proof -
  let ?r = "\<lparr>res_pon_intf_id = intf, res_start_idx = StartIDx, res_end_idx = EndIDx,
    res_pool = NewSlice (unat EndIDx)\<rparr>"
  have l: "bm_Len (res_pool ?r) = 8 * ((unat EndIDx + 7) div 8)" by (simp add: bm_Len_mult length_NewSlice)
  obtain m' where m': "generate_ids n (Some ?r) =
      Done ((map (\<lambda>i. of_nat i + StartIDx) [0..<n], None), Some (?r\<lparr>res_pool := m'\<rparr>))"
    "length m' = length (NewSlice (unat EndIDx))" "used m' = {..<n}"
    using generate_fresh [of ?r 0 n] assms l by auto
  have "GenerateNextID (Some (?r\<lparr>res_pool := m'\<rparr>)) =
      Done ((0, Some (ErrorString ''resource-exhausted--no-free-id-in-the-pool'')), Some (?r\<lparr>res_pool := m'\<rparr>))"
    if "n = 8 * ((unat EndIDx + 7) div 8)"
  proof (cases "?r\<lparr>res_pool := m'\<rparr>" rule: GenerateNextID_cases)
    case (free k m'')
    with m'(2,3) l that show ?thesis by (simp add: bm_Len_def)
  qed simp
  with m'(1) show ?thesis
    by (intro exI [of _ ?r] exI [of _ "?r\<lparr>res_pool := m'\<rparr>"]) (auto simp: FormatResource_def)
qed

theorem fresh_pool_sequence_witness:
  "\<exists>r r'. FormatResource 0 1 127 [] = Done r \<and>
     generate_ids 128 (Some r) = Done ((map (\<lambda>i. of_nat i + 1) [0..<128], None), Some r') \<and>
     (127 :: uint32) < last (map (\<lambda>i. of_nat i + 1) [0..<128])"
  using fresh_pool_sequence [of 128 127 0 1] by (auto simp: last_map)

text \<open>
  Whatever number of identifiers is asked from a new pool, the request ends without a panic, and the
  identifiers of a request that succeeds are distinct and contain no reserved identifier of the range.
\<close>

lemma reserved_never_given:
  assumes "unat EndIDx \<le> 2 ^ 32 - 8" and "uid \<in> set excluded" and "StartIDx \<le> uid" and "uid \<le> EndIDx"
  shows "\<exists>r. FormatResource intf StartIDx EndIDx excluded = Done r \<and>
     (\<exists>is err r'. generate_ids n (Some r) = Done ((is, err), r') \<and> (err = None \<longrightarrow> uid \<notin> set is \<and> distinct is))"
proof -
  obtain m where m: "FormatResource intf StartIDx EndIDx excluded =
       Done \<lparr>res_pon_intf_id = intf, res_start_idx = StartIDx, res_end_idx = EndIDx, res_pool = m\<rparr>"
     "bm_Len m = 8 * ((unat EndIDx + 7) div 8)"
     "used m = {unat (x - StartIDx) |x. x \<in> set excluded \<and> StartIDx \<le> x \<and> x \<le> EndIDx \<and> unat (x - StartIDx) < bm_Len m}"
    using FormatResource_used [OF assms(1)] by blast
  let ?r = "\<lparr>res_pon_intf_id = intf, res_start_idx = StartIDx, res_end_idx = EndIDx, res_pool = m\<rparr>"
  have inv: "pool_inv ?r" using assms(1) m(2) by (simp add: pool_inv_def)
  have free: "uid \<notin> pool_ids ?r - pool_taken ?r"
  proof (cases "unat (uid - StartIDx) < bm_Len m")
    case True
    then have "unat (uid - StartIDx) \<in> used m" using m(3) assms(2-4) by auto
    from imageI [OF this, of "\<lambda>k. of_nat k + StartIDx"] show ?thesis by (simp add: pool_taken_def)
  next
    case False
    have "uid \<noteq> of_nat k + StartIDx" if "k < bm_Len m" for k
      using that inv False by (auto simp: unsigned_of_nat take_bit_nat_eq_self pool_inv_def)
    then show ?thesis by (auto simp: pool_ids_def)
  qed
  from inv show ?thesis
  proof (cases rule: generate_ids_cases [of ?r n])
    case (given "is" r')
    with free m(1) show ?thesis by (intro exI [of _ ?r]) auto
  next
    case (exhausted "is" r')
    with m(1) show ?thesis by (intro exI [of _ ?r]) auto
  qed
qed

lemma reserved_never_given_witness:
  "\<exists>r. FormatResource 0 1024 1039 [1025, 4000] = Done r \<and>
     (\<exists>is err r'. generate_ids 3 (Some r) = Done ((is, err), r') \<and> (err = None \<longrightarrow> 1025 \<notin> set is \<and> distinct is))"
  by (rule reserved_never_given) simp_all

end
