(* ===== verification/Pon_Resources.thy ===== *)
theory Pon_Resources
  imports Id_Pool Go_Strings
begin

text \<open>
  The PON resource manager of voltha-lib-go (vendored, \<open>pkg/ponresourcemanager\<close>): the ranges of a manager, the
  paths of its pools in the key-value store, and the operations that create, read, use and delete the pools
  there. The store is etcd behind \<open>db.Backend\<close>, a map from full keys to values; the parameter \<open>F\<close> says how the
  store answers its \<open>n\<close>-th operation. An operation may fail before or after it took effect. The JSON and base64
  encodings of a pool are taken to be inverse to their decodings, so the store holds the decoded object.

  \<open>SharedResourceMgrs\<close> is empty in this program (every \<open>UpdateRanges\<close> passes a nil manager), so no call is
  delegated.
\<close>

section \<open>The key-value store\<close>

text \<open>
  A value is a pool, the JSON text \<open>null\<close>, a JSON list of numbers, a technology profile, the resources of a profile
  instance, or something else, with the decoder's error.
\<close>

datatype kv_value =
    KvResource IdResource
  | KvNull
  | KvIds "uint32 list"
  | KvProfile TechProfile
  | KvResourceInstance ResourceInstance
  | KvUndecodable go_error

text \<open>The flag of a failure says whether the operation took effect.\<close>

datatype kv_answer = KvOk | KvFails go_error bool

record kv =
  kv_data :: "string \<Rightarrow> kv_value option"
  kv_ops :: nat

type_synonym 'a kvm = "kv \<Rightarrow> 'a outcome \<times> kv"

definition kret :: "'a \<Rightarrow> 'a kvm" where
  "kret x st = (Done x, st)"

definition kbind :: "'a kvm \<Rightarrow> ('a \<Rightarrow> 'b kvm) \<Rightarrow> 'b kvm" where
  "kbind m f st = (case m st of (Done x, st') \<Rightarrow> f x st' | (Crashed p, st') \<Rightarrow> (Crashed p, st'))"

definition klift :: "'a outcome \<Rightarrow> 'a kvm" where
  "klift r st = (r, st)"

definition kv_Get :: "(nat \<Rightarrow> kv_answer) \<Rightarrow> string \<Rightarrow> (kv_value option \<times> go_error option) kvm" where
  "kv_Get F key st =
     (let st' = st\<lparr>kv_ops := Suc (kv_ops st)\<rparr>
      in case F (kv_ops st) of
           KvOk \<Rightarrow> (Done (kv_data st key, None), st')
         | KvFails err _ \<Rightarrow> (Done (None, Some err), st'))"

definition kv_write :: "(nat \<Rightarrow> kv_answer) \<Rightarrow> string \<Rightarrow> kv_value option \<Rightarrow> go_error option kvm" where
  "kv_write F key v st =
     (let st' = st\<lparr>kv_ops := Suc (kv_ops st)\<rparr>; st'' = st'\<lparr>kv_data := (kv_data st)(key := v)\<rparr>
      in case F (kv_ops st) of
           KvOk \<Rightarrow> (Done None, st'')
         | KvFails err applied \<Rightarrow> (Done (Some err), if applied then st'' else st'))"

definition kv_Put :: "(nat \<Rightarrow> kv_answer) \<Rightarrow> string \<Rightarrow> kv_value \<Rightarrow> go_error option kvm" where
  "kv_Put F key v = kv_write F key (Some v)"

definition kv_Delete :: "(nat \<Rightarrow> kv_answer) \<Rightarrow> string \<Rightarrow> go_error option kvm" where
  "kv_Delete F key = kv_write F key None"

section \<open>The manager and its ranges\<close>

text \<open>The arguments of \<open>InitDefaultPONResourceRanges\<close>.\<close>

record ResourceRanges =
  rg_ONUIDStart :: uint32
  rg_ONUIDEnd :: uint32
  rg_ONUIDShared :: uint32
  rg_AllocIDStart :: uint32
  rg_AllocIDEnd :: uint32
  rg_AllocIDShared :: uint32
  rg_GEMPortIDStart :: uint32
  rg_GEMPortIDEnd :: uint32
  rg_GEMPortIDShared :: uint32
  rg_flowIDStart :: uint32
  rg_flowIDEnd :: uint32
  rg_FlowIDShared :: uint32
  rg_uniIDStart :: uint32
  rg_uniIDEnd :: uint32
  rg_PonPorts :: uint32
  rg_IntfIds :: "uint32 list"

record PONResourceManager =
  pr_Technology :: string
  pr_DeviceID :: string
  pr_PonResourceRanges :: "string \<rightharpoonup> uint32"
  pr_IntfIDs :: "uint32 list"

text \<open>\<open>SharedIdxByType\<close>, with the empty string for a key that is not in the map.\<close>

definition SharedIdxByType :: "string \<Rightarrow> string" where
  "SharedIdxByType ResourceType =
     (if ResourceType = ''ONU_ID'' then ''onu_id_shared''
      else if ResourceType = ''ALLOC_ID'' then ''alloc_id_shared''
      else if ResourceType = ''GEMPORT_ID'' then ''gemport_id_shared''
      else if ResourceType = ''FLOW_ID'' then ''flow_id_shared''
      else [])"

definition NewPONResourceManager :: "string \<Rightarrow> string \<Rightarrow> PONResourceManager" where
  "NewPONResourceManager Technology DeviceID =
     \<lparr>pr_Technology = Technology, pr_DeviceID = DeviceID, pr_PonResourceRanges = Map.empty,
      pr_IntfIDs = replicate 16 0\<rparr>"

definition UpdateRanges ::
  "string \<Rightarrow> uint32 \<Rightarrow> string \<Rightarrow> uint32 \<Rightarrow> string \<Rightarrow> uint32 \<Rightarrow> PONResourceManager \<Rightarrow> PONResourceManager" where
  "UpdateRanges StartIDx StartID EndIDx EndID SharedIDx SharedPoolID m =
     (let m = (if StartID \<noteq> 0 \<and>
                  (case pr_PonResourceRanges m StartIDx of None \<Rightarrow> True | Some old \<Rightarrow> old < StartID)
               then m\<lparr>pr_PonResourceRanges := (pr_PonResourceRanges m)(StartIDx \<mapsto> StartID)\<rparr> else m);
          m = (if EndID \<noteq> 0 \<and>
                  (case pr_PonResourceRanges m EndIDx of None \<Rightarrow> True | Some old \<Rightarrow> EndID < old)
               then m\<lparr>pr_PonResourceRanges := (pr_PonResourceRanges m)(EndIDx \<mapsto> EndID)\<rparr> else m)
      in m\<lparr>pr_PonResourceRanges := (pr_PonResourceRanges m)(SharedIDx \<mapsto> SharedPoolID)\<rparr>)"

text \<open>An empty list of interfaces is nil after decoding.\<close>

definition InitDefaultPONResourceRanges :: "ResourceRanges \<Rightarrow> PONResourceManager \<Rightarrow> PONResourceManager" where
  "InitDefaultPONResourceRanges g m =
     (let m = UpdateRanges ''onu_id_start'' (rg_ONUIDStart g) ''onu_id_end'' (rg_ONUIDEnd g)
                ''onu_id_shared'' (rg_ONUIDShared g) m;
          m = UpdateRanges ''alloc_id_start'' (rg_AllocIDStart g) ''alloc_id_end'' (rg_AllocIDEnd g)
                ''alloc_id_shared'' (rg_AllocIDShared g) m;
          m = UpdateRanges ''gemport_id_start'' (rg_GEMPortIDStart g) ''gemport_id_end'' (rg_GEMPortIDEnd g)
                ''gemport_id_shared'' (rg_GEMPortIDShared g) m;
          m = UpdateRanges ''flow_id_start'' (rg_flowIDStart g) ''flow_id_end'' (rg_flowIDEnd g)
                ''flow_id_shared'' (rg_FlowIDShared g) m;
          m = UpdateRanges ''uni_id_start'' (rg_uniIDStart g) ''uni_id_end'' (rg_uniIDEnd g) [] 0 m
      in m\<lparr>pr_IntfIDs := (if rg_IntfIds g = [] then pr_IntfIDs m @ map of_nat [0..<unat (rg_PonPorts g)]
                          else rg_IntfIds g)\<rparr>)"

section \<open>Paths\<close>

definition pool_path :: "string \<Rightarrow> string \<Rightarrow> uint32 \<Rightarrow> string" where
  "pool_path DeviceID pool IntfID =
     ''{'' @ DeviceID @ ''}/'' @ pool @ ''/{'' @ FormatUint (unat IntfID) @ ''}''"

text \<open>\<open>GetPath\<close>; a missing range entry is a nil interface, whose type assertion panics.\<close>

definition GetPath :: "PONResourceManager \<Rightarrow> uint32 \<Rightarrow> string \<Rightarrow> string outcome" where
  "GetPath m IntfID ResourceType =
     (case pr_PonResourceRanges m (SharedIdxByType ResourceType) of
        None \<Rightarrow> Crashed TypeAssertion
      | Some SharedPoolID \<Rightarrow>
          (let IntfID = (if SharedPoolID \<noteq> 0 then SharedPoolID else IntfID)
           in Done (if ResourceType = ''ONU_ID'' then pool_path (pr_DeviceID m) ''onu_id_pool'' IntfID
                    else if ResourceType = ''ALLOC_ID'' then pool_path (pr_DeviceID m) ''alloc_id_pool'' IntfID
                    else if ResourceType = ''GEMPORT_ID'' then pool_path (pr_DeviceID m) ''gemport_id_pool'' IntfID
                    else if ResourceType = ''FLOW_ID'' then pool_path (pr_DeviceID m) ''flow_id_pool'' IntfID
                    else [])))"

text \<open>The full key: \<open>makePath\<close> of \<open>db/backend.go\<close> with the prefix of the manager's backend.\<close>

definition full_key :: "PONResourceManager \<Rightarrow> string \<Rightarrow> string" where
  "full_key m path = ''service/voltha/resource_manager/{'' @ pr_Technology m @ ''}/'' @ path"

definition reserved_gems_key :: string where
  "reserved_gems_key = ''service/voltha/resource_manager/config/reserved_gemport_ids''"

section \<open>Operations on pools\<close>

definition GetResource ::
  "(nat \<Rightarrow> kv_answer) \<Rightarrow> PONResourceManager \<Rightarrow> string \<Rightarrow> (IdResource option \<times> go_error option) kvm" where
  "GetResource F m Path =
     kbind (kv_Get F (full_key m Path)) (\<lambda>(Resource, err).
     kret (case (Resource, err) of
             (_, Some e) \<Rightarrow> (None, Some e)
           | (None, None) \<Rightarrow> (None, None)
           | (Some (KvResource r), None) \<Rightarrow> (Some r, None)
           | (Some KvNull, None) \<Rightarrow> (None, Some (ErrorString ''unexpected-type-<nil>''))
           | (Some (KvProfile tp), None) \<Rightarrow> (None, Some (ErrorString ''unexpected-type-<nil>''))
           | (Some (KvResourceInstance ri), None) \<Rightarrow> (None, Some (ErrorString ''invalid character''))
           | (Some (KvIds l), None) \<Rightarrow> (None, Some (ErrorString
               ''json: cannot unmarshal array into Go value of type map[string]interface {}''))
           | (Some (KvUndecodable e), None) \<Rightarrow> (None, Some e)))"

definition UpdateResource ::
  "(nat \<Rightarrow> kv_answer) \<Rightarrow> PONResourceManager \<Rightarrow> string \<Rightarrow> IdResource option \<Rightarrow> go_error option kvm" where
  "UpdateResource F m Path Resource =
     kv_Put F (full_key m Path) (case Resource of None \<Rightarrow> KvNull | Some r \<Rightarrow> KvResource r)"

definition getReservedGemPortIdsFromKVStore :: "(nat \<Rightarrow> kv_answer) \<Rightarrow> (uint32 list \<times> bool) kvm" where
  "getReservedGemPortIdsFromKVStore F =
     kbind (kv_Get F reserved_gems_key) (\<lambda>(KvPair, err).
     kret (case (KvPair, err) of
             (_, Some e) \<Rightarrow> ([], False)
           | (Some (KvIds l), None) \<Rightarrow> (l, True)
           | (Some KvNull, None) \<Rightarrow> ([], True)
           | _ \<Rightarrow> ([], False)))"

text \<open>
  \<open>InitResourceIDPool\<close>. The error of \<open>Put\<close> is held by a variable of the inner block; what is returned after the
  block is the error of \<open>GetResource\<close>.
\<close>

definition InitResourceIDPool ::
  "(nat \<Rightarrow> kv_answer) \<Rightarrow> PONResourceManager \<Rightarrow> uint32 \<Rightarrow> string \<Rightarrow> uint32 \<Rightarrow> uint32 \<Rightarrow> go_error option kvm" where
  "InitResourceIDPool F m Intf ResourceType StartID EndID =
     kbind (klift (GetPath m Intf ResourceType)) (\<lambda>Path.
     if Path = [] then kret (Some (ErrorString (''Failed to get path for resource type '' @ ResourceType)))
     else
       kbind (GetResource F m Path) (\<lambda>(Res, err).
       if err = None \<and> Res \<noteq> None then kret None
       else
         kbind (if ResourceType = ''GEMPORT_ID'' then getReservedGemPortIdsFromKVStore F else kret ([], False))
           (\<lambda>(reserved, defined).
         kbind (klift (FormatResource Intf StartID EndID (if defined then reserved else []))) (\<lambda>FormatResult.
         kbind (kv_Put F (full_key m Path) (KvResource FormatResult)) (\<lambda>err'.
         if err' = None then kret None else kret err)))))"

definition range_of :: "PONResourceManager \<Rightarrow> string \<Rightarrow> uint32 kvm" where
  "range_of m key =
     klift (case pr_PonResourceRanges m key of None \<Rightarrow> Crashed TypeAssertion | Some v \<Rightarrow> Done v)"

text \<open>One of the four blocks of \<open>InitDeviceResourcePoolForIntf\<close>, and what follows it when it succeeds.\<close>

definition init_pool_then ::
  "(nat \<Rightarrow> kv_answer) \<Rightarrow> PONResourceManager \<Rightarrow> uint32 \<Rightarrow> string \<Rightarrow> string \<Rightarrow> string \<Rightarrow> go_error option kvm \<Rightarrow>
   go_error option kvm" where
  "init_pool_then F m intfID ResourceType StartIDx EndIDx rest =
     kbind (range_of m StartIDx) (\<lambda>StartID.
     kbind (range_of m EndIDx) (\<lambda>EndID.
     kbind (InitResourceIDPool F m intfID ResourceType StartID EndID) (\<lambda>err.
     if err \<noteq> None then kret err else rest)))"

definition InitDeviceResourcePoolForIntf ::
  "(nat \<Rightarrow> kv_answer) \<Rightarrow> PONResourceManager \<Rightarrow> uint32 \<Rightarrow> go_error option kvm" where
  "InitDeviceResourcePoolForIntf F m intfID =
     init_pool_then F m intfID ''ONU_ID'' ''onu_id_start'' ''onu_id_end''
     (init_pool_then F m intfID ''ALLOC_ID'' ''alloc_id_start'' ''alloc_id_end''
     (init_pool_then F m intfID ''GEMPORT_ID'' ''gemport_id_start'' ''gemport_id_end''
     (init_pool_then F m intfID ''FLOW_ID'' ''flow_id_start'' ''flow_id_end'' (kret None))))"

text \<open>
  \<open>GetResourceID\<close>. For ONU IDs and flow IDs the number is ignored; the resource is written back only when
  every identifier was found.
\<close>

definition GetResourceID ::
  "(nat \<Rightarrow> kv_answer) \<Rightarrow> PONResourceManager \<Rightarrow> uint32 \<Rightarrow> string \<Rightarrow> uint32 \<Rightarrow> (uint32 list \<times> go_error option) kvm" where
  "GetResourceID F m IntfID ResourceType NumIDs =
     (if NumIDs < 1 then
        kret ([], Some (ErrorString (''Invalid number of resources requested '' @ FormatUint (unat NumIDs))))
      else
        kbind (klift (GetPath m IntfID ResourceType)) (\<lambda>Path.
        if Path = [] then kret ([], Some (ErrorString (''Failed to get path for resource type '' @ ResourceType)))
        else
          kbind (GetResource F m Path) (\<lambda>(Resource, err).
          if err = None \<and> ResourceType = ''ONU_ID'' \<or> ResourceType = ''FLOW_ID'' \<or>
             err = None \<and> (ResourceType = ''GEMPORT_ID'' \<or> ResourceType = ''ALLOC_ID'')
          then
            kbind (klift (generate_ids
                (if ResourceType = ''ONU_ID'' \<or> ResourceType = ''FLOW_ID'' then 1 else unat NumIDs) Resource))
              (\<lambda>((Result, err), Resource').
            if err \<noteq> None then kret (Result, err)
            else
              kbind (UpdateResource F m Path Resource') (\<lambda>err.
              if err \<noteq> None then kret ([], Some (ErrorString (''Failed to update resource '' @ Path)))
              else kret (Result, None)))
          else kret ([], err))))"

fun release_ids :: "uint32 list \<Rightarrow> IdResource option \<Rightarrow> IdResource option outcome" where
  "release_ids [] Resource = Done Resource"
| "release_ids (Val # ReleaseContent) Resource =
     (case ReleaseID Resource Val of
        Crashed p \<Rightarrow> Crashed p
      | Done (ok, Resource') \<Rightarrow> release_ids ReleaseContent Resource')"

definition checkValidResourceType :: "string \<Rightarrow> bool" where
  "checkValidResourceType ResourceType =
     list_ex (\<lambda>v. v = ResourceType) [''ONU_ID'', ''ALLOC_ID'', ''GEMPORT_ID'', ''FLOW_ID'']"

text \<open>\<open>FreeResourceID\<close>; \<open>None\<close> is a nil slice.\<close>

definition FreeResourceID ::
  "(nat \<Rightarrow> kv_answer) \<Rightarrow> PONResourceManager \<Rightarrow> uint32 \<Rightarrow> string \<Rightarrow> uint32 list option \<Rightarrow> go_error option kvm" where
  "FreeResourceID F m IntfID ResourceType ReleaseContent =
     (if \<not> checkValidResourceType ResourceType
      then kret (Some (ErrorString (''Invalid resource type: '' @ ResourceType)))
      else
        (case ReleaseContent of
           None \<Rightarrow> kret (Some (ErrorString ''Nothing to release''))
         | Some ids \<Rightarrow>
             kbind (klift (GetPath m IntfID ResourceType)) (\<lambda>Path.
             if Path = [] then kret (Some (ErrorString (''Failed to get path for IntfId '' @
                FormatUint (unat IntfID) @ '' and ResourceType '' @ ResourceType)))
             else
               kbind (GetResource F m Path) (\<lambda>(Resource, err).
               if err \<noteq> None then kret err
               else
                 kbind (klift (release_ids ids Resource)) (\<lambda>Resource'.
                 kbind (UpdateResource F m Path Resource') (\<lambda>err.
                 if err \<noteq> None then kret (Some (ErrorString (''Free resource for '' @ Path @ '' failed'')))
                 else kret None))))))"

definition ClearResourceIDPool ::
  "(nat \<Rightarrow> kv_answer) \<Rightarrow> PONResourceManager \<Rightarrow> uint32 \<Rightarrow> string \<Rightarrow> bool kvm" where
  "ClearResourceIDPool F m contIntfID ResourceType =
     kbind (klift (GetPath m contIntfID ResourceType)) (\<lambda>Path.
     if Path = [] then kret False
     else
       kbind (kv_Delete F (full_key m Path)) (\<lambda>err.
       if err \<noteq> None then kret False else kret True))"

text \<open>One of the four loops of \<open>ClearDeviceResourcePool\<close> over the interfaces; a shared pool is cleared once.\<close>

fun clear_pools ::
  "(nat \<Rightarrow> kv_answer) \<Rightarrow> PONResourceManager \<Rightarrow> string \<Rightarrow> string \<Rightarrow> uint32 list \<Rightarrow> go_error option kvm" where
  "clear_pools F m ResourceType err [] = kret None"
| "clear_pools F m ResourceType err (Intf # rest) =
     kbind (range_of m (SharedIdxByType ResourceType)) (\<lambda>SharedPoolID.
     kbind (ClearResourceIDPool F m (if SharedPoolID \<noteq> 0 then SharedPoolID else Intf) ResourceType) (\<lambda>status.
     if \<not> status then kret (Some (ErrorString err))
     else if SharedPoolID \<noteq> 0 then kret None
     else clear_pools F m ResourceType err rest))"

definition ClearDeviceResourcePool :: "(nat \<Rightarrow> kv_answer) \<Rightarrow> PONResourceManager \<Rightarrow> go_error option kvm" where
  "ClearDeviceResourcePool F m =
     kbind (clear_pools F m ''ONU_ID'' ''Failed to clear ONU ID resource pool'' (pr_IntfIDs m)) (\<lambda>err.
     if err \<noteq> None then kret err else
     kbind (clear_pools F m ''ALLOC_ID'' ''Failed to clear ALLOC ID resource pool'' (pr_IntfIDs m)) (\<lambda>err.
     if err \<noteq> None then kret err else
     kbind (clear_pools F m ''GEMPORT_ID'' ''Failed to clear GEMPORT ID resource pool'' (pr_IntfIDs m)) (\<lambda>err.
     if err \<noteq> None then kret err else
     kbind (clear_pools F m ''FLOW_ID'' ''Failed to clear FLOW ID resource pool'' (pr_IntfIDs m)) (\<lambda>err.
     if err \<noteq> None then kret err else kret None))))"

text \<open>
  \<open>GetResourceID\<close> and \<open>FreeResourceID\<close> of the technology profile manager, which take the mutex of the type around the call.
\<close>

definition tp_GetResourceID ::
  "(nat \<Rightarrow> kv_answer) \<Rightarrow> PONResourceManager \<Rightarrow> uint32 \<Rightarrow> string \<Rightarrow> uint32 \<Rightarrow> (uint32 list \<times> go_error option) kvm" where
  "tp_GetResourceID F m intfID resourceType numIDs =
     (if resourceType \<notin> {''ALLOC_ID'', ''GEMPORT_ID'', ''ONU_ID''}
      then kret ([], Some (ErrorString (''resourceType '' @ resourceType @ '' not supported'')))
      else kbind (GetResourceID F m intfID resourceType numIDs) (\<lambda>(ids, err).
        if err \<noteq> None then kret ([], err) else kret (ids, None)))"

definition tp_FreeResourceID ::
  "(nat \<Rightarrow> kv_answer) \<Rightarrow> PONResourceManager \<Rightarrow> uint32 \<Rightarrow> string \<Rightarrow> uint32 list option \<Rightarrow> go_error option kvm" where
  "tp_FreeResourceID F m intfID resourceType ReleaseContent =
     (if resourceType \<notin> {''ALLOC_ID'', ''GEMPORT_ID'', ''ONU_ID''}
      then kret (Some (ErrorString (''resourceType '' @ resourceType @ '' not supported'')))
      else FreeResourceID F m intfID resourceType ReleaseContent)"

section \<open>Lemmas\<close>

lemmas kvm_defs = kbind_def kret_def klift_def range_of_def

definition resource_types :: "string set" where
  "resource_types = {''ONU_ID'', ''ALLOC_ID'', ''GEMPORT_ID'', ''FLOW_ID''}"

text \<open>A manager whose ranges have been initialised: \<open>GetPath\<close> cannot panic.\<close>

definition mgr_ready :: "PONResourceManager \<Rightarrow> bool" where
  "mgr_ready m \<longleftrightarrow> (\<forall>rt \<in> resource_types. pr_PonResourceRanges m (SharedIdxByType rt) \<noteq> None)"

text \<open>The key of a pool, and the identifiers taken from the pool there.\<close>

definition pool_key :: "PONResourceManager \<Rightarrow> uint32 \<Rightarrow> string \<Rightarrow> string" where
  "pool_key m i rt = (case GetPath m i rt of Done p \<Rightarrow> full_key m p | Crashed e \<Rightarrow> [])"

definition taken_at :: "kv \<Rightarrow> string \<Rightarrow> uint32 set" where
  "taken_at st k = (case kv_data st k of Some (KvResource r) \<Rightarrow> pool_taken r | _ \<Rightarrow> {})"

definition store_inv :: "kv \<Rightarrow> bool" where
  "store_inv st \<longleftrightarrow> (\<forall>k r. kv_data st k = Some (KvResource r) \<longrightarrow> pool_inv r)"

lemma GetPath_ready:
  assumes "mgr_ready m" "rt \<in> resource_types"
  shows "\<exists>p. GetPath m i rt = Done p \<and> p \<noteq> [] \<and> pool_key m i rt = full_key m p"
proof -
  from assms obtain sh where "pr_PonResourceRanges m (SharedIdxByType rt) = Some sh"
    unfolding mgr_ready_def by blast
  with assms(2) show ?thesis
    by (auto simp: GetPath_def pool_path_def pool_key_def resource_types_def Let_def)
qed

lemma kv_Get_cases:
  obtains (ok) "kv_Get F k st = (Done (kv_data st k, None), st\<lparr>kv_ops := Suc (kv_ops st)\<rparr>)"
    | (fails) e b where "F (kv_ops st) = KvFails e b"
        "kv_Get F k st = (Done (None, Some e), st\<lparr>kv_ops := Suc (kv_ops st)\<rparr>)"
  by (cases "F (kv_ops st)") (auto simp: kv_Get_def)

text \<open>A read of a pool leaves the data alone and yields a resource only from a stored pool.\<close>

lemma GetResource_result:
  "\<exists>R err. GetResource F m p st = (Done (R, err), st\<lparr>kv_ops := Suc (kv_ops st)\<rparr>) \<and>
     (\<forall>r. R = Some r \<longrightarrow> kv_data st (full_key m p) = Some (KvResource r) \<and> err = None) \<and>
     (R = None \<and> err = None \<longrightarrow> kv_data st (full_key m p) = None)"
  by (cases rule: kv_Get_cases [of F "full_key m p" st])
    (auto simp: GetResource_def kvm_defs split: option.split kv_value.split)

text \<open>A write either leaves the data alone or replaces the value at the key; without an error it replaces it.\<close>

lemma kv_write_result:
  "\<exists>err st'. kv_write F k v st = (Done err, st') \<and>
     (kv_data st' = kv_data st \<or> kv_data st' = (kv_data st)(k := v)) \<and>
     (err = None \<longrightarrow> kv_data st' = (kv_data st)(k := v))"
  by (cases "F (kv_ops st)") (auto simp: kv_write_def Let_def)

lemma UpdateResource_result:
  "\<exists>err st'. UpdateResource F m p R st = (Done err, st') \<and>
     (kv_data st' = kv_data st \<or>
      kv_data st' = (kv_data st)(full_key m p \<mapsto> (case R of None \<Rightarrow> KvNull | Some r \<Rightarrow> KvResource r))) \<and>
     (err = None \<longrightarrow>
      kv_data st' = (kv_data st)(full_key m p \<mapsto> (case R of None \<Rightarrow> KvNull | Some r \<Rightarrow> KvResource r)))"
  unfolding UpdateResource_def kv_Put_def by (rule kv_write_result)

text \<open>Data that agree with a pool replaced at a key.\<close>

lemma taken_at_update:
  "kv_data st' = (kv_data st)(k \<mapsto> KvResource r') \<Longrightarrow>
     taken_at st' k' = (if k' = k then pool_taken r' else taken_at st k')"
  "kv_data st' = kv_data st \<Longrightarrow> taken_at st' k' = taken_at st k'"
  by (simp_all add: taken_at_def)

lemma store_inv_update:
  "store_inv st \<Longrightarrow> kv_data st' = (kv_data st)(k \<mapsto> KvResource r') \<Longrightarrow> pool_inv r' \<Longrightarrow> store_inv st'"
  "store_inv st \<Longrightarrow> kv_data st' = kv_data st \<Longrightarrow> store_inv st'"
  "store_inv st \<Longrightarrow> kv_data st' = (kv_data st)(k \<mapsto> KvNull) \<Longrightarrow> store_inv st'"
  by (auto simp: store_inv_def)

text \<open>
  \<open>GetResourceID\<close> on any store: it never panics, a success takes identifiers that were free and marks exactly
  these, a failure frees nothing.
\<close>

lemma GetResourceID_step:
  assumes "mgr_ready m" "rt \<in> resource_types" "store_inv st"
  shows "\<exists>ids err st'. GetResourceID F m i rt n st = (Done (ids, err), st') \<and> store_inv st' \<and>
     (\<forall>k. taken_at st k \<subseteq> taken_at st' k) \<and>
     (\<forall>k. k \<noteq> pool_key m i rt \<longrightarrow> kv_data st' k = kv_data st k) \<and>
     (err = None \<longrightarrow> distinct ids \<and> set ids \<inter> taken_at st (pool_key m i rt) = {} \<and>
        taken_at st' (pool_key m i rt) = taken_at st (pool_key m i rt) \<union> set ids \<and>
        length ids = (if rt = ''ONU_ID'' \<or> rt = ''FLOW_ID'' then 1 else unat n))"
proof (cases "n < 1")
  case True
  with assms show ?thesis by (auto simp: GetResourceID_def kret_def)
next
  case False
  obtain p where p: "GetPath m i rt = Done p" "p \<noteq> []" "pool_key m i rt = full_key m p"
    using GetPath_ready [OF assms(1,2)] by blast
  let ?N = "if rt = ''ONU_ID'' \<or> rt = ''FLOW_ID'' then 1 else unat n"
  let ?st = "st\<lparr>kv_ops := Suc (kv_ops st)\<rparr>"
  obtain R err where R: "GetResource F m p st = (Done (R, err), ?st)"
    "\<forall>r. R = Some r \<longrightarrow> kv_data st (full_key m p) = Some (KvResource r) \<and> err = None"
    using GetResource_result [of F m p st] by auto
  have st: "store_inv ?st" "taken_at ?st = taken_at st" using assms(3) by (simp_all add: store_inv_def taken_at_def fun_eq_iff)
  show ?thesis
  proof (cases R)
    case None
    have "\<exists>e. generate_ids ?N None = Done (([], Some e), None)"
    proof -
      have "0 < unat n" using False by (simp add: word_less_nat_alt word_le_nat_alt not_less)
      then have "0 < ?N" by simp
      then show ?thesis by (cases ?N) (simp_all add: GenerateNextID_def)
    qed
    then obtain e where "generate_ids ?N None = Done (([], Some e), None)" by blast
    with None R(1) p assms(2) False st show ?thesis
      by (cases err) (auto simp: GetResourceID_def kvm_defs resource_types_def)
  next
    case (Some r)
    with R(2) have r: "kv_data st (full_key m p) = Some (KvResource r)" "err = None" by simp_all
    with assms(3) have inv: "pool_inv r" unfolding store_inv_def by blast
    from inv show ?thesis
    proof (cases rule: generate_ids_cases [of r ?N])
      case (given ids r')
      obtain err' st' where u: "UpdateResource F m p (Some r') ?st = (Done err', st')"
        "kv_data st' = kv_data st \<or> kv_data st' = (kv_data st)(full_key m p \<mapsto> KvResource r')"
        "err' = None \<longrightarrow> kv_data st' = (kv_data st)(full_key m p \<mapsto> KvResource r')"
        using UpdateResource_result [of F m p "Some r'" ?st] by auto
      have "GetResourceID F m i rt n st =
          (Done (if err' = None then (ids, None)
                 else ([], Some (ErrorString (''Failed to update resource '' @ p)))), st')"
        using False p(1,2) R(1) Some r(2) assms(2) given(1) u(1)
        by (auto simp: GetResourceID_def kvm_defs resource_types_def)
      moreover have "taken_at st k \<subseteq> taken_at st' k" for k
        using u(2) r(1) given(5) by (auto simp: taken_at_def)
      moreover have "store_inv st'"
        using u(2) store_inv_update [OF assms(3)] given(7) by blast
      moreover have "taken_at st (full_key m p) = pool_taken r" using r(1) by (simp add: taken_at_def)
      moreover have "err' = None \<Longrightarrow> taken_at st' (full_key m p) = pool_taken r'" using u(3) by (simp add: taken_at_def)
      moreover have "k \<noteq> pool_key m i rt \<Longrightarrow> kv_data st' k = kv_data st k" for k using u(2) p(3) by auto
      ultimately show ?thesis using given p(3) by auto
    next
      case (exhausted ids r')
      with False p(1,2) R(1) Some r(2) assms(2) st show ?thesis
        by (auto simp: GetResourceID_def kvm_defs resource_types_def)
    qed
  qed
qed

lemma ReleaseID_give:
  assumes "pool_inv r"
  shows "\<exists>ok. ReleaseID (Some r) uid = Done (ok, Some (pool_give uid r))"
  using assms by (cases rule: ReleaseID_cases [of r uid]) (auto simp: pool_give_def)

lemma release_ids_taken:
  assumes "pool_inv r"
  shows "\<exists>r'. release_ids ids (Some r) = Done (Some r') \<and> pool_taken r' = pool_taken r - set ids \<and>
     pool_ids r' = pool_ids r \<and> pool_inv r'"
  using assms
proof (induction ids arbitrary: r)
  case (Cons uid ids)
  note law = pool.give1_law [OF Cons.prems, of uid]
  obtain r' where "release_ids ids (Some (pool_give uid r)) = Done (Some r')"
    "pool_taken r' = pool_taken (pool_give uid r) - set ids" "pool_ids r' = pool_ids (pool_give uid r)" "pool_inv r'"
    using Cons.IH [of "pool_give uid r"] law by auto
  with law ReleaseID_give [OF Cons.prems, of uid] show ?case by auto
qed simp

lemma release_ids_nil: "release_ids ids None = Done None"
  by (induction ids) (simp_all add: ReleaseID_def)

text \<open>\<open>FreeResourceID\<close> on any store: no panic, and only the identifiers it is given can become free.\<close>

definition given_back :: "uint32 list option \<Rightarrow> uint32 set" where
  "given_back ids = (case ids of None \<Rightarrow> {} | Some l \<Rightarrow> set l)"

lemma FreeResourceID_step:
  assumes "mgr_ready m" "rt \<in> resource_types" "store_inv st"
  shows "\<exists>err st'. FreeResourceID F m i rt ids st = (Done err, st') \<and> store_inv st' \<and>
     (\<forall>k. taken_at st k - (if k = pool_key m i rt then given_back ids else {}) \<subseteq> taken_at st' k) \<and>
     (\<forall>k. k \<noteq> pool_key m i rt \<longrightarrow> kv_data st' k = kv_data st k) \<and>
     (err = None \<and> ids \<noteq> None \<longrightarrow> taken_at st' (pool_key m i rt) = taken_at st (pool_key m i rt) - given_back ids)"
proof (cases ids)
  case None
  with assms show ?thesis
    by (auto simp: FreeResourceID_def kret_def checkValidResourceType_def resource_types_def)
next
  case (Some l)
  obtain p where p: "GetPath m i rt = Done p" "p \<noteq> []" "pool_key m i rt = full_key m p"
    using GetPath_ready [OF assms(1,2)] by blast
  let ?st = "st\<lparr>kv_ops := Suc (kv_ops st)\<rparr>"
  obtain R err where R: "GetResource F m p st = (Done (R, err), ?st)"
    "\<forall>r. R = Some r \<longrightarrow> kv_data st (full_key m p) = Some (KvResource r) \<and> err = None"
    "R = None \<and> err = None \<longrightarrow> kv_data st (full_key m p) = None"
    using GetResource_result [of F m p st] by auto
  have st: "store_inv ?st" "taken_at ?st = taken_at st"
    using assms(3) by (simp_all add: store_inv_def taken_at_def fun_eq_iff)
  have valid: "checkValidResourceType rt" using assms(2) by (auto simp: checkValidResourceType_def resource_types_def)
  note run = FreeResourceID_def kvm_defs
  show ?thesis
  proof (cases err)
    case e: None
    obtain R' where R': "release_ids l R = Done R'"
      "case R' of None \<Rightarrow> taken_at st (full_key m p) = {} | Some r' \<Rightarrow>
         pool_taken r' = taken_at st (full_key m p) - set l \<and> pool_inv r'"
    proof (cases R)
      case None
      with e R(3) have "taken_at st (full_key m p) = {}" by (simp add: taken_at_def)
      with None that [of None] show thesis by (simp add: release_ids_nil)
    next
      case r: (Some r)
      with R(2) have d: "kv_data st (full_key m p) = Some (KvResource r)" by simp
      with assms(3) have "pool_inv r" unfolding store_inv_def by blast
      from release_ids_taken [OF this, of l] d r that show thesis by (auto simp: taken_at_def)
    qed
    let ?v = "case R' of None \<Rightarrow> KvNull | Some r \<Rightarrow> KvResource r"
    obtain err' st' where u: "UpdateResource F m p R' ?st = (Done err', st')"
      "kv_data st' = kv_data st \<or> kv_data st' = (kv_data st)(full_key m p \<mapsto> ?v)"
      "err' = None \<longrightarrow> kv_data st' = (kv_data st)(full_key m p \<mapsto> ?v)"
      using UpdateResource_result [of F m p R' ?st] by auto
    have run: "FreeResourceID F m i rt ids st =
        (Done (if err' = None then None else Some (ErrorString (''Free resource for '' @ p @ '' failed''))), st')"
      using Some valid p(1,2) R(1) e R'(1) u(1) by (simp add: run)
    have new: "taken_at st' = (taken_at st)(full_key m p := taken_at st (full_key m p) - set l)"
      if "kv_data st' = (kv_data st)(full_key m p \<mapsto> ?v)"
      using that R'(2) by (auto simp: taken_at_def fun_eq_iff split: option.splits)
    have "store_inv st'" using u(2) store_inv_update [OF assms(3)] R'(2) by (cases R') auto
    moreover have "taken_at st' = taken_at st \<or> taken_at st' = (taken_at st)(full_key m p := taken_at st (full_key m p) - set l)"
    proof (cases "kv_data st' = kv_data st")
      case True
      then show ?thesis by (simp add: taken_at_def fun_eq_iff)
    qed (use u(2) new in blast)
    moreover have "k \<noteq> pool_key m i rt \<Longrightarrow> kv_data st' k = kv_data st k" for k using u(2) p(3) by auto
    ultimately show ?thesis using run new u(3) Some p(3) by (auto simp: given_back_def)
  next
    case (Some e)
    with \<open>ids = Some l\<close> valid p R(1) st show ?thesis by (auto simp: run)
  qed
qed

text \<open>
  A history of requests and releases. What is held are the identifiers of successful requests; whoever releases
  identifiers no longer holds them, whatever the call returns.
\<close>

datatype pool_op =
    OpGet PONResourceManager uint32 string uint32
  | OpFree PONResourceManager uint32 string "uint32 list option"

fun op_ready :: "pool_op \<Rightarrow> bool" where
  "op_ready (OpGet m i rt n) \<longleftrightarrow> mgr_ready m \<and> rt \<in> resource_types"
| "op_ready (OpFree m i rt ids) \<longleftrightarrow> mgr_ready m \<and> rt \<in> resource_types"

fun run_pool_ops ::
  "(nat \<Rightarrow> kv_answer) \<Rightarrow> pool_op list \<Rightarrow> (string \<times> uint32) list \<Rightarrow> (string \<times> uint32) list kvm" where
  "run_pool_ops F [] held = kret held"
| "run_pool_ops F (OpGet m i rt n # ops) held =
     kbind (GetResourceID F m i rt n) (\<lambda>(ids, err).
     run_pool_ops F ops (if err = None then map (Pair (pool_key m i rt)) ids @ held else held))"
| "run_pool_ops F (OpFree m i rt ids # ops) held =
     kbind (FreeResourceID F m i rt ids) (\<lambda>err.
     run_pool_ops F ops (filter (\<lambda>(k, uid). \<not> (k = pool_key m i rt \<and> uid \<in> given_back ids)) held))"

definition held_ok :: "kv \<Rightarrow> (string \<times> uint32) list \<Rightarrow> bool" where
  "held_ok st held \<longleftrightarrow> distinct held \<and> (\<forall>(k, uid) \<in> set held. uid \<in> taken_at st k)"

lemma run_pool_ops_held:
  assumes "list_all op_ready ops" "store_inv st" "held_ok st held"
  shows "\<exists>held' st'. run_pool_ops F ops held st = (Done held', st') \<and> store_inv st' \<and> held_ok st' held'"
  using assms
proof (induction F ops held arbitrary: st rule: run_pool_ops.induct)
  case (1 F held)
  then show ?case by (simp add: kret_def)
next
  case (2 F m i rt n ops held)
  from 2(2) have "mgr_ready m" "rt \<in> resource_types" by simp_all
  from GetResourceID_step [OF this 2(3), of F i n] obtain ids err st' where
    s: "GetResourceID F m i rt n st = (Done (ids, err), st')" "store_inv st'" "\<forall>k. taken_at st k \<subseteq> taken_at st' k"
    "err = None \<longrightarrow> distinct ids \<and> set ids \<inter> taken_at st (pool_key m i rt) = {} \<and> set ids \<subseteq> taken_at st' (pool_key m i rt)"
    by (metis Un_upper2)
  let ?held = "if err = None then map (Pair (pool_key m i rt)) ids @ held else held"
  have "uid \<in> taken_at st' k" if "(k, uid) \<in> set held" for k uid
  proof -
    from that 2(4) have "uid \<in> taken_at st k" by (auto simp: held_ok_def)
    with s(3) show ?thesis by blast
  qed
  moreover have "distinct held" "(pool_key m i rt, uid) \<notin> set held" if "uid \<in> set ids" "err = None" for uid
    using that s(4) 2(4) by (auto simp: held_ok_def)
  ultimately have "held_ok st' ?held"
    using s(4) 2(4) by (auto simp: held_ok_def distinct_map inj_on_def)
  from 2(1) [OF _ s(2) this] 2(2) s(1) show ?case by (simp add: kbind_def)
next
  case (3 F m i rt ids ops held)
  from 3(2) have "mgr_ready m" "rt \<in> resource_types" by simp_all
  from FreeResourceID_step [OF this 3(3), of F i ids] obtain err st' where
    s: "FreeResourceID F m i rt ids st = (Done err, st')" "store_inv st'"
    "\<forall>k. taken_at st k - (if k = pool_key m i rt then given_back ids else {}) \<subseteq> taken_at st' k" by blast
  let ?held = "filter (\<lambda>(k, uid). \<not> (k = pool_key m i rt \<and> uid \<in> given_back ids)) held"
  have "uid \<in> taken_at st' k" if "(k, uid) \<in> set ?held" for k uid
  proof -
    from that 3(4) have "uid \<in> taken_at st k" by (auto simp: held_ok_def)
    moreover from that have "uid \<notin> (if k = pool_key m i rt then given_back ids else {})" by simp
    ultimately show ?thesis using s(3) by blast
  qed
  with 3(4) have "held_ok st' ?held" by (auto simp: held_ok_def)
  from 3(1) [OF _ s(2) this] 3(2) s(1) show ?case by (simp add: kbind_def)
qed

text \<open>
  Creating a pool. The list of reserved GEM ports is read only for the pool of GEM ports; a resource
  type without that read has its outcome spelled out by the property below.
\<close>

definition stored ::
  "(nat \<Rightarrow> kv_answer) \<Rightarrow> nat \<Rightarrow> string \<Rightarrow> kv_value \<Rightarrow> (string \<Rightarrow> kv_value option) \<Rightarrow> string \<Rightarrow> kv_value option" where
  "stored F n k v d =
     (case F n of KvOk \<Rightarrow> d(k \<mapsto> v) | KvFails err applied \<Rightarrow> if applied then d(k \<mapsto> v) else d)"

lemma init_total:
  assumes "GetPath m i rt = Done p" "p \<noteq> []"
  shows "\<exists>err st'. InitResourceIDPool F m i rt s e st = (Done err, st')"
proof -
  have put: "\<exists>err st'. kv_Put F k v st = (Done err, st')" for k v st
    using kv_write_result [of F k "Some v" st] by (auto simp: kv_Put_def)
  have gems: "\<exists>x st'. getReservedGemPortIdsFromKVStore F st = (Done x, st')" for st
    by (cases rule: kv_Get_cases [of F reserved_gems_key st]) (auto simp: getReservedGemPortIdsFromKVStore_def kvm_defs)
  obtain R err where R: "GetResource F m p st = (Done (R, err), st\<lparr>kv_ops := Suc (kv_ops st)\<rparr>)"
    using GetResource_result [of F m p st] by blast
  obtain x st1 where x: "(if rt = ''GEMPORT_ID'' then getReservedGemPortIdsFromKVStore F else kret ([], False))
      (st\<lparr>kv_ops := Suc (kv_ops st)\<rparr>) = (Done x, st1)"
    using gems [of "st\<lparr>kv_ops := Suc (kv_ops st)\<rparr>"] that by (cases "rt = ''GEMPORT_ID''") (auto simp: kret_def)
  obtain r where r: "FormatResource i s e (if snd x then fst x else []) = Done r" using FormatResource_Done by blast
  obtain err' st2 where "kv_Put F (full_key m p) (KvResource r) st1 = (Done err', st2)" using put by blast
  with R x r assms show ?thesis
    by (cases x) (auto simp: InitResourceIDPool_def kbind_def kret_def klift_def split: if_splits)
qed

text \<open>A store that holds nothing but pools under the keys of pools.\<close>

definition healthy_store :: "kv \<Rightarrow> bool" where
  "healthy_store st \<longleftrightarrow>
     (\<forall>m p. kv_data st (full_key m p) = None \<or> (\<exists>r. kv_data st (full_key m p) = Some (KvResource r)))"

lemma healthy_init:
  assumes "GetPath m i rt = Done p" "p \<noteq> []" "\<forall>n. F n = KvOk" "healthy_store st"
  shows "\<exists>st' r. InitResourceIDPool F m i rt s e st = (Done None, st') \<and> healthy_store st' \<and>
     kv_data st' = (kv_data st)(full_key m p \<mapsto> KvResource r) \<and>
     (rt \<noteq> ''GEMPORT_ID'' \<and> kv_data st (full_key m p) = None \<longrightarrow> FormatResource i s e [] = Done r)"
proof (cases "kv_data st (full_key m p)")
  case None
  obtain x st1 where x: "(if rt = ''GEMPORT_ID'' then getReservedGemPortIdsFromKVStore F else kret ([], False))
      (st\<lparr>kv_ops := Suc (kv_ops st)\<rparr>) = (Done x, st1)" "kv_data st1 = kv_data st"
    "rt \<noteq> ''GEMPORT_ID'' \<longrightarrow> \<not> snd x"
    using assms(3) that by (cases "rt = ''GEMPORT_ID''") (auto simp: getReservedGemPortIdsFromKVStore_def kvm_defs kv_Get_def)
  obtain r where r: "FormatResource i s e (if snd x then fst x else []) = Done r" using FormatResource_Done by blast
  have g: "GetResource F m p st = (Done (None, None), st\<lparr>kv_ops := Suc (kv_ops st)\<rparr>)"
    using None assms(3) by (simp add: GetResource_def kvm_defs kv_Get_def)
  let ?st = "st1\<lparr>kv_ops := Suc (kv_ops st1), kv_data := (kv_data st)(full_key m p \<mapsto> KvResource r)\<rparr>"
  from x r g assms(1-3) have "InitResourceIDPool F m i rt s e st = (Done None, ?st)"
    by (cases x) (auto simp: InitResourceIDPool_def kbind_def kret_def klift_def kv_Put_def kv_write_def Let_def split: if_splits)
  with assms(4) x(3) r show ?thesis by (intro exI [of _ ?st] exI [of _ r]) (auto simp: healthy_store_def)
next
  case (Some v)
  then obtain r where "kv_data st (full_key m p) = Some (KvResource r)"
    using assms(4) unfolding healthy_store_def by (metis option.distinct(1))
  with assms show ?thesis
    by (auto simp: InitResourceIDPool_def GetResource_def kvm_defs kv_Get_def healthy_store_def fun_upd_idem intro!: exI [of _ r])
qed

lemma init_pool_then_healthy:
  assumes "mgr_ready m" "rt \<in> resource_types" "\<forall>n. F n = KvOk" "healthy_store st"
  shows "\<exists>st'. healthy_store st' \<and> (\<forall>k. k \<noteq> pool_key m i rt \<longrightarrow> kv_data st' k = kv_data st k) \<and>
     init_pool_then F m i rt sk ek rest st =
       (case (pr_PonResourceRanges m sk, pr_PonResourceRanges m ek) of
          (Some s, Some e) \<Rightarrow> rest st'
        | _ \<Rightarrow> (Crashed TypeAssertion, st)) \<and>
     (\<forall>s e. pr_PonResourceRanges m sk = Some s \<and> pr_PonResourceRanges m ek = Some e \<and>
        rt \<noteq> ''GEMPORT_ID'' \<and> kv_data st (pool_key m i rt) = None \<longrightarrow>
        (\<exists>r. FormatResource i s e [] = Done r \<and> kv_data st' (pool_key m i rt) = Some (KvResource r)))"
proof -
  obtain p where p: "GetPath m i rt = Done p" "p \<noteq> []" "pool_key m i rt = full_key m p"
    using GetPath_ready [OF assms(1,2)] by blast
  show ?thesis
  proof (cases "pr_PonResourceRanges m sk = None \<or> pr_PonResourceRanges m ek = None")
    case True
    with assms(4) show ?thesis by (intro exI [of _ st]) (auto simp: init_pool_then_def kvm_defs split: option.split)
  next
    case False
    then obtain s e where se: "pr_PonResourceRanges m sk = Some s" "pr_PonResourceRanges m ek = Some e" by auto
    obtain st' r where "InitResourceIDPool F m i rt s e st = (Done None, st')" "healthy_store st'"
     "kv_data st' = (kv_data st)(full_key m p \<mapsto> KvResource r)"
     "rt \<noteq> ''GEMPORT_ID'' \<and> kv_data st (full_key m p) = None \<longrightarrow> FormatResource i s e [] = Done r"
      using healthy_init [OF p(1,2) assms(3,4), of s e] by blast
    with se p(3) show ?thesis by (intro exI [of _ st']) (auto simp: init_pool_then_def kvm_defs)
  qed
qed

text \<open>A start or end of 0 is not recorded.\<close>

definition nonzero :: "uint32 \<Rightarrow> uint32 option" where
  "nonzero v = (if v = 0 then None else Some v)"

text \<open>
  A part of \<open>InitDeviceResourcePoolForIntf\<close> that succeeds when \<open>ok\<close> holds, panics otherwise, and touches the keys \<open>ks\<close> only.
\<close>

definition creates :: "go_error option kvm \<Rightarrow> bool \<Rightarrow> string set \<Rightarrow> bool" where
  "creates rest ok ks \<longleftrightarrow> (\<forall>st. healthy_store st \<longrightarrow> (\<exists>st'. healthy_store st' \<and>
     (\<forall>k. k \<notin> ks \<longrightarrow> kv_data st' k = kv_data st k) \<and>
     rest st = (if ok then (Done None, st') else (Crashed TypeAssertion, st'))))"

lemma creates_init:
  assumes "mgr_ready m" "rt \<in> resource_types" "\<forall>n. F n = KvOk"
    and "pr_PonResourceRanges m sk = nonzero sv" "pr_PonResourceRanges m ek = nonzero ev"
    and "creates rest ok ks"
  shows "creates (init_pool_then F m i rt sk ek rest) (sv \<noteq> 0 \<and> ev \<noteq> 0 \<and> ok) (insert (pool_key m i rt) ks)"
  unfolding creates_def
proof (intro allI impI)
  fix st
  assume st: "healthy_store st"
  obtain st' where st': "healthy_store st'" "\<forall>k. k \<noteq> pool_key m i rt \<longrightarrow> kv_data st' k = kv_data st k"
    "init_pool_then F m i rt sk ek rest st =
     (case (nonzero sv, nonzero ev) of (Some s, Some e) \<Rightarrow> rest st' | _ \<Rightarrow> (Crashed TypeAssertion, st))"
    using init_pool_then_healthy [OF assms(1-3) st, of i sk ek rest] assms(4,5) by auto
  obtain st'' where st'': "healthy_store st''" "\<forall>k. k \<notin> ks \<longrightarrow> kv_data st'' k = kv_data st' k"
    "rest st' = (if ok then (Done None, st'') else (Crashed TypeAssertion, st''))"
    using assms(6) st'(1) unfolding creates_def by blast
  show "\<exists>st''. healthy_store st'' \<and> (\<forall>k. k \<notin> insert (pool_key m i rt) ks \<longrightarrow> kv_data st'' k = kv_data st k) \<and>
    init_pool_then F m i rt sk ek rest st =
      (if sv \<noteq> 0 \<and> ev \<noteq> 0 \<and> ok then (Done None, st'') else (Crashed TypeAssertion, st''))"
  proof (cases "sv \<noteq> 0 \<and> ev \<noteq> 0")
    case True
    with st' st'' show ?thesis by (intro exI [of _ st'']) (auto simp: nonzero_def)
  next
    case False
    with st st'(3) show ?thesis by (intro exI [of _ st]) (auto simp: nonzero_def)
  qed
qed

text \<open>The ranges of a new manager.\<close>

definition new_manager :: "string \<Rightarrow> string \<Rightarrow> ResourceRanges \<Rightarrow> PONResourceManager" where
  "new_manager t d g = InitDefaultPONResourceRanges g (NewPONResourceManager t d)"

lemma UpdateRanges_new:
  assumes "pr_PonResourceRanges m sk = None" "pr_PonResourceRanges m ek = None" "sk \<noteq> ek"
  shows "pr_PonResourceRanges (UpdateRanges sk s ek e shk sh m) =
     ((pr_PonResourceRanges m)(sk := nonzero s, ek := nonzero e))(shk \<mapsto> sh)"
  using assms by (auto simp: UpdateRanges_def Let_def nonzero_def fun_eq_iff)

lemma UpdateRanges_fixed [simp]:
  "pr_Technology (UpdateRanges sk s ek e shk sh m) = pr_Technology m"
  "pr_DeviceID (UpdateRanges sk s ek e shk sh m) = pr_DeviceID m"
  "pr_IntfIDs (UpdateRanges sk s ek e shk sh m) = pr_IntfIDs m"
  by (simp_all add: UpdateRanges_def Let_def)

lemma new_manager_ranges:
  "pr_PonResourceRanges (new_manager t d g) =
     [''onu_id_shared'' \<mapsto> rg_ONUIDShared g, ''alloc_id_shared'' \<mapsto> rg_AllocIDShared g,
      ''gemport_id_shared'' \<mapsto> rg_GEMPortIDShared g, ''flow_id_shared'' \<mapsto> rg_FlowIDShared g, [] \<mapsto> 0]
     (''onu_id_start'' := nonzero (rg_ONUIDStart g), ''onu_id_end'' := nonzero (rg_ONUIDEnd g),
      ''alloc_id_start'' := nonzero (rg_AllocIDStart g), ''alloc_id_end'' := nonzero (rg_AllocIDEnd g),
      ''gemport_id_start'' := nonzero (rg_GEMPortIDStart g), ''gemport_id_end'' := nonzero (rg_GEMPortIDEnd g),
      ''flow_id_start'' := nonzero (rg_flowIDStart g), ''flow_id_end'' := nonzero (rg_flowIDEnd g),
      ''uni_id_start'' := nonzero (rg_uniIDStart g), ''uni_id_end'' := nonzero (rg_uniIDEnd g))"
  by (rule ext) (simp add: new_manager_def InitDefaultPONResourceRanges_def NewPONResourceManager_def Let_def UpdateRanges_new)

lemma new_manager_fields [simp]:
  "pr_Technology (new_manager t d g) = t" "pr_DeviceID (new_manager t d g) = d"
  by (simp_all add: new_manager_def InitDefaultPONResourceRanges_def NewPONResourceManager_def Let_def)

lemma new_manager_ready: "mgr_ready (new_manager t d g)"
  by (simp add: mgr_ready_def new_manager_ranges resource_types_def SharedIdxByType_def)

text \<open>On a healthy store the pools of a new manager are created unless a start or an end is missing.\<close>

definition ranges_complete :: "ResourceRanges \<Rightarrow> bool" where
  "ranges_complete g \<longleftrightarrow>
     rg_ONUIDStart g \<noteq> 0 \<and> rg_ONUIDEnd g \<noteq> 0 \<and> rg_AllocIDStart g \<noteq> 0 \<and> rg_AllocIDEnd g \<noteq> 0 \<and>
     rg_GEMPortIDStart g \<noteq> 0 \<and> rg_GEMPortIDEnd g \<noteq> 0 \<and> rg_flowIDStart g \<noteq> 0 \<and> rg_flowIDEnd g \<noteq> 0"

lemma creates_others:
  assumes "\<forall>n. F n = KvOk"
  shows "creates (init_pool_then F (new_manager t d g) i ''ALLOC_ID'' ''alloc_id_start'' ''alloc_id_end''
      (init_pool_then F (new_manager t d g) i ''GEMPORT_ID'' ''gemport_id_start'' ''gemport_id_end''
      (init_pool_then F (new_manager t d g) i ''FLOW_ID'' ''flow_id_start'' ''flow_id_end'' (kret None))))
    (rg_AllocIDStart g \<noteq> 0 \<and> rg_AllocIDEnd g \<noteq> 0 \<and> rg_GEMPortIDStart g \<noteq> 0 \<and> rg_GEMPortIDEnd g \<noteq> 0 \<and>
     rg_flowIDStart g \<noteq> 0 \<and> rg_flowIDEnd g \<noteq> 0 \<and> True)
    (pool_key (new_manager t d g) i ` {''ALLOC_ID'', ''GEMPORT_ID'', ''FLOW_ID''})"
proof -
  let ?m = "new_manager t d g"
  note r = new_manager_ranges resource_types_def
  have none: "creates (kret None) True {}" by (auto simp: creates_def kret_def)
  have flow: "creates (init_pool_then F ?m i ''FLOW_ID'' ''flow_id_start'' ''flow_id_end'' (kret None))
      (rg_flowIDStart g \<noteq> 0 \<and> rg_flowIDEnd g \<noteq> 0 \<and> True) {pool_key ?m i ''FLOW_ID''}"
    by (rule creates_init [OF new_manager_ready _ assms _ _ none]) (simp_all add: r)
  have gems: "creates (init_pool_then F ?m i ''GEMPORT_ID'' ''gemport_id_start'' ''gemport_id_end''
      (init_pool_then F ?m i ''FLOW_ID'' ''flow_id_start'' ''flow_id_end'' (kret None)))
      (rg_GEMPortIDStart g \<noteq> 0 \<and> rg_GEMPortIDEnd g \<noteq> 0 \<and> rg_flowIDStart g \<noteq> 0 \<and> rg_flowIDEnd g \<noteq> 0 \<and> True)
      {pool_key ?m i ''GEMPORT_ID'', pool_key ?m i ''FLOW_ID''}"
    by (rule creates_init [OF new_manager_ready _ assms _ _ flow]) (simp_all add: r)
  from creates_init [OF new_manager_ready _ assms _ _ gems, where rt = "''ALLOC_ID''" and sk = "''alloc_id_start''"
      and sv = "rg_AllocIDStart g" and ek = "''alloc_id_end''" and ev = "rg_AllocIDEnd g"]
  show ?thesis by (simp add: r)
qed

text \<open>The keys of the pools of one technology tell the type and the interface apart.\<close>

definition pool_name :: "string \<Rightarrow> string" where
  "pool_name rt = (if rt = ''ONU_ID'' then ''onu_id_pool'' else if rt = ''ALLOC_ID'' then ''alloc_id_pool''
     else if rt = ''GEMPORT_ID'' then ''gemport_id_pool'' else ''flow_id_pool'')"

definition pool_index :: "PONResourceManager \<Rightarrow> uint32 \<Rightarrow> string \<Rightarrow> uint32" where
  "pool_index m i rt = (case pr_PonResourceRanges m (SharedIdxByType rt) of
     Some sh \<Rightarrow> if sh \<noteq> 0 then sh else i | None \<Rightarrow> i)"

lemma pool_key_string:
  assumes "mgr_ready m" "rt \<in> resource_types"
  shows "pool_key m i rt = ''service/voltha/resource_manager/{'' @ pr_Technology m @ ''}/{'' @ pr_DeviceID m @ ''}/'' @
     pool_name rt @ ''/{'' @ FormatUint (unat (pool_index m i rt)) @ ''}''"
proof -
  from assms obtain sh where "pr_PonResourceRanges m (SharedIdxByType rt) = Some sh" unfolding mgr_ready_def by blast
  with assms(2) show ?thesis
    by (auto simp: pool_key_def GetPath_def full_key_def pool_path_def pool_name_def pool_index_def resource_types_def Let_def)
qed

lemma pool_key_inj:
  assumes "mgr_ready m" "mgr_ready m'" "rt \<in> resource_types" "rt' \<in> resource_types"
    and "pr_Technology m = pr_Technology m'" "pr_DeviceID m = pr_DeviceID m'"
    and "pool_key m i rt = pool_key m' i' rt'"
  shows "rt = rt' \<and> pool_index m i rt = pool_index m' i' rt'"
proof -
  have e: "pool_name rt @ ''/{'' @ FormatUint (unat (pool_index m i rt)) @ ''}'' =
      pool_name rt' @ ''/{'' @ FormatUint (unat (pool_index m' i' rt')) @ ''}''"
    using assms by (simp add: pool_key_string)
  then have "rt = rt'" using assms(3,4) by (auto simp: pool_name_def resource_types_def)
  with e show ?thesis by (simp add: word_unat_eq_iff)
qed

lemma init_device_pools:
  assumes "\<forall>n. F n = KvOk" "healthy_store st"
  shows "\<exists>st'. healthy_store st' \<and>
     (\<forall>k. k \<notin> pool_key (new_manager t d g) i ` resource_types \<longrightarrow> kv_data st' k = kv_data st k) \<and>
     InitDeviceResourcePoolForIntf F (new_manager t d g) i st =
       (if ranges_complete g then (Done None, st') else (Crashed TypeAssertion, st')) \<and>
     (ranges_complete g \<and> kv_data st (pool_key (new_manager t d g) i ''ONU_ID'') = None \<longrightarrow>
        (\<exists>r. FormatResource i (rg_ONUIDStart g) (rg_ONUIDEnd g) [] = Done r \<and>
           kv_data st' (pool_key (new_manager t d g) i ''ONU_ID'') = Some (KvResource r)))"
proof -
  let ?m = "new_manager t d g" and ?rest = "init_pool_then F (new_manager t d g) i ''ALLOC_ID'' ''alloc_id_start'' ''alloc_id_end''
      (init_pool_then F (new_manager t d g) i ''GEMPORT_ID'' ''gemport_id_start'' ''gemport_id_end''
      (init_pool_then F (new_manager t d g) i ''FLOW_ID'' ''flow_id_start'' ''flow_id_end'' (kret None)))"
  have onu: "''ONU_ID'' \<in> resource_types" by (simp add: resource_types_def)
  have r: "pr_PonResourceRanges ?m ''onu_id_start'' = nonzero (rg_ONUIDStart g)"
    "pr_PonResourceRanges ?m ''onu_id_end'' = nonzero (rg_ONUIDEnd g)" by (simp_all add: new_manager_ranges)
  obtain st1 where st1: "healthy_store st1" "\<forall>k. k \<noteq> pool_key ?m i ''ONU_ID'' \<longrightarrow> kv_data st1 k = kv_data st k"
    "InitDeviceResourcePoolForIntf F ?m i st =
       (case (nonzero (rg_ONUIDStart g), nonzero (rg_ONUIDEnd g)) of
          (Some s, Some e) \<Rightarrow> ?rest st1 | _ \<Rightarrow> (Crashed TypeAssertion, st))"
    "rg_ONUIDStart g \<noteq> 0 \<and> rg_ONUIDEnd g \<noteq> 0 \<and> kv_data st (pool_key ?m i ''ONU_ID'') = None \<longrightarrow>
        (\<exists>r. FormatResource i (rg_ONUIDStart g) (rg_ONUIDEnd g) [] = Done r \<and> kv_data st1 (pool_key ?m i ''ONU_ID'') = Some (KvResource r))"
    using init_pool_then_healthy [OF new_manager_ready onu assms, of t d g i "''onu_id_start''" "''onu_id_end''" ?rest]
    unfolding InitDeviceResourcePoolForIntf_def r by (auto simp: nonzero_def)
  obtain st2 where st2: "healthy_store st2"
    "\<forall>k. k \<notin> pool_key ?m i ` {''ALLOC_ID'', ''GEMPORT_ID'', ''FLOW_ID''} \<longrightarrow> kv_data st2 k = kv_data st1 k"
    "?rest st1 = (if rg_AllocIDStart g \<noteq> 0 \<and> rg_AllocIDEnd g \<noteq> 0 \<and> rg_GEMPortIDStart g \<noteq> 0 \<and> rg_GEMPortIDEnd g \<noteq> 0 \<and>
       rg_flowIDStart g \<noteq> 0 \<and> rg_flowIDEnd g \<noteq> 0 \<and> True then (Done None, st2) else (Crashed TypeAssertion, st2))"
    using creates_others [OF assms(1), of t d g i] st1(1) unfolding creates_def by blast
  have "pool_key ?m i ''ONU_ID'' \<noteq> pool_key ?m i rt" if "rt \<in> {''ALLOC_ID'', ''GEMPORT_ID'', ''FLOW_ID''}" for rt
    using pool_key_inj [OF new_manager_ready new_manager_ready onu, of rt t d g t d g i i] that
    by (auto simp: resource_types_def)
  then have k: "kv_data st2 (pool_key ?m i ''ONU_ID'') = kv_data st1 (pool_key ?m i ''ONU_ID'')"
    using st2(2) by blast
  show ?thesis
  proof (cases "rg_ONUIDStart g \<noteq> 0 \<and> rg_ONUIDEnd g \<noteq> 0")
    case True
    with st1 st2 k show ?thesis
      by (intro exI [of _ st2]) (auto simp: nonzero_def ranges_complete_def resource_types_def)
  next
    case False
    with st1(3) assms(2) show ?thesis by (intro exI [of _ st]) (auto simp: nonzero_def ranges_complete_def)
  qed
qed

text \<open>
  The two halves of a request: the read of the pool, and the search and the write. The mutex around a request belongs to one
  manager.
\<close>

definition read_pool ::
  "(nat \<Rightarrow> kv_answer) \<Rightarrow> PONResourceManager \<Rightarrow> uint32 \<Rightarrow> string \<Rightarrow> (string \<times> IdResource option \<times> go_error option) kvm" where
  "read_pool F m IntfID ResourceType =
     kbind (klift (GetPath m IntfID ResourceType)) (\<lambda>Path. kbind (GetResource F m Path) (\<lambda>r. kret (Path, r)))"

definition take_ids ::
  "(nat \<Rightarrow> kv_answer) \<Rightarrow> PONResourceManager \<Rightarrow> string \<Rightarrow> uint32 \<Rightarrow> string \<times> IdResource option \<times> go_error option \<Rightarrow>
   (uint32 list \<times> go_error option) kvm" where
  "take_ids F m ResourceType NumIDs = (\<lambda>(Path, Resource, err).
     if err = None \<and> ResourceType = ''ONU_ID'' \<or> ResourceType = ''FLOW_ID'' \<or>
        err = None \<and> (ResourceType = ''GEMPORT_ID'' \<or> ResourceType = ''ALLOC_ID'')
     then
       kbind (klift (generate_ids
           (if ResourceType = ''ONU_ID'' \<or> ResourceType = ''FLOW_ID'' then 1 else unat NumIDs) Resource))
         (\<lambda>((Result, err), Resource').
       if err \<noteq> None then kret (Result, err)
       else
         kbind (UpdateResource F m Path Resource') (\<lambda>err.
         if err \<noteq> None then kret ([], Some (ErrorString (''Failed to update resource '' @ Path)))
         else kret (Result, None)))
     else kret ([], err))"

lemma GetResourceID_halves:
  assumes "mgr_ready m" "rt \<in> resource_types" "1 \<le> n"
  shows "GetResourceID F m i rt n = kbind (read_pool F m i rt) (take_ids F m rt n)"
proof (rule ext)
  fix st
  obtain p where p: "GetPath m i rt = Done p" "p \<noteq> []" using GetPath_ready [OF assms(1,2)] by blast
  obtain R err where R: "GetResource F m p st = (Done (R, err), st\<lparr>kv_ops := Suc (kv_ops st)\<rparr>)"
    using GetResource_result [of F m p st] by blast
  have "\<not> n < 1" using assms(3) by (simp only: not_less)
  with p R show "GetResourceID F m i rt n st = kbind (read_pool F m i rt) (take_ids F m rt n) st"
    by (simp add: GetResourceID_def read_pool_def take_ids_def kvm_defs)
qed

text \<open>A manager whose pool of alloc IDs is shared, and a store with that pool, for the evaluations.\<close>

definition sample_ranges :: ResourceRanges where
  "sample_ranges =
     \<lparr>rg_ONUIDStart = 1, rg_ONUIDEnd = 127, rg_ONUIDShared = 0,
      rg_AllocIDStart = 1024, rg_AllocIDEnd = 1039, rg_AllocIDShared = 1,
      rg_GEMPortIDStart = 1024, rg_GEMPortIDEnd = 65535, rg_GEMPortIDShared = 0,
      rg_flowIDStart = 1, rg_flowIDEnd = 2, rg_FlowIDShared = 0,
      rg_uniIDStart = 0, rg_uniIDEnd = 1, rg_PonPorts = 2, rg_IntfIds = [0, 1]\<rparr>"

definition sample_prm :: PONResourceManager where
  "sample_prm = new_manager ''XGS-PON'' ''ABCD'' sample_ranges"

definition sample_pool :: IdResource where
  "sample_pool = \<lparr>res_pon_intf_id = 0, res_start_idx = 1024, res_end_idx = 16, res_pool = [0x07, 0]\<rparr>"

definition sample_kv :: kv where
  "sample_kv = \<lparr>kv_data = [pool_key sample_prm 0 ''ALLOC_ID'' \<mapsto> KvResource sample_pool], kv_ops = 0\<rparr>"

lemma sample_facts:
  "mgr_ready sample_prm" "store_inv sample_kv" "''ALLOC_ID'' \<in> resource_types" "''ONU_ID'' \<in> resource_types"
  "kv_data sample_kv (pool_key sample_prm 0 ''ALLOC_ID'') = Some (KvResource sample_pool)"
  by (simp_all add: sample_prm_def new_manager_ready store_inv_def sample_kv_def sample_pool_def pool_inv_def bm_Len_def
      resource_types_def)

section \<open>Properties\<close>

text \<open>
  C19: over any history of requests and releases, by any managers and on a store that may fail any operation before
  or after it took effect, no call panics and no identifier of a pool is held twice: what a successful request returns
  is held by nobody else.
\<close>

theorem no_double_allocation:
  assumes "list_all op_ready ops" and "store_inv st"
  shows "\<exists>held st'. run_pool_ops F ops [] st = (Done held, st') \<and> distinct held"
  using run_pool_ops_held [OF assms, of "[]" F] by (auto simp: held_ok_def)

theorem no_double_allocation_witness:
  "\<exists>held st'. run_pool_ops (\<lambda>n. if n = 3 then KvFails (ErrorString ''timeout'') True else KvOk)
     [OpGet sample_prm 0 ''ALLOC_ID'' 2, OpGet sample_prm 1 ''ALLOC_ID'' 1,
      OpFree sample_prm 0 ''ALLOC_ID'' (Some [1027]), OpGet sample_prm 1 ''ALLOC_ID'' 3] [] sample_kv = (Done held, st') \<and>
     distinct held"
  by (rule no_double_allocation) (simp_all add: sample_facts)

text \<open>
  C31: the outcome of creating a pool (of a type other than GEM ports) for every answer of the store. A pool that is read is kept.
  When there is none the function reports success whether or not the new pool was written: the
  error of the write is dropped. When the read fails a pool that was there is overwritten by a new one, which forgets
  what was handed out, and with a working write this is reported as success too.
\<close>

theorem init_pool_outcome:
  assumes "GetPath m i rt = Done p" and "p \<noteq> []" and "rt \<noteq> ''GEMPORT_ID''"
    and "kv_data st (full_key m p) = None \<or> (\<exists>r0. kv_data st (full_key m p) = Some (KvResource r0))"
  shows "\<exists>r st'. FormatResource i s e [] = Done r \<and> pool_taken r = {} \<and>
     (let n = kv_ops st; new = stored F (Suc n) (full_key m p) (KvResource r) (kv_data st)
      in case F n of
           KvOk \<Rightarrow> InitResourceIDPool F m i rt s e st = (Done None, st') \<and>
             kv_data st' = (if kv_data st (full_key m p) = None then new else kv_data st)
         | KvFails err applied \<Rightarrow>
             InitResourceIDPool F m i rt s e st = (Done (if F (Suc n) = KvOk then None else Some err), st') \<and>
             kv_data st' = new)"
proof -
  obtain r where r: "FormatResource i s e [] = Done r" "pool_taken r = {}" using FormatResource_new by blast
  note run = InitResourceIDPool_def GetResource_def kvm_defs kv_Get_def kv_Put_def kv_write_def stored_def Let_def
  show ?thesis
  proof (cases "F (kv_ops st)")
    case KvOk
    with assms r show ?thesis
      by (intro exI [of _ r] exI [of _ "snd (InitResourceIDPool F m i rt s e st)"])
        (auto simp: run split: kv_answer.split)
  next
    case (KvFails err applied)
    with assms r show ?thesis
      by (intro exI [of _ r] exI [of _ "snd (InitResourceIDPool F m i rt s e st)"])
        (auto simp: run split: kv_answer.split)
  qed
qed

theorem init_pool_outcome_witness:
  "\<exists>st'. InitResourceIDPool (\<lambda>n. if n = 1 then KvFails (ErrorString ''timeout'') False else KvOk) sample_prm 0 ''ONU_ID'' 1 127
       \<lparr>kv_data = Map.empty, kv_ops = 0\<rparr> = (Done None, st') \<and> kv_data st' = Map.empty"
proof -
  obtain p where "GetPath sample_prm 0 ''ONU_ID'' = Done p" "p \<noteq> []"
    using GetPath_ready [OF sample_facts(1,4)] by blast
  from init_pool_outcome [OF this, of "\<lparr>kv_data = Map.empty, kv_ops = 0\<rparr>" 1 127
      "\<lambda>n. if n = 1 then KvFails (ErrorString ''timeout'') False else KvOk"]
  show ?thesis by (auto simp: Let_def stored_def)
qed

text \<open>
  C30: releasing what a request has just returned undoes it: when both calls report success, every pool of the store has the same
  identifiers taken as before.
\<close>

theorem get_free_roundtrip:
  assumes "mgr_ready m" and "rt \<in> resource_types" and "store_inv st"
    and "GetResourceID F m i rt n st = (Done (ids, None), st1)"
    and "FreeResourceID F m i rt (Some ids) st1 = (Done None, st2)"
  shows "taken_at st2 k = taken_at st k"
proof -
  have g: "store_inv st1" "\<forall>k. k \<noteq> pool_key m i rt \<longrightarrow> kv_data st1 k = kv_data st k"
    "set ids \<inter> taken_at st (pool_key m i rt) = {}" "taken_at st1 (pool_key m i rt) = taken_at st (pool_key m i rt) \<union> set ids"
    using GetResourceID_step [OF assms(1-3), of F i n] assms(4) by auto
  have f: "\<forall>k. k \<noteq> pool_key m i rt \<longrightarrow> kv_data st2 k = kv_data st1 k"
    "taken_at st2 (pool_key m i rt) = taken_at st1 (pool_key m i rt) - set ids"
    using FreeResourceID_step [OF assms(1,2) g(1), of F i "Some ids"] assms(5) by (auto simp: given_back_def)
  show ?thesis
  proof (cases "k = pool_key m i rt")
    case True
    with g f show ?thesis by auto
  next
    case False
    with g(2) f(1) show ?thesis by (simp add: taken_at_def)
  qed
qed

theorem get_free_roundtrip_witness:
  "\<exists>ids st1 st2. GetResourceID (\<lambda>n. KvOk) sample_prm 0 ''ALLOC_ID'' 2 sample_kv = (Done (ids, None), st1) \<and> ids = [1027, 1028] \<and>
     FreeResourceID (\<lambda>n. KvOk) sample_prm 0 ''ALLOC_ID'' (Some ids) st1 = (Done None, st2) \<and> taken_at st2 = taken_at sample_kv"
proof -
  let ?g = "GetResourceID (\<lambda>n. KvOk) sample_prm 0 ''ALLOC_ID'' 2 sample_kv"
  have 1: "fst ?g = Done ([1027, 1028], None)" by code_simp
  have 2: "fst (FreeResourceID (\<lambda>n. KvOk) sample_prm 0 ''ALLOC_ID'' (Some [1027, 1028]) (snd ?g)) = Done None" by code_simp
  obtain st1 where st1: "?g = (Done ([1027, 1028], None), st1)" using 1 by (metis prod.collapse)
  then obtain st2 where st2: "FreeResourceID (\<lambda>n. KvOk) sample_prm 0 ''ALLOC_ID'' (Some [1027, 1028]) st1 = (Done None, st2)"
    using 2 by (metis prod.collapse snd_conv)
  have "taken_at st2 = taken_at sample_kv"
    by (rule ext) (rule get_free_roundtrip [OF sample_facts(1,3,2) st1 st2])
  with st1 st2 show ?thesis by blast
qed

text \<open>
  The mutex around a request belongs to the manager of one port, so nothing orders the requests of two ports. When their managers share a pool, a second request
  that reads the pool before the first has written it hands out the same identifiers, and both report success.
\<close>

lemma shared_pool_race:
  assumes "mgr_ready m" "mgr_ready m'" "rt \<in> resource_types" "pool_key m i rt = pool_key m' i' rt"
    and "\<forall>k. F k = KvOk" "kv_data st (pool_key m i rt) = Some (KvResource r)"
    and "generate_ids (if rt = ''ONU_ID'' \<or> rt = ''FLOW_ID'' then 1 else unat n) (Some r) = Done ((ids, None), Some r')"
  shows "\<exists>x x' st1 st2 st3 st4.
     read_pool F m i rt st = (Done x, st1) \<and> read_pool F m' i' rt st1 = (Done x', st2) \<and>
     take_ids F m rt n x st2 = (Done (ids, None), st3) \<and> take_ids F m' rt n x' st3 = (Done (ids, None), st4)"
proof -
  obtain p where p: "GetPath m i rt = Done p" "pool_key m i rt = full_key m p" using GetPath_ready [OF assms(1,3)] by blast
  obtain p' where p': "GetPath m' i' rt = Done p'" "pool_key m' i' rt = full_key m' p'" using GetPath_ready [OF assms(2,3)] by blast
  have "read_pool F m i rt st = (Done (p, Some r, None), st\<lparr>kv_ops := Suc (kv_ops st)\<rparr>)"
    "read_pool F m' i' rt (st\<lparr>kv_ops := Suc (kv_ops st)\<rparr>) = (Done (p', Some r, None), st\<lparr>kv_ops := Suc (Suc (kv_ops st))\<rparr>)"
    using p p' assms(4-6) by (simp_all add: read_pool_def GetResource_def kv_Get_def kvm_defs)
  note reads = this
  have takes: "\<exists>st''. take_ids F m1 rt n (p1, Some r, None) st' = (Done (ids, None), st'')" for m1 p1 st'
    using assms(3,5,7)
    by (auto simp: take_ids_def UpdateResource_def kv_Put_def kv_write_def kvm_defs resource_types_def Let_def)
  obtain st3 where "take_ids F m rt n (p, Some r, None) (st\<lparr>kv_ops := Suc (Suc (kv_ops st))\<rparr>) = (Done (ids, None), st3)"
    using takes by blast
  moreover obtain st4 where "take_ids F m' rt n (p', Some r, None) st3 = (Done (ids, None), st4)" using takes by blast
  ultimately show ?thesis using reads by blast
qed

lemma shared_pool_race_witness:
  "\<exists>x x' st1 st2 st3 st4.
     read_pool (\<lambda>n. KvOk) sample_prm 0 ''ALLOC_ID'' sample_kv = (Done x, st1) \<and>
     read_pool (\<lambda>n. KvOk) sample_prm 1 ''ALLOC_ID'' st1 = (Done x', st2) \<and>
     take_ids (\<lambda>n. KvOk) sample_prm ''ALLOC_ID'' 1 x st2 = (Done ([1027], None), st3) \<and>
     take_ids (\<lambda>n. KvOk) sample_prm ''ALLOC_ID'' 1 x' st3 = (Done ([1027], None), st4)"
proof (rule shared_pool_race [OF sample_facts(1,1,3)])
  show "pool_key sample_prm 0 ''ALLOC_ID'' = pool_key sample_prm 1 ''ALLOC_ID''" by code_simp
  show "generate_ids (if ''ALLOC_ID'' = ''ONU_ID'' \<or> ''ALLOC_ID'' = ''FLOW_ID'' then 1 else unat (1 :: uint32)) (Some sample_pool) =
     Done (([1027], None), Some (sample_pool\<lparr>res_pool := [15, 0]\<rparr>))" by code_simp
qed (simp_all add: sample_facts)

end
