(* ===== verification/Resource_Mgr.thy ===== *)
theory Resource_Mgr
  imports Effects Pon_Resources
begin

text \<open>
  Model of \<open>core/resource_manager.go\<close>. A resource manager belongs to one PON port. Its flow ID
  counter is shared memory, kept in the \<open>world\<close> under the manager's port; the rest of the manager
  never changes after construction and is the record \<open>OpenOltResourceMgr\<close>. The pools are those of
  \<open>Pon_Resources\<close>, in the key-value store that the operations pass along; whether the store's client and the
  technology profile manager can be made is a parameter, the record \<open>rm_deps\<close>, with the store's answers.

  The lemmas describe how the resource ranges are read from the device information, when construction
  yields a manager, nil, an exit or a panic, and that flow IDs are handed out consecutively.
\<close>

section \<open>State\<close>

record OpenOltResourceMgr =
  rm_deviceInfo :: DeviceInfo
  rm_intfID :: uint32
  rm_PonRsrMgr :: "PONResourceManager option"

text \<open>
  What the constructor depends on. \<open>new_pon_ok\<close>: the client of the key-value store for the technology can be made; otherwise
  \<open>SetKVClient\<close> ends the process. \<open>new_tp_ok\<close>: the profile manager is made.
\<close>

record rm_deps =
  new_pon_ok :: "string \<Rightarrow> bool"
  kv_answers :: "nat \<Rightarrow> kv_answer"
  new_tp_ok :: bool

datatype rm_result =
    RmOk OpenOltResourceMgr
  | RmNil
  | RmExit string
  | RmPanic go_panic

section \<open>Operations\<close>

text \<open>The loop over the pools of a range: a later pool of the same type overrides an earlier one.\<close>

fun read_pools :: "Pool list \<Rightarrow> ResourceRanges \<Rightarrow> ResourceRanges" where
  "read_pools [] r = r"
| "read_pools (RangePool # ps) r =
     read_pools ps
       (if pl_Type RangePool = Pool_ONU_ID then
          r\<lparr>rg_ONUIDStart := pl_Start RangePool, rg_ONUIDEnd := pl_End RangePool,
            rg_ONUIDShared := sharing_number (pl_Sharing RangePool)\<rparr>
        else if pl_Type RangePool = Pool_ALLOC_ID then
          r\<lparr>rg_AllocIDStart := pl_Start RangePool, rg_AllocIDEnd := pl_End RangePool,
            rg_AllocIDShared := sharing_number (pl_Sharing RangePool)\<rparr>
        else if pl_Type RangePool = Pool_GEMPORT_ID then
          r\<lparr>rg_GEMPortIDStart := pl_Start RangePool, rg_GEMPortIDEnd := pl_End RangePool,
            rg_GEMPortIDShared := sharing_number (pl_Sharing RangePool)\<rparr>
        else r)"

definition device_ranges :: "DeviceResourceRanges \<Rightarrow> DeviceInfo \<Rightarrow> ResourceRanges" where
  "device_ranges techRange devInfo =
     read_pools (rr_Pools techRange)
       \<lparr>rg_ONUIDStart = 0, rg_ONUIDEnd = 0, rg_ONUIDShared = 0,
        rg_AllocIDStart = 0, rg_AllocIDEnd = 0, rg_AllocIDShared = 0,
        rg_GEMPortIDStart = 0, rg_GEMPortIDEnd = 0, rg_GEMPortIDShared = 0,
        rg_flowIDStart = 1, rg_flowIDEnd = 2, rg_FlowIDShared = 0,
        rg_uniIDStart = 0, rg_uniIDEnd = 1,
        rg_PonPorts = di_PonPorts devInfo, rg_IntfIds = rr_IntfIds techRange\<rparr>"

definition InitializeDeviceResourceRangeAndPool ::
  "PONResourceManager \<Rightarrow> DeviceResourceRanges \<Rightarrow> DeviceInfo \<Rightarrow> PONResourceManager" where
  "InitializeDeviceResourceRangeAndPool ponRMgr techRange devInfo =
     InitDefaultPONResourceRanges (device_ranges techRange devInfo) ponRMgr"

text \<open>
  The two nested loops of \<open>NewResourceMgr\<close> over the ranges and their interfaces, as the list of the
  pairs they visit. \<open>Inl\<close> is an early end of the function.
\<close>

definition range_visits :: "DeviceResourceRanges list \<Rightarrow> (DeviceResourceRanges \<times> uint32) list" where
  "range_visits rs = concat (map (\<lambda>r. map (\<lambda>i. (r, i)) (rr_IntfIds r)) rs)"

fun visit_ranges ::
  "rm_deps \<Rightarrow> string \<Rightarrow> DeviceInfo \<Rightarrow> uint32 \<Rightarrow> (DeviceResourceRanges \<times> uint32) list \<Rightarrow>
   PONResourceManager option \<Rightarrow> kv \<Rightarrow> (rm_result + PONResourceManager option) \<times> kv" where
  "visit_ranges D deviceID devInfo ponID [] prm st = (Inr prm, st)"
| "visit_ranges D deviceID devInfo ponID ((TechRange, intfID) # vs) prm st =
     (if intfID = ponID then
        (if \<not> new_pon_ok D (rr_Technology TechRange) then (Inl (RmExit (''Failed to init KV client'' @ [CHR 0x0A])), st)
         else
           (let rsrMgr = InitializeDeviceResourceRangeAndPool
                  (NewPONResourceManager (rr_Technology TechRange) deviceID) TechRange devInfo
            in case InitDeviceResourcePoolForIntf (kv_answers D) rsrMgr intfID st of
                 (Crashed p, st') \<Rightarrow> (Inl (RmPanic p), st')
               | (Done (Some err), st') \<Rightarrow>
                   (Inl (RmExit ''failed-to-initialize-device-resource-pool-intf-id-%v-device-id''), st')
               | (Done None, st') \<Rightarrow> visit_ranges D deviceID devInfo ponID vs (Some rsrMgr) st'))
      else visit_ranges D deviceID devInfo ponID vs prm st)"

definition NewResourceMgr :: "rm_deps \<Rightarrow> string \<Rightarrow> uint32 \<Rightarrow> DeviceInfo \<Rightarrow> kv \<Rightarrow> rm_result \<times> kv" where
  "NewResourceMgr D deviceID ponID devInfo st =
     (case visit_ranges D deviceID devInfo ponID (range_visits (di_Ranges devInfo)) None st of
        (Inl res, st') \<Rightarrow> (res, st')
      | (Inr None, st') \<Rightarrow> (RmPanic NilDereference, st')
      | (Inr (Some prm), st') \<Rightarrow>
          if \<not> new_tp_ok D then (RmNil, st')
          else (RmOk \<lparr>rm_deviceInfo = devInfo, rm_intfID = ponID, rm_PonRsrMgr = Some prm\<rparr>, st'))"

text \<open>\<open>Delete\<close> and \<open>GetONUID\<close> pass on what the library call returns.\<close>

definition Delete :: "(nat \<Rightarrow> kv_answer) \<Rightarrow> OpenOltResourceMgr \<Rightarrow> go_error option kvm" where
  "Delete F RsrcMgr =
     kbind (klift (case rm_PonRsrMgr RsrcMgr of None \<Rightarrow> Crashed NilDereference | Some prm \<Rightarrow> Done prm)) (\<lambda>prm.
     kbind (ClearDeviceResourcePool F prm) (\<lambda>err.
     if err \<noteq> None then kret err else kret None))"

text \<open>\<open>TechprofileRef.GetResourceID\<close>, through the PON resource manager that the profile manager was made with.\<close>

definition TechprofileRef_GetResourceID ::
  "(nat \<Rightarrow> kv_answer) \<Rightarrow> OpenOltResourceMgr \<Rightarrow> uint32 \<Rightarrow> string \<Rightarrow> uint32 \<Rightarrow> (uint32 list \<times> go_error option) kvm" where
  "TechprofileRef_GetResourceID F RsrcMgr intfID resourceType numIDs =
     kbind (klift (case rm_PonRsrMgr RsrcMgr of None \<Rightarrow> Crashed NilDereference | Some prm \<Rightarrow> Done prm)) (\<lambda>prm.
     tp_GetResourceID F prm intfID resourceType numIDs)"

definition GetONUID ::
  "(nat \<Rightarrow> kv_answer) \<Rightarrow> OpenOltResourceMgr \<Rightarrow> uint32 \<Rightarrow> (uint32 \<times> go_error option) kvm" where
  "GetONUID F RsrcMgr ponIntfID =
     kbind (TechprofileRef_GetResourceID F RsrcMgr ponIntfID ''ONU_ID'' 1) (\<lambda>(onuID, err).
     if err \<noteq> None then kret (0, err)
     else if 0 < length onuID then kret (onuID ! 0, err) else kret (0, err))"

definition GetFlowID :: "OpenOltResourceMgr \<Rightarrow> uint32 \<Rightarrow> (uint64 \<times> go_error option) prog" where
  "GetFlowID RsrcMgr ponIntfID = NextFlowID (rm_intfID RsrcMgr) (\<lambda>id. Ret (id, None))"

section \<open>Lemmas\<close>

lemma run_GetFlowID [go_run]:
  "run E (GetFlowID m p) w =
     (Done (flow_id w (rm_intfID m) + 1, None),
      w\<lparr>flow_id := (flow_id w)(rm_intfID m := flow_id w (rm_intfID m) + 1)\<rparr>)"
  by (simp add: GetFlowID_def flow_id_section_def Let_def)

lemma safe_GetFlowID [go_safe]: "safe P (\<lambda>(id, err). err = None) (GetFlowID m p)"
  by (simp add: GetFlowID_def)

lemma read_pools_last:
  "rg_ONUIDStart (read_pools (ps @ [q]) r) =
     (if pl_Type q = Pool_ONU_ID then pl_Start q else rg_ONUIDStart (read_pools ps r))"
  by (induction ps arbitrary: r) auto

lemma read_pools_fixed:
  "rg_PonPorts (read_pools ps r) = rg_PonPorts r" "rg_IntfIds (read_pools ps r) = rg_IntfIds r"
  by (induction ps arbitrary: r) auto

lemma read_pools_append: "read_pools (ps @ qs) r = read_pools qs (read_pools ps r)"
  by (induction ps arbitrary: r) auto

lemma read_pools_other:
  "(\<And>q. q \<in> set ps \<Longrightarrow> pl_Type q \<noteq> Pool_ONU_ID) \<Longrightarrow>
     rg_ONUIDStart (read_pools ps r) = rg_ONUIDStart r \<and> rg_ONUIDEnd (read_pools ps r) = rg_ONUIDEnd r \<and>
     rg_ONUIDShared (read_pools ps r) = rg_ONUIDShared r"
  "(\<And>q. q \<in> set ps \<Longrightarrow> pl_Type q \<noteq> Pool_ALLOC_ID) \<Longrightarrow>
     rg_AllocIDStart (read_pools ps r) = rg_AllocIDStart r \<and> rg_AllocIDEnd (read_pools ps r) = rg_AllocIDEnd r \<and>
     rg_AllocIDShared (read_pools ps r) = rg_AllocIDShared r"
  "(\<And>q. q \<in> set ps \<Longrightarrow> pl_Type q \<noteq> Pool_GEMPORT_ID) \<Longrightarrow>
     rg_GEMPortIDStart (read_pools ps r) = rg_GEMPortIDStart r \<and> rg_GEMPortIDEnd (read_pools ps r) = rg_GEMPortIDEnd r \<and>
     rg_GEMPortIDShared (read_pools ps r) = rg_GEMPortIDShared r"
  by (induction ps arbitrary: r) auto

lemma set_range_visits: "(r, i) \<in> set (range_visits rs) \<longleftrightarrow> r \<in> set rs \<and> i \<in> set (rr_IntfIds r)"
  by (auto simp: range_visits_def)

lemma device_ranges_flow [simp]:
  "rg_flowIDStart (device_ranges r d) = 1" "rg_flowIDEnd (device_ranges r d) = 2"
proof -
  have "rg_flowIDStart (read_pools ps g) = rg_flowIDStart g \<and> rg_flowIDEnd (read_pools ps g) = rg_flowIDEnd g" for ps g
    by (induction ps arbitrary: g) auto
  then show "rg_flowIDStart (device_ranges r d) = 1" "rg_flowIDEnd (device_ranges r d) = 2"
    by (simp_all add: device_ranges_def)
qed

lemma InitializeDevice_new:
  "InitializeDeviceResourceRangeAndPool (NewPONResourceManager t dev) r d = new_manager t dev (device_ranges r d)"
  by (simp add: InitializeDeviceResourceRangeAndPool_def new_manager_def)

text \<open>The manager the constructor ends with on a healthy store: that of the last range that lists the port.\<close>

definition port_ranges :: "DeviceInfo \<Rightarrow> uint32 \<Rightarrow> DeviceResourceRanges list" where
  "port_ranges devInfo ponID = map fst (filter (\<lambda>(r, i). i = ponID) (range_visits (di_Ranges devInfo)))"

lemma set_port_ranges: "set (port_ranges devInfo ponID) = {r \<in> set (di_Ranges devInfo). ponID \<in> set (rr_IntfIds r)}"
  by (auto simp: port_ranges_def set_range_visits intro!: image_eqI [where x = "(_, ponID)"])

definition range_manager :: "string \<Rightarrow> DeviceInfo \<Rightarrow> DeviceResourceRanges \<Rightarrow> PONResourceManager" where
  "range_manager deviceID devInfo r = new_manager (rr_Technology r) deviceID (device_ranges r devInfo)"

lemma visit_ranges_healthy:
  assumes "\<forall>t. new_pon_ok D t" "\<forall>n. kv_answers D n = KvOk" "healthy_store st"
  shows "\<exists>st'. healthy_store st' \<and>
     visit_ranges D deviceID devInfo ponID vs prm st =
       (let rs = map fst (filter (\<lambda>(r, i). i = ponID) vs)
        in (if list_all (\<lambda>r. ranges_complete (device_ranges r devInfo)) rs
            then Inr (if rs = [] then prm else Some (range_manager deviceID devInfo (last rs)))
            else Inl (RmPanic TypeAssertion), st'))"
  using assms(3)
proof (induction vs arbitrary: prm st)
  case (Cons v vs)
  obtain r i where v: "v = (r, i)" by (cases v)
  show ?case
  proof (cases "i = ponID")
    case True
    let ?m = "range_manager deviceID devInfo r"
    obtain st1 where st1: "healthy_store st1" "InitDeviceResourcePoolForIntf (kv_answers D) ?m ponID st =
        (if ranges_complete (device_ranges r devInfo) then (Done None, st1) else (Crashed TypeAssertion, st1))"
      using init_device_pools [OF assms(2) Cons.prems] unfolding range_manager_def by blast
    from Cons.IH [OF st1(1), of "Some ?m"] st1 v True assms(1) show ?thesis
      by (auto simp: Let_def InitializeDevice_new range_manager_def)
  next
    case False
    with Cons.IH [OF Cons.prems, of prm] v show ?thesis by (simp add: Let_def)
  qed
qed auto

lemma NewResourceMgr_healthy:
  assumes "\<forall>t. new_pon_ok D t" "\<forall>n. kv_answers D n = KvOk" "healthy_store st"
  shows "\<exists>st'. healthy_store st' \<and> NewResourceMgr D deviceID ponID devInfo st =
     (let rs = port_ranges devInfo ponID
      in if \<not> list_all (\<lambda>r. ranges_complete (device_ranges r devInfo)) rs then RmPanic TypeAssertion
         else if rs = [] then RmPanic NilDereference
         else if \<not> new_tp_ok D then RmNil
         else RmOk \<lparr>rm_deviceInfo = devInfo, rm_intfID = ponID,
                    rm_PonRsrMgr = Some (range_manager deviceID devInfo (last rs))\<rparr>, st')"
proof -
  obtain st' where st': "healthy_store st'" "visit_ranges D deviceID devInfo ponID (range_visits (di_Ranges devInfo)) None st =
       (let rs = port_ranges devInfo ponID
        in (if list_all (\<lambda>r. ranges_complete (device_ranges r devInfo)) rs
            then Inr (if rs = [] then None else Some (range_manager deviceID devInfo (last rs)))
            else Inl (RmPanic TypeAssertion), st'))"
    using visit_ranges_healthy [OF assms, of deviceID devInfo ponID "range_visits (di_Ranges devInfo)" None]
    unfolding port_ranges_def by blast
  then show ?thesis by (auto simp: NewResourceMgr_def Let_def)
qed

text \<open>Only the visits of the port matter; a port in one range gets new pools where there were none.\<close>

lemma visit_ranges_filter:
  "visit_ranges D deviceID devInfo ponID vs prm st =
     visit_ranges D deviceID devInfo ponID (filter (\<lambda>(r, i). i = ponID) vs) prm st"
  by (induction D deviceID devInfo ponID vs prm st rule: visit_ranges.induct)
    (auto simp: Let_def split: prod.split outcome.split option.split)

lemma NewResourceMgr_one:
  assumes "port_ranges devInfo ponID = [r]" "new_pon_ok D (rr_Technology r)" "new_tp_ok D"
    and "InitDeviceResourcePoolForIntf (kv_answers D) (range_manager deviceID devInfo r) ponID st = (Done None, st')"
  shows "NewResourceMgr D deviceID ponID devInfo st =
     (RmOk \<lparr>rm_deviceInfo = devInfo, rm_intfID = ponID, rm_PonRsrMgr = Some (range_manager deviceID devInfo r)\<rparr>, st')"
proof -
  let ?vs = "filter (\<lambda>(r, i). i = ponID) (range_visits (di_Ranges devInfo))"
  obtain p where p: "?vs = [p]" "fst p = r"
    using assms(1) by (auto simp: port_ranges_def map_eq_Cons_conv)
  have "\<forall>q \<in> set ?vs. snd q = ponID" by auto
  with p have "?vs = [(r, ponID)]" by (cases p) simp
  then have "visit_ranges D deviceID devInfo ponID (range_visits (di_Ranges devInfo)) None st =
      visit_ranges D deviceID devInfo ponID [(r, ponID)] None st"
    by (subst visit_ranges_filter) simp
  with assms(2-4) show ?thesis
    by (simp add: NewResourceMgr_def Let_def InitializeDevice_new range_manager_def [symmetric])
qed

lemma NewResourceMgr_single:
  assumes "\<forall>t. new_pon_ok D t" "\<forall>n. kv_answers D n = KvOk" "new_tp_ok D" "healthy_store st"
    and "port_ranges devInfo ponID = [r]" "ranges_complete (device_ranges r devInfo)"
  shows "\<exists>st'. healthy_store st' \<and>
     NewResourceMgr D deviceID ponID devInfo st =
       (RmOk \<lparr>rm_deviceInfo = devInfo, rm_intfID = ponID, rm_PonRsrMgr = Some (range_manager deviceID devInfo r)\<rparr>, st') \<and>
     (\<forall>k. k \<notin> pool_key (range_manager deviceID devInfo r) ponID ` resource_types \<longrightarrow> kv_data st' k = kv_data st k) \<and>
     (kv_data st (pool_key (range_manager deviceID devInfo r) ponID ''ONU_ID'') = None \<longrightarrow>
        (\<exists>p. FormatResource ponID (rg_ONUIDStart (device_ranges r devInfo)) (rg_ONUIDEnd (device_ranges r devInfo)) [] = Done p \<and>
           kv_data st' (pool_key (range_manager deviceID devInfo r) ponID ''ONU_ID'') = Some (KvResource p)))"
proof -
  from init_device_pools [OF assms(2,4), of "rr_Technology r" deviceID "device_ranges r devInfo" ponID] assms(6)
  obtain st' where st': "healthy_store st'"
    "\<forall>k. k \<notin> pool_key (range_manager deviceID devInfo r) ponID ` resource_types \<longrightarrow> kv_data st' k = kv_data st k"
    "InitDeviceResourcePoolForIntf (kv_answers D) (range_manager deviceID devInfo r) ponID st = (Done None, st')"
    "kv_data st (pool_key (range_manager deviceID devInfo r) ponID ''ONU_ID'') = None \<longrightarrow>
       (\<exists>p. FormatResource ponID (rg_ONUIDStart (device_ranges r devInfo)) (rg_ONUIDEnd (device_ranges r devInfo)) [] = Done p \<and>
          kv_data st' (pool_key (range_manager deviceID devInfo r) ponID ''ONU_ID'') = Some (KvResource p))"
    by (auto simp: range_manager_def)
  have "NewResourceMgr D deviceID ponID devInfo st =
      (RmOk \<lparr>rm_deviceInfo = devInfo, rm_intfID = ponID, rm_PonRsrMgr = Some (range_manager deviceID devInfo r)\<rparr>, st')"
    by (rule NewResourceMgr_one [OF assms(5) _ assms(3) st'(3)]) (use assms(1) in simp)
  with st' show ?thesis by (intro exI [of _ st'] conjI)
qed

text \<open>
  The ranges a PON resource manager starts with are those of the last pool of each type in the
  device's range, and zero when the device lists no pool of that type; the pools of one type do not
  influence the ranges of another.
\<close>

lemma ranges_from_last_pool:
  assumes "rr_Pools tr = before @ p # after" and "\<forall>q \<in> set after. pl_Type q \<noteq> pl_Type p"
  shows "let r = device_ranges tr devInfo in
     (pl_Type p = Pool_ONU_ID \<longrightarrow> rg_ONUIDStart r = pl_Start p \<and> rg_ONUIDEnd r = pl_End p) \<and>
     (pl_Type p = Pool_ALLOC_ID \<longrightarrow> rg_AllocIDStart r = pl_Start p \<and> rg_AllocIDEnd r = pl_End p) \<and>
     (pl_Type p = Pool_GEMPORT_ID \<longrightarrow> rg_GEMPortIDStart r = pl_Start p \<and> rg_GEMPortIDEnd r = pl_End p) \<and>
     rg_PonPorts r = di_PonPorts devInfo"
  using assms
  by (auto simp: device_ranges_def Let_def read_pools_append read_pools_other read_pools_fixed)

section \<open>Properties\<close>

text \<open>
  C40: with the store and the library's constructors working, a manager is built for a PON port exactly when some range of
  the device information lists that port and every range that does gives a nonzero start and end to the pools of ONU IDs, alloc
  IDs and GEM ports; it then carries the port, the device information and a PON resource manager for the last such
  range. For a port in no range (also for a range with an empty interface list, which the
  protocol reads as all interfaces) the constructor dereferences nil, and for an incomplete range it panics on
  a type assertion.
\<close>

theorem new_resource_mgr_covers:
  assumes "\<forall>t. new_pon_ok D t" and "\<forall>n. kv_answers D n = KvOk" and "new_tp_ok D" and "healthy_store st"
  shows "fst (NewResourceMgr D deviceID ponID devInfo st) =
     (if \<exists>r \<in> set (port_ranges devInfo ponID). \<not> ranges_complete (device_ranges r devInfo) then RmPanic TypeAssertion
      else if \<nexists>r. r \<in> set (di_Ranges devInfo) \<and> ponID \<in> set (rr_IntfIds r) then RmPanic NilDereference
      else RmOk \<lparr>rm_deviceInfo = devInfo, rm_intfID = ponID,
                 rm_PonRsrMgr = Some (range_manager deviceID devInfo (last (port_ranges devInfo ponID)))\<rparr>)"
proof -
  have "port_ranges devInfo ponID = [] \<longleftrightarrow> (\<nexists>r. r \<in> set (di_Ranges devInfo) \<and> ponID \<in> set (rr_IntfIds r))"
    using set_port_ranges [of devInfo ponID] by (cases "port_ranges devInfo ponID") auto
  with NewResourceMgr_healthy [OF assms(1,2,4), of deviceID ponID devInfo] assms(3) show ?thesis
    by (auto simp: Let_def list_all_iff)
qed

text \<open>A device with one range of two ports, whose pool of alloc IDs starts at \<open>start\<close>.\<close>

definition one_range_device :: "uint32 \<Rightarrow> DeviceInfo" where
  "one_range_device start =
     \<lparr>di_PonPorts = 2, di_Technology = ''XGS-PON'',
      di_Ranges = [\<lparr>rr_IntfIds = [0, 1], rr_Technology = ''XGS-PON'', rr_Pools =
        [\<lparr>pl_Type = Pool_ONU_ID, pl_Sharing = DEDICATED_PER_INTF, pl_Start = 1, pl_End = 127\<rparr>,
         \<lparr>pl_Type = Pool_ALLOC_ID, pl_Sharing = DEDICATED_PER_INTF, pl_Start = start, pl_End = 16383\<rparr>,
         \<lparr>pl_Type = Pool_GEMPORT_ID, pl_Sharing = DEDICATED_PER_INTF, pl_Start = 1024, pl_End = 65535\<rparr>]\<rparr>]\<rparr>"

theorem new_resource_mgr_covers_witness:
  "let D = \<lparr>new_pon_ok = \<lambda>t. True, kv_answers = \<lambda>n. KvOk, new_tp_ok = True\<rparr>;
       st = \<lparr>kv_data = Map.empty, kv_ops = 0\<rparr>; dev = one_range_device 1024
   in fst (NewResourceMgr D ''ABCD'' 1 dev st) =
        RmOk \<lparr>rm_deviceInfo = dev, rm_intfID = 1, rm_PonRsrMgr = Some (range_manager ''ABCD'' dev (hd (di_Ranges dev)))\<rparr> \<and>
      fst (NewResourceMgr D ''ABCD'' 1 (one_range_device 0) st) = RmPanic TypeAssertion \<and>
      fst (NewResourceMgr D ''ABCD'' 2 dev st) = RmPanic NilDereference"
  using new_resource_mgr_covers [of "\<lparr>new_pon_ok = \<lambda>t. True, kv_answers = \<lambda>n. KvOk, new_tp_ok = True\<rparr>"
      "\<lparr>kv_data = Map.empty, kv_ops = 0\<rparr>" "''ABCD''" _ "one_range_device _"]
  by (simp add: healthy_store_def one_range_device_def port_ranges_def range_visits_def device_ranges_def
      ranges_complete_def Let_def)

end
