(* ===== verification/Subscriber.thy ===== *)
theory Subscriber
  imports Config Resource_Mgr
begin

text \<open>
  The data of \<open>core/subscriber\_manager.go\<close>: the subscriber record that the workflows read, and the
  reason codes a provisioning attempt can end with. The result lists and counters of the Go struct
  (\<open>GemPortIDs\<close>, \<open>AllocIDs\<close>, \<open>FlowIDs\<close>, the failed and success counts and lists) are written by
  no function of the sources and are left out; the pointers to the gRPC client and the wait group are the
  \<open>Call\<close> action and the goroutine bookkeeping of the model.
\<close>

section \<open>Reason codes\<close>

definition SUBSCRIBER_PROVISION_SUCCESS :: nat where "SUBSCRIBER_PROVISION_SUCCESS = 0"
definition TP_INSTANCE_CREATION_FAILED :: nat where "TP_INSTANCE_CREATION_FAILED = 1"
definition FLOW_ID_GENERATION_FAILED :: nat where "FLOW_ID_GENERATION_FAILED = 2"
definition FLOW_ADD_FAILED :: nat where "FLOW_ADD_FAILED = 3"
definition SCHED_CREATION_FAILED :: nat where "SCHED_CREATION_FAILED = 4"
definition QUEUE_CREATION_FAILED :: nat where "QUEUE_CREATION_FAILED = 5"

definition Reason :: "string list" where
  "Reason =
     [''SUBSCRIBER_PROVISION_SUCCESS'',
      ''TP_INSTANCE_CREATION_FAILED'',
      ''FLOW_ID_GENERATION_FAILED'',
      ''FLOW_ADD_FAILED'',
      ''SCHED_CREATION_FAILED'',
      ''QUEUE_CREATION_FAILED'']"

definition ReasonCodeToReasonString :: "nat \<Rightarrow> string outcome" where
  "ReasonCodeToReasonString reasonCode =
     (if reasonCode < length Reason then Done (Reason ! reasonCode) else Crashed IndexOutOfRange)"

text \<open>\<open>return errors.New(ReasonCodeToReasonString(code))\<close>.\<close>

definition fail_with :: "nat \<Rightarrow> go_error option prog" where
  "fail_with reasonCode =
     (case ReasonCodeToReasonString reasonCode of
        Done s \<Rightarrow> Ret (Some (ErrorString s))
      | Crashed e \<Rightarrow> Panic e)"

lemmas reason_codes = SUBSCRIBER_PROVISION_SUCCESS_def TP_INSTANCE_CREATION_FAILED_def
  FLOW_ID_GENERATION_FAILED_def FLOW_ADD_FAILED_def SCHED_CREATION_FAILED_def QUEUE_CREATION_FAILED_def

section \<open>Subscribers\<close>

record Subscriber =
  SubscriberName :: string
  OnuID :: uint32
  UniID :: uint32
  PonIntf :: uint32
  UniPortNo :: uint32
  Ctag :: uint32
  Stag :: uint32
  SubsReason :: string
  TpInstance :: "int \<rightharpoonup> TechProfileInstance"
  TestConfig :: OpenOltScaleTesterConfig
  RsrMgr :: OpenOltResourceMgr

text \<open>
  \<open>subs.TpInstance[subs.TestConfig.TpIDList[0]]\<close>: indexing an empty list panics; a missing map entry
  reads as a nil pointer.
\<close>

definition tp_pointer :: "Subscriber \<Rightarrow> TechProfileInstance option prog" where
  "tp_pointer subs =
     (case TpIDList (TestConfig subs) of
        [] \<Rightarrow> Panic IndexOutOfRange
      | tpID # _ \<Rightarrow> Ret (TpInstance subs tpID))"

text \<open>
  A subscriber the workflows can run on: the instance of its first technology profile is there and has
  both schedulers. \<open>Subscriber.Start\<close> establishes the first part and the library the second.
\<close>

definition the_tp :: "Subscriber \<Rightarrow> TechProfileInstance" where
  "the_tp subs = the (TpInstance subs (hd (TpIDList (TestConfig subs))))"

definition ready :: "Subscriber \<Rightarrow> bool" where
  "ready subs \<longleftrightarrow> TpIDList (TestConfig subs) \<noteq> [] \<and>
     (case TpInstance subs (hd (TpIDList (TestConfig subs))) of
        None \<Rightarrow> False
      | Some inst \<Rightarrow> tp_UsScheduler inst \<noteq> None \<and> tp_DsScheduler inst \<noteq> None)"

section \<open>Lemmas\<close>

lemma reason_string [simp]:
  "ReasonCodeToReasonString SUBSCRIBER_PROVISION_SUCCESS = Done ''SUBSCRIBER_PROVISION_SUCCESS''"
  "ReasonCodeToReasonString TP_INSTANCE_CREATION_FAILED = Done ''TP_INSTANCE_CREATION_FAILED''"
  "ReasonCodeToReasonString FLOW_ID_GENERATION_FAILED = Done ''FLOW_ID_GENERATION_FAILED''"
  "ReasonCodeToReasonString FLOW_ADD_FAILED = Done ''FLOW_ADD_FAILED''"
  "ReasonCodeToReasonString SCHED_CREATION_FAILED = Done ''SCHED_CREATION_FAILED''"
  "ReasonCodeToReasonString QUEUE_CREATION_FAILED = Done ''QUEUE_CREATION_FAILED''"
  by (simp_all add: ReasonCodeToReasonString_def Reason_def reason_codes)

lemma fail_with_simps [simp]:
  "fail_with FLOW_ID_GENERATION_FAILED = Ret (Some (ErrorString ''FLOW_ID_GENERATION_FAILED''))"
  "fail_with FLOW_ADD_FAILED = Ret (Some (ErrorString ''FLOW_ADD_FAILED''))"
  "fail_with SCHED_CREATION_FAILED = Ret (Some (ErrorString ''SCHED_CREATION_FAILED''))"
  "fail_with QUEUE_CREATION_FAILED = Ret (Some (ErrorString ''QUEUE_CREATION_FAILED''))"
  by (simp_all add: fail_with_def)

lemma ready_pointer:
  assumes "ready subs"
  shows "tp_pointer subs = Ret (Some (the_tp subs))"
  using assms by (auto simp: ready_def tp_pointer_def the_tp_def split: list.splits option.splits)

lemma ready_schedulers:
  assumes "ready subs"
  obtains us ds where "tp_UsScheduler (the_tp subs) = Some us" "tp_DsScheduler (the_tp subs) = Some ds"
  using assms by (auto simp: ready_def the_tp_def split: option.splits)

end
