(* ===== verification/Techprofile.thy ===== *)
theory Techprofile
  imports Subscriber
begin

text \<open>
  The operations of voltha-lib-go's technology profile manager that the workflows call on an instance,
  translated from the vendored package \<open>pkg/techprofile\<close>: the scheduler configurations, the traffic
  scheduler and the traffic queues. They only read the instance, and panic on a nil one.
  The lemmas give their results on a subscriber that is ready.
\<close>

section \<open>Operations\<close>

definition sched_config :: "SchedulerAttributes \<Rightarrow> SchedulerConfig" where
  "sched_config a =
     \<lparr>sc_Direction = sa_Direction a, sc_AdditionalBw = sa_AdditionalBw a, sc_Priority = sa_Priority a,
      sc_Weight = sa_Weight a, sc_SchedPolicy = sa_QSchedPolicy a\<rparr>"

definition GetUsScheduler :: "TechProfileInstance option \<Rightarrow> SchedulerConfig option prog" where
  "GetUsScheduler tpInstance =
     bindp (deref NilDereference tpInstance) (\<lambda>inst.
     bindp (deref NilDereference (tp_UsScheduler inst)) (\<lambda>a. Ret (Some (sched_config a))))"

definition GetDsScheduler :: "TechProfileInstance option \<Rightarrow> SchedulerConfig option prog" where
  "GetDsScheduler tpInstance =
     bindp (deref NilDereference tpInstance) (\<lambda>inst.
     bindp (deref NilDereference (tp_DsScheduler inst)) (\<lambda>a. Ret (Some (sched_config a))))"

definition GetTrafficScheduler ::
  "TechProfileInstance option \<Rightarrow> SchedulerConfig \<Rightarrow> TrafficShapingInfo \<Rightarrow> TrafficScheduler prog" where
  "GetTrafficScheduler tpInstance SchedCfg ShapingCfg =
     bindp (deref NilDereference tpInstance) (\<lambda>inst.
     bindp (deref NilDereference (tp_UsScheduler inst)) (\<lambda>us.
     Ret \<lparr>ts_Direction = sc_Direction SchedCfg, ts_AllocId = sa_AllocId us,
          ts_Scheduler = Some SchedCfg, ts_TrafficShapingInfo = Some ShapingCfg,
          ts_TechProfileId = 0\<rparr>))"

definition isMulticastGem :: "string \<Rightarrow> bool" where
  "isMulticastGem v \<longleftrightarrow> v \<noteq> [] \<and> (v = ''True'' \<or> v = ''true'' \<or> v = ''TRUE'')"

definition traffic_queue :: "Direction \<Rightarrow> GemPortAttributes \<Rightarrow> TrafficQueue" where
  "traffic_queue direction g =
     \<lparr>tq_Direction = direction, tq_GemportId = gp_GemportId g, tq_PbitMap = gp_PbitMap g,
      tq_AesEncryption = (gp_AesEncryption g = ''True''), tq_SchedPolicy = gp_SchedulingPolicy g,
      tq_Priority = gp_PriorityQ g, tq_Weight = gp_Weight g, tq_DiscardPolicy = gp_DiscardPolicy g\<rparr>"

definition GetTrafficQueues ::
  "TechProfileInstance option \<Rightarrow> Direction \<Rightarrow> (TrafficQueue list option \<times> go_error option) prog" where
  "GetTrafficQueues tp direction =
     (if direction = UPSTREAM then
        bindp (deref NilDereference tp) (\<lambda>inst.
        Ret (Some (map (traffic_queue direction) (tp_UpstreamGemPortAttributeList inst)), None))
      else if direction = DOWNSTREAM then
        bindp (deref NilDereference tp) (\<lambda>inst.
        Ret (Some (map (traffic_queue direction)
               (filter (\<lambda>g. \<not> isMulticastGem (gp_IsMulticast g)) (tp_DownstreamGemPortAttributeList inst))), None))
      else
        Ret (None, Some (ErrorString
          ''downstream gem port traffic queue creation failed due to unsupported direction BIDIRECTIONAL'')))"

section \<open>Lemmas\<close>

lemma techprofile_simps [simp]:
  "GetUsScheduler (Some inst) = (case tp_UsScheduler inst of None \<Rightarrow> Panic NilDereference | Some a \<Rightarrow> Ret (Some (sched_config a)))"
  "GetDsScheduler (Some inst) = (case tp_DsScheduler inst of None \<Rightarrow> Panic NilDereference | Some a \<Rightarrow> Ret (Some (sched_config a)))"
  "GetUsScheduler None = Panic NilDereference" "GetDsScheduler None = Panic NilDereference"
  "GetTrafficScheduler None cfg sh = Panic NilDereference"
  by (simp_all add: GetUsScheduler_def GetDsScheduler_def GetTrafficScheduler_def split: option.split)

lemma GetTrafficScheduler_Some:
  "tp_UsScheduler inst = Some us \<Longrightarrow> GetTrafficScheduler (Some inst) cfg sh =
     Ret \<lparr>ts_Direction = sc_Direction cfg, ts_AllocId = sa_AllocId us, ts_Scheduler = Some cfg,
          ts_TrafficShapingInfo = Some sh, ts_TechProfileId = 0\<rparr>"
  by (simp add: GetTrafficScheduler_def)

lemma sched_config_fields [simp]: "sc_Direction (sched_config a) = sa_Direction a"
  by (simp add: sched_config_def)

end
