(* ===== verification/Workflow_Utils.thy ===== *)
theory Workflow_Utils
  imports Techprofile
begin

text \<open>
  Model of \<open>core/workflow\_utils.go\<close>: the building blocks the operator workflows share. Schedulers and
  queues of a subscriber, the classifier and action of its flows, the flow installation with its error
  handling, the multicast group operations and the three retrying senders.

  Every block is a program of atomic actions; each lemma says what it sends, in what case it fails and
  that it cannot panic on a subscriber that is ready.
\<close>

section \<open>Constants\<close>

definition DhcpIPProto :: uint32 where "DhcpIPProto = 17"
definition HsiaFlow :: string where "HsiaFlow = ''HSIA_FLOW''"
definition DhcpFlowIPV4 :: string where "DhcpFlowIPV4 = ''DHCP_FLOW_IPV4''"
definition IPv4EthType :: uint32 where "IPv4EthType = 0x800"
definition DhcpSrcPortIPV4 :: uint32 where "DhcpSrcPortIPV4 = 68"
definition DhcpDstPortIPV4 :: uint32 where "DhcpDstPortIPV4 = 67"
definition DhcpFlowIPV6 :: string where "DhcpFlowIPV6 = ''DHCP_FLOW_IPV6''"
definition IPv6EthType :: uint32 where "IPv6EthType = 0x86dd"
definition DhcpSrcPortIPV6 :: uint32 where "DhcpSrcPortIPV6 = 547"
definition DhcpDstPortIPV6 :: uint32 where "DhcpDstPortIPV6 = 546"
definition EapolFlow :: string where "EapolFlow = ''EAPOL_FLOW''"
definition EapEthType :: uint32 where "EapEthType = 0x888e"
definition Upstream :: string where "Upstream = ''upstream''"
definition Downstream :: string where "Downstream = ''downstream''"
definition Untagged :: string where "Untagged = ''untagged''"
definition SingleTag :: string where "SingleTag = ''single_tag''"
definition DoubleTag :: string where "DoubleTag = ''double_tag''"
definition VoipFlow :: string where "VoipFlow = ''VOIP_FLOW''"
definition VodFlow :: string where "VodFlow = ''VOD_FLOW''"
definition MgmtFlow :: string where "MgmtFlow = ''MGMT_FLOW''"
definition IgmpProto :: uint32 where "IgmpProto = 2"
definition IgmpFlow :: string where "IgmpFlow = ''IGMP_FLOW''"

lemmas flow_names = HsiaFlow_def DhcpFlowIPV4_def DhcpFlowIPV6_def EapolFlow_def VoipFlow_def
  VodFlow_def MgmtFlow_def IgmpFlow_def Upstream_def Downstream_def
lemmas flow_consts = DhcpIPProto_def IPv4EthType_def DhcpSrcPortIPV4_def DhcpDstPortIPV4_def
  IPv6EthType_def DhcpSrcPortIPV6_def DhcpDstPortIPV6_def EapEthType_def IgmpProto_def
  Untagged_def SingleTag_def DoubleTag_def

section \<open>Schedulers and queues\<close>

definition getTrafficSched :: "Subscriber \<Rightarrow> Direction \<Rightarrow> TrafficScheduler list option prog" where
  "getTrafficSched subs direction =
     bindp (tp_pointer subs) (\<lambda>inst.
     bindp (if direction = DOWNSTREAM then GetDsScheduler inst else GetUsScheduler inst) (\<lambda>SchedCfg.
     (case SchedCfg of
        None \<Rightarrow> Ret None
      | Some cfg \<Rightarrow>
          (let cir = 16000; cbs = 5000; eir = 16000; ebs = 5000; pir = cir + eir; pbs = cbs + ebs;
               TrafficShaping = TrafficShapingInfo_zero\<lparr>sh_Cir := cir, sh_Cbs := cbs, sh_Pir := pir, sh_Pbs := pbs\<rparr>
           in bindp (GetTrafficScheduler inst cfg TrafficShaping) (\<lambda>s. Ret (Some [s]))))))"

definition getTrafficQueues :: "Subscriber \<Rightarrow> Direction \<Rightarrow> TrafficQueue list option prog" where
  "getTrafficQueues subs direction =
     bindp (tp_pointer subs) (\<lambda>inst.
     bindp (GetTrafficQueues inst direction) (\<lambda>(trafficQueues, err).
     (case err of None \<Rightarrow> Ret trafficQueues | Some e \<Rightarrow> Ret None)))"

section \<open>Flows\<close>

definition FormatClassfierAction :: "string \<Rightarrow> string \<Rightarrow> Subscriber \<Rightarrow> Classifier \<times> Action" where
  "FormatClassfierAction flowType direction subs =
     (if direction = Upstream then
        (if flowType = EapolFlow then
           (Classifier_zero\<lparr>cl_EthType := EapEthType, cl_OVid := Ctag subs, cl_PktTagType := SingleTag\<rparr>,
            Action_zero\<lparr>ac_Cmd := Some (ActionCmd_zero\<lparr>cmd_TrapToHost := True\<rparr>)\<rparr>)
         else if flowType = DhcpFlowIPV4 then
           (Classifier_zero\<lparr>cl_EthType := IPv4EthType, cl_IpProto := DhcpIPProto,
              cl_SrcPort := DhcpSrcPortIPV4, cl_DstPort := DhcpDstPortIPV4, cl_PktTagType := SingleTag\<rparr>,
            Action_zero\<lparr>ac_Cmd := Some (ActionCmd_zero\<lparr>cmd_TrapToHost := True\<rparr>)\<rparr>)
         else if flowType = DhcpFlowIPV6 then
           (Classifier_zero\<lparr>cl_EthType := IPv6EthType, cl_IpProto := DhcpIPProto,
              cl_SrcPort := DhcpSrcPortIPV6, cl_DstPort := DhcpDstPortIPV6, cl_PktTagType := SingleTag\<rparr>,
            Action_zero\<lparr>ac_Cmd := Some (ActionCmd_zero\<lparr>cmd_TrapToHost := True\<rparr>)\<rparr>)
         else if flowType = HsiaFlow then
           (Classifier_zero\<lparr>cl_OVid := Ctag subs, cl_PktTagType := SingleTag\<rparr>,
            Action_zero\<lparr>ac_Cmd := Some (ActionCmd_zero\<lparr>cmd_AddOuterTag := True\<rparr>), ac_OVid := Stag subs\<rparr>)
         else (Classifier_zero, Action_zero))
      else if direction = Downstream then
        (if flowType = EapolFlow then (Classifier_zero, Action_zero)
         else if flowType = DhcpFlowIPV4 then (Classifier_zero, Action_zero)
         else if flowType = DhcpFlowIPV6 then (Classifier_zero, Action_zero)
         else if flowType = HsiaFlow then
           (Classifier_zero\<lparr>cl_OVid := Stag subs, cl_IVid := Ctag subs, cl_PktTagType := DoubleTag\<rparr>,
            Action_zero\<lparr>ac_Cmd := Some (ActionCmd_zero\<lparr>cmd_RemoveOuterTag := True\<rparr>), ac_OVid := Stag subs\<rparr>)
         else (Classifier_zero, Action_zero))
      else (Classifier_zero, Action_zero))"

text \<open>
  The flow message of a subscriber, common to \<open>AddFlow\<close> and \<open>AddTtFlow\<close>: 255 as \<open>pcp\<close> means
  that the outer priority bits are not classified.
\<close>

definition subscriber_flow ::
  "Subscriber \<Rightarrow> Classifier \<times> Action \<Rightarrow> string \<Rightarrow> uint64 \<Rightarrow> uint32 \<Rightarrow> uint32 \<Rightarrow> uint32 \<Rightarrow> bool \<Rightarrow> uint64 \<Rightarrow>
   (uint32 \<rightharpoonup> uint32) \<Rightarrow> Flow" where
  "subscriber_flow subs ca direction flowID allocID gemID pcp replicateFlow symmetricFlowID pbitToGem =
     (let flowClassifier = (if pcp \<noteq> 0xff then (fst ca)\<lparr>cl_OPbits := pcp\<rparr> else fst ca)
      in Flow_zero\<lparr>fl_AccessIntfId := int32_of (PonIntf subs), fl_OnuId := int32_of (OnuID subs),
           fl_UniId := int32_of (UniID subs), fl_FlowId := flowID,
           fl_FlowType := direction, fl_AllocId := int32_of allocID, fl_GemportId := int32_of gemID,
           fl_Classifier := Some flowClassifier, fl_Action := Some (snd ca),
           fl_Priority := 1000, fl_PortNo := UniPortNo subs, fl_SymmetricFlowId := symmetricFlowID,
           fl_ReplicateFlow := replicateFlow, fl_PbitToGemport := pbitToGem\<rparr>)"

text \<open>Sending a flow of a subscriber: an existing flow is fine, any other error becomes FLOW\_ADD\_FAILED.\<close>

definition send_flow :: "Flow \<Rightarrow> go_error option prog" where
  "send_flow flow =
     Call (FlowAdd flow) (\<lambda>err.
       if status_code err = AlreadyExists then Ret None
       else if err \<noteq> None then fail_with FLOW_ADD_FAILED
       else Ret None)"

definition AddFlow ::
  "Subscriber \<Rightarrow> string \<Rightarrow> string \<Rightarrow> uint64 \<Rightarrow> uint32 \<Rightarrow> uint32 \<Rightarrow> uint32 \<Rightarrow> bool \<Rightarrow> uint64 \<Rightarrow>
   (uint32 \<rightharpoonup> uint32) \<Rightarrow> go_error option prog" where
  "AddFlow subs flowType direction flowID allocID gemID pcp replicateFlow symmetricFlowID pbitToGem =
     send_flow (subscriber_flow subs (FormatClassfierAction flowType direction subs) direction flowID
       allocID gemID pcp replicateFlow symmetricFlowID pbitToGem)"

text \<open>
  A trap flow on the NNI: not tied to a subscriber (all of its identifiers are -1), and errors of the
  device are passed on as they are.
\<close>

definition nni_trap_flow :: "OpenOltScaleTesterConfig \<Rightarrow> Classifier \<Rightarrow> uint64 \<Rightarrow> Flow" where
  "nni_trap_flow config flowClassifier flowID =
     Flow_zero\<lparr>fl_AccessIntfId := -1, fl_OnuId := -1, fl_UniId := -1, fl_FlowId := flowID,
       fl_FlowType := ''downstream'', fl_AllocId := -1, fl_GemportId := -1,
       fl_Classifier := Some flowClassifier,
       fl_Action := Some (Action_zero\<lparr>ac_Cmd := Some (ActionCmd_zero\<lparr>cmd_TrapToHost := True\<rparr>)\<rparr>),
       fl_Priority := 1000, fl_PortNo := uint32_of_uint (NniIntfID config)\<rparr>"

definition send_raw_flow :: "Flow \<Rightarrow> go_error option prog" where
  "send_raw_flow flow =
     Call (FlowAdd flow) (\<lambda>err. if status_code err = AlreadyExists then Ret None else Ret err)"

definition AddLldpFlow :: "OpenOltScaleTesterConfig \<Rightarrow> OpenOltResourceMgr \<Rightarrow> go_error option prog" where
  "AddLldpFlow config rsrMgr =
     bindp (GetFlowID rsrMgr (uint32_of_uint (NniIntfID config))) (\<lambda>(flowID, err).
     (case err of
        Some e \<Rightarrow> Ret (Some e)
      | None \<Rightarrow> send_raw_flow (nni_trap_flow config
          (Classifier_zero\<lparr>cl_EthType := 35020, cl_PktTagType := ''untagged''\<rparr>) flowID)))"

section \<open>MAC addresses\<close>

definition MacSize :: nat where "MacSize = 6"
definition MacMin :: nat where "MacMin = 0"
definition MacMax :: nat where "MacMax = 0xFF"

fun rand_bytes :: "nat \<Rightarrow> uint8 list prog" where
  "rand_bytes 0 = Ret []"
| "rand_bytes (Suc n) =
     Rand (MacMax - MacMin) (\<lambda>r. bindp (rand_bytes n) (\<lambda>mac. Ret (of_nat (r + MacMin) # mac)))"

definition GenerateMac :: "bool \<Rightarrow> uint8 list prog" where
  "GenerateMac isRand =
     (if isRand then rand_bytes MacSize else Ret [0x12, 0xAB, 0x34, 0xCD, 0x56, 0xEF])"

definition GenerateMulticastMac :: "uint32 \<Rightarrow> uint32 \<Rightarrow> uint8 list prog" where
  "GenerateMulticastMac onu_id group_id =
     Rand (MacMax - MacMin) (\<lambda>r.
     Ret ([0x01, 0x00, 0x5E] @ [ucast (onu_id mod 255)] @ [of_nat (r + MacMin)] @ [ucast group_id]))"

section \<open>Multicast groups\<close>

record GroupData =
  gd_Subs :: Subscriber
  gd_GroupID :: uint32
  gd_Weight :: uint32
  gd_Priority :: uint32
  gd_OnuID :: uint32
  gd_UniID :: uint32
  gd_AllocID :: uint32
  gd_GemPortID :: uint32
  gd_SchedPolicy :: SchedulingPolicy
  gd_AddGroup :: bool
  gd_AddFlow :: bool
  gd_AddSched :: bool
  gd_AddQueue :: bool
  gd_AddMember :: bool

text \<open>The empty response of a successful call is dropped; what is left is the error.\<close>

definition PerformGroupOperation :: "GroupData \<Rightarrow> Group \<Rightarrow> go_error option prog" where
  "PerformGroupOperation grp groupCfg = Call (PerformGroupOp groupCfg) Ret"

definition CreateGroup :: "GroupData \<Rightarrow> go_error option prog" where
  "CreateGroup grp =
     PerformGroupOperation grp
       \<lparr>gr_GroupId = gd_GroupID grp, gr_Command = SET_MEMBERS, gr_Members = [], gr_Action = None\<rparr>"

definition OpMulticastTrafficQueue :: "GroupData \<Rightarrow> bool \<Rightarrow> go_error option prog" where
  "OpMulticastTrafficQueue grp isCreating =
     (let trafficQueue = TrafficQueue_zero\<lparr>tq_Direction := DOWNSTREAM, tq_Priority := gd_Priority grp,
            tq_Weight := gd_Weight grp, tq_GemportId := gd_GemPortID grp,
            tq_SchedPolicy := gd_SchedPolicy grp\<rparr>;
          request = TrafficQueues_zero\<lparr>tqs_IntfId := PonIntf (gd_Subs grp), tqs_OnuId := OnuID (gd_Subs grp),
            tqs_UniId := UniID (gd_Subs grp), tqs_TrafficQueues := [trafficQueue]\<rparr>
      in if isCreating then Call (CreateTrafficQueues request) Ret
         else Call (RemoveTrafficQueues request) Ret)"

definition AddMulticastFlow :: "GroupData \<Rightarrow> go_error option prog" where
  "AddMulticastFlow grp =
     (let subs = gd_Subs grp; config = TestConfig subs; rsrMgr = RsrMgr subs
      in bindp (GetFlowID rsrMgr (uint32_of_uint (NniIntfID config))) (\<lambda>(flowID, err).
         (case err of
            Some e \<Rightarrow> Ret (Some e)
          | None \<Rightarrow>
              bindp (GenerateMulticastMac (OnuID subs) (gd_GroupID grp)) (\<lambda>mac.
              let flowClassifier = Classifier_zero\<lparr>cl_IPbits := 255, cl_OPbits := 255, cl_IVid := 55,
                    cl_OVid := 255, cl_DstMac := mac, cl_PktTagType := DoubleTag\<rparr>;
                  flow = Flow_zero\<lparr>fl_AccessIntfId := int32_of (PonIntf subs), fl_OnuId := int32_of (OnuID subs),
                    fl_UniId := int32_of (UniID subs), fl_FlowId := flowID, fl_FlowType := ''multicast'',
                    fl_AllocId := int32_of (gd_AllocID grp), fl_GemportId := int32_of (gd_GemPortID grp),
                    fl_Classifier := Some flowClassifier, fl_Priority := int32_of (gd_Priority grp),
                    fl_PortNo := UniPortNo subs, fl_GroupId := gd_GroupID grp\<rparr>
              in send_raw_flow flow))))"

definition AddMulticastSched :: "GroupData \<Rightarrow> go_error option prog" where
  "AddMulticastSched grp =
     (let subs = gd_Subs grp;
          SchedCfg = \<lparr>sc_Direction = DOWNSTREAM, sc_AdditionalBw = AdditionalBW_BestEffort,
            sc_Priority = gd_Priority grp, sc_Weight = gd_Weight grp, sc_SchedPolicy = WRR\<rparr>;
          cir = 1948; cbs = 31768; eir = 100; ebs = 1000; pir = cir + eir; pbs = cbs + ebs;
          TfShInfo = TrafficShapingInfo_zero\<lparr>sh_Cir := cir, sh_Cbs := cbs, sh_Pir := pir, sh_Pbs := pbs\<rparr>
      in bindp (tp_pointer subs) (\<lambda>inst.
         bindp (GetTrafficScheduler inst SchedCfg TfShInfo) (\<lambda>s.
         Call (CreateTrafficSchedulers
             \<lparr>tss_IntfId = PonIntf subs, tss_OnuId = OnuID subs, tss_UniId = UniID subs,
              tss_PortNo = UniPortNo subs, tss_TrafficScheds = [s]\<rparr>)
           (\<lambda>err. if err \<noteq> None then fail_with SCHED_CREATION_FAILED else Ret None))))"

definition OpMemberToGroup :: "GroupData \<Rightarrow> bool \<Rightarrow> go_error option prog" where
  "OpMemberToGroup grp isAdding =
     (let member0 = \<lparr>gm_InterfaceId = PonIntf (gd_Subs grp), gm_InterfaceType = GM_PON,
            gm_GemPortId = gd_GemPortID grp, gm_Priority = gd_Priority grp\<rparr>
      in PerformGroupOperation grp
           \<lparr>gr_GroupId = gd_GroupID grp,
            gr_Command = (if isAdding then ADD_MEMBERS else REMOVE_MEMBERS),
            gr_Members = [member0], gr_Action = None\<rparr>)"

definition when_p :: "bool \<Rightarrow> go_error option prog \<Rightarrow> go_error option prog" where
  "when_p b m = (if b then m else Ret None)"

definition AddMulticastQueueFlow :: "GroupData \<Rightarrow> go_error option prog" where
  "AddMulticastQueueFlow grp =
     and_then (when_p (gd_AddGroup grp) (CreateGroup grp))
    (and_then (when_p (gd_AddFlow grp) (AddMulticastFlow grp))
    (and_then (when_p (gd_AddSched grp) (AddMulticastSched grp))
    (and_then (when_p (gd_AddQueue grp) (OpMulticastTrafficQueue grp True))
              (when_p (gd_AddMember grp) (OpMemberToGroup grp True)))))"

section \<open>Retrying senders\<close>

definition maxRetry :: nat where "maxRetry = 20"

text \<open>The loops take the number of attempts left.\<close>

fun retry_call :: "nat \<Rightarrow> rpc \<Rightarrow> string \<Rightarrow> go_error option prog" where
  "retry_call 0 r msg = Ret (Some (ErrorString msg))"
| "retry_call (Suc n) r msg = Call r (\<lambda>err. if err \<noteq> None then retry_call n r msg else Ret None)"

definition CreateTrafficSchedWithRetry :: "TrafficSchedulers \<Rightarrow> go_error option prog" where
  "CreateTrafficSchedWithRetry sched =
     Call (CreateTrafficSchedulers sched) (\<lambda>err. if err = None then Ret None
       else retry_call maxRetry (CreateTrafficSchedulers sched) ''failed-to-create-traffic-sched-after-all-retries'')"

definition CreateTrafficQueuesWithRetry :: "TrafficQueues \<Rightarrow> go_error option prog" where
  "CreateTrafficQueuesWithRetry queue =
     Call (CreateTrafficQueues queue) (\<lambda>err. if err = None then Ret None
       else retry_call maxRetry (CreateTrafficQueues queue) ''failed-to-create-traffic-queue-after-all-retries'')"

fun retry_flow :: "nat \<Rightarrow> Flow \<Rightarrow> go_error option \<Rightarrow> go_error option prog" where
  "retry_flow 0 flow err = Ret err"
| "retry_flow (Suc n) flow err =
     Call (FlowAdd flow) (\<lambda>err'.
       if status_code err' = ResourceExhausted then retry_flow n flow err'
       else if status_code err' = OK then Ret None
       else retry_flow n flow err')"

definition AddFlowWithRetry :: "Flow \<Rightarrow> go_error option prog" where
  "AddFlowWithRetry flow =
     Call (FlowAdd flow) (\<lambda>err.
       if status_code err = AlreadyExists then Ret None
       else if status_code err = ResourceExhausted then retry_flow maxRetry flow err
       else Ret err)"

section \<open>What a request is about\<close>

text \<open>The requests that carry the identity of a subscriber, and the errors its workflow reports.\<close>

fun for_subscriber :: "Subscriber \<Rightarrow> rpc \<Rightarrow> bool" where
  "for_subscriber subs (CreateTrafficSchedulers t) =
     (tss_IntfId t = PonIntf subs \<and> tss_OnuId t = OnuID subs \<and> tss_UniId t = UniID subs \<and>
      tss_PortNo t = UniPortNo subs)"
| "for_subscriber subs (CreateTrafficQueues q) =
     (tqs_IntfId q = PonIntf subs \<and> tqs_OnuId q = OnuID subs \<and> tqs_UniId q = UniID subs)"
| "for_subscriber subs (RemoveTrafficQueues q) = False"
| "for_subscriber subs (FlowAdd f) =
     (fl_AccessIntfId f = int32_of (PonIntf subs) \<and> fl_OnuId f = int32_of (OnuID subs) \<and>
      fl_UniId f = int32_of (UniID subs) \<and> fl_PortNo f = UniPortNo subs)"
| "for_subscriber subs (PerformGroupOp g) =
     (gr_GroupId g = OnuID subs \<and> (\<forall>m \<in> set (gr_Members g). gm_InterfaceId m = PonIntf subs))"
| "for_subscriber subs (ActivateOnu r) = False"

definition reason_error :: "go_error option \<Rightarrow> bool" where
  "reason_error err \<longleftrightarrow> (case err of None \<Rightarrow> True | Some e \<Rightarrow> \<exists>s \<in> set Reason. e = ErrorString s)"

abbreviation safe_for :: "Subscriber \<Rightarrow> go_error option prog \<Rightarrow> bool" where
  "safe_for subs \<equiv> safe (for_subscriber subs) reason_error"

section \<open>Lemmas\<close>

lemma reason_error_simps [simp]:
  "reason_error None"
  "reason_error (Some (ErrorString s)) \<longleftrightarrow> s \<in> set Reason"
  by (simp_all add: reason_error_def)

lemma set_Reason [simp]:
  "''FLOW_ID_GENERATION_FAILED'' \<in> set Reason" "''FLOW_ADD_FAILED'' \<in> set Reason"
  "''SCHED_CREATION_FAILED'' \<in> set Reason" "''QUEUE_CREATION_FAILED'' \<in> set Reason"
  by (simp_all add: Reason_def)

lemma for_subscriber_flow [simp]:
  "for_subscriber subs (FlowAdd (subscriber_flow subs ca dir fid alloc gem pcp rep smf m))"
  by (simp add: subscriber_flow_def Let_def)

lemma subscriber_flow_id [simp]:
  "fl_FlowId (subscriber_flow subs ca dir fid alloc gem pcp rep smf m) = fid"
  "fl_AccessIntfId (subscriber_flow subs ca dir fid alloc gem pcp rep smf m) = int32_of (PonIntf subs)"
  "fl_OnuId (subscriber_flow subs ca dir fid alloc gem pcp rep smf m) = int32_of (OnuID subs)"
  "fl_UniId (subscriber_flow subs ca dir fid alloc gem pcp rep smf m) = int32_of (UniID subs)"
  "fl_PortNo (subscriber_flow subs ca dir fid alloc gem pcp rep smf m) = UniPortNo subs"
  "fl_SymmetricFlowId (subscriber_flow subs ca dir fid alloc gem pcp rep smf m) = smf"
  "fl_FlowType (subscriber_flow subs ca dir fid alloc gem pcp rep smf m) = dir"
  "fl_PbitToGemport (subscriber_flow subs ca dir fid alloc gem pcp rep smf m) = m"
  by (simp_all add: subscriber_flow_def Let_def)

definition flow_result :: "go_error option \<Rightarrow> go_error option" where
  "flow_result err =
     (if err = None \<or> status_code err = AlreadyExists then None else Some (ErrorString ''FLOW_ADD_FAILED''))"

lemma run_send_flow [go_run]:
  "run E (send_flow f) w =
     (Done (flow_result (reply E (sent w) (FlowAdd f))), w\<lparr>sent := sent w @ [FlowAdd f]\<rparr>)"
  by (auto simp: send_flow_def flow_result_def)

lemma safe_send_flow [go_safe]: "P (FlowAdd f) \<Longrightarrow> safe P reason_error (send_flow f)"
  by (simp add: send_flow_def)

lemma safe_AddFlow [go_safe]:
  "safe_for subs (AddFlow subs ft dir fid alloc gem pcp rep smf m)"
  unfolding AddFlow_def by (rule safe_send_flow) simp

lemma getTrafficSched_ready:
  assumes "ready subs"
  shows "\<exists>s. getTrafficSched subs dir = Ret (Some [s])"
proof -
  obtain us ds where "tp_UsScheduler (the_tp subs) = Some us" "tp_DsScheduler (the_tp subs) = Some ds"
    using assms by (rule ready_schedulers)
  then show ?thesis
    by (simp add: getTrafficSched_def ready_pointer [OF assms] GetTrafficScheduler_Some Let_def)
qed

lemma getTrafficQueues_ready:
  assumes "ready subs" "dir \<noteq> BIDIRECTIONAL"
  shows "\<exists>qs. getTrafficQueues subs dir = Ret (Some qs)"
  using assms by (cases dir) (simp_all add: getTrafficQueues_def ready_pointer GetTrafficQueues_def)

lemma safe_getTrafficSched [go_safe]:
  "ready subs \<Longrightarrow> safe P (\<lambda>ts. ts \<noteq> None) (getTrafficSched subs dir)"
  using getTrafficSched_ready [of subs dir] by auto

lemma safe_getTrafficQueues [go_safe]:
  "ready subs \<Longrightarrow> dir \<noteq> BIDIRECTIONAL \<Longrightarrow> safe P (\<lambda>ts. ts \<noteq> None) (getTrafficQueues subs dir)"
  using getTrafficQueues_ready [of subs dir] by auto

lemma safe_rand_bytes [go_safe]: "safe P (\<lambda>bs. length bs = n) (rand_bytes n)"
proof (induction n)
  case (Suc n)
  then show ?case by (auto simp: MacMax_def MacMin_def intro: safe_bindp)
qed simp

lemma safe_GenerateMac [go_safe]: "safe P (\<lambda>mac. length mac = 6) (GenerateMac b)"
  using safe_rand_bytes [of P MacSize] by (simp add: GenerateMac_def MacSize_def)

lemma safe_GenerateMulticastMac [go_safe]: "safe P (\<lambda>mac. length mac = 6) (GenerateMulticastMac onu g)"
  by (simp add: GenerateMulticastMac_def MacMax_def MacMin_def)

lemma run_rand_bytes:
  "\<exists>bs w'. run E (rand_bytes n) w = (Done bs, w\<lparr>draws := draws w + n\<rparr>) \<and> length bs = n"
proof (induction n arbitrary: w)
  case (Suc n)
  from Suc [of "w\<lparr>draws := Suc (draws w)\<rparr>"] show ?case by (auto simp: run_bindp)
qed simp

lemma safe_when_p [go_safe]: "safe_for subs m \<Longrightarrow> safe_for subs (when_p b m)"
  by (simp add: when_p_def)

end
