(* ===== verification/Pbit_Map.thy ===== *)
theory Pbit_Map
  imports Workflow_Utils
begin

text \<open>
  The loops over the priority bits of a technology profile, which every flow-installing operation of the
  three workflows repeats: for each upstream GEM port, in order, and each position of its bit map string
  after the prefix \<open>0b\<close>, a '1' selects the priority (PCP) that the position stands for, the last
  character being priority 0. \<open>gem_pbits\<close> is the list of the pairs of priority and GEM port that the
  loop bodies are entered with; the ATT and DT workflows store them in a map, the TT workflow installs flows
  for each.

  The lemmas characterise the map (the last GEM port that claims a priority gets it) and compare it with
  the lookup of the technology profile library.
\<close>

section \<open>Definitions\<close>

text \<open>The inner loop: \<open>n\<close> is the length of the trimmed string, \<open>pos\<close> the current position.\<close>

fun scan_pbits :: "nat \<Rightarrow> nat \<Rightarrow> string \<Rightarrow> uint32 list" where
  "scan_pbits n pos [] = []"
| "scan_pbits n pos (pbitSet # cs) =
     (if pbitSet = CHR ''1'' then (of_nat n - 1 - of_nat pos) # scan_pbits n (Suc pos) cs
      else scan_pbits n (Suc pos) cs)"

definition set_pbits :: "string \<Rightarrow> uint32 list" where
  "set_pbits pBitMap = (let t = TrimPrefix pBitMap ''0b'' in scan_pbits (length t) 0 t)"

definition gem_pbits :: "GemPortAttributes list \<Rightarrow> (uint32 \<times> uint32) list" where
  "gem_pbits gems = concat (map (\<lambda>g. map (\<lambda>pcp. (pcp, gp_GemportId g)) (set_pbits (gp_PbitMap g))) gems)"

text \<open>\<open>pbitToGem[pcp] = gemID\<close> for each pair in turn.\<close>

definition pbit_to_gem :: "GemPortAttributes list \<Rightarrow> (uint32 \<rightharpoonup> uint32)" where
  "pbit_to_gem gems = foldl (\<lambda>m (pcp, gemID). m(pcp \<mapsto> gemID)) Map.empty (gem_pbits gems)"

text \<open>
  The lookup of the technology profile library (\<open>GetGemportForPbit\<close>, upstream): the first GEM port
  whose map has the bit, counting from the end of the string and never into its first two characters.
\<close>

definition lib_pbit :: "string \<Rightarrow> uint32 \<Rightarrow> bool" where
  "lib_pbit s pbit = list_ex (\<lambda>idx. of_nat (idx - 2) = pbit \<and> Atoi [s ! (length s - idx + 1)] = Some 1) [2..<length s]"

definition GetGemportForPbit :: "GemPortAttributes list \<Rightarrow> uint32 \<Rightarrow> GemPortAttributes option" where
  "GetGemportForPbit gems pbit = find (\<lambda>g. lib_pbit (gp_PbitMap g) pbit) gems"

text \<open>A well-formed bit map, as the technology profiles have them: the prefix and eight binary digits.\<close>

definition pbit_string :: "string \<Rightarrow> bool" where
  "pbit_string s \<longleftrightarrow> take 2 s = ''0b'' \<and> length s = 10 \<and>
     list_all (\<lambda>c. c = CHR ''0'' \<or> c = CHR ''1'') (drop 2 s)"

text \<open>Bit \<open>pcp\<close> of a map, read off the string.\<close>

definition has_pbit :: "string \<Rightarrow> nat \<Rightarrow> bool" where
  "has_pbit s k \<longleftrightarrow> (let t = TrimPrefix s ''0b'' in k < length t \<and> t ! (length t - 1 - k) = CHR ''1'')"

text \<open>A GEM port of a sample profile, for the evaluations.\<close>

definition sample_gem :: "uint32 \<Rightarrow> string \<Rightarrow> GemPortAttributes" where
  "sample_gem gemID bits =
     \<lparr>gp_GemportId = gemID, gp_MaxQSize = ''auto'', gp_PbitMap = bits, gp_AesEncryption = ''True'',
      gp_SchedulingPolicy = WRR, gp_PriorityQ = 4, gp_Weight = 10, gp_DiscardPolicy = TailDrop,
      gp_DiscardConfig = None,
      gp_IsMulticast = ''False'', gp_MulticastGemId = 0, gp_DynamicAccessControlList = [],
      gp_StaticAccessControlList = []\<rparr>"

section \<open>Lemmas\<close>

lemma set_scan_pbits:
  "x \<in> set (scan_pbits n pos cs) \<longleftrightarrow>
     (\<exists>i<length cs. cs ! i = CHR ''1'' \<and> x = of_nat n - 1 - of_nat (pos + i))"
proof (induction n pos cs rule: scan_pbits.induct)
  case (2 n pos c cs)
  have "(\<exists>i<length (c # cs). (c # cs) ! i = CHR ''1'' \<and> x = of_nat n - 1 - of_nat (pos + i)) \<longleftrightarrow>
     c = CHR ''1'' \<and> x = of_nat n - 1 - of_nat pos \<or>
     (\<exists>i<length cs. cs ! i = CHR ''1'' \<and> x = of_nat n - 1 - of_nat (Suc pos + i))"
    by (simp add: Ex_less_Suc2)
  with 2 show ?case by simp
qed simp

lemma of_nat_pcp:
  assumes "i < n"
  shows "(of_nat n - 1 - of_nat i :: uint32) = of_nat (n - 1 - i)"
  using assms by (simp add: of_nat_diff)

lemma set_set_pbits: "x \<in> set (set_pbits s) \<longleftrightarrow> (\<exists>k. has_pbit s k \<and> x = of_nat k)"
proof -
  define t where "t = TrimPrefix s ''0b''"
  have "x \<in> set (set_pbits s) \<longleftrightarrow>
      (\<exists>i<length t. t ! i = CHR ''1'' \<and> x = of_nat (length t - 1 - i))"
    using of_nat_pcp [of _ "length t"]
    unfolding set_pbits_def t_def [symmetric] Let_def set_scan_pbits add_0 by metis
  also have "\<dots> \<longleftrightarrow> (\<exists>k<length t. t ! (length t - 1 - k) = CHR ''1'' \<and> x = of_nat k)"
    (is "?L \<longleftrightarrow> ?R")
  proof
    assume ?L
    then obtain i where i: "i < length t" "t ! i = CHR ''1''" "x = of_nat (length t - 1 - i)" by auto
    then have "length t - 1 - i < length t \<and> length t - 1 - (length t - 1 - i) = i" by simp
    with i show ?R by (intro exI [of _ "length t - 1 - i"]) simp
  next
    assume ?R
    then obtain k where k: "k < length t" "t ! (length t - 1 - k) = CHR ''1''" "x = of_nat k" by auto
    then have "length t - 1 - k < length t \<and> length t - 1 - (length t - 1 - k) = k" by simp
    with k show ?L by (intro exI [of _ "length t - 1 - k"]) simp
  qed
  finally show ?thesis by (simp add: has_pbit_def t_def Let_def)
qed

lemma foldl_update: "foldl (\<lambda>m (k, v). m(k \<mapsto> v)) m xs = m ++ map_of (rev xs)"
  by (induction xs rule: rev_induct) (auto simp: split_beta map_add_def fun_eq_iff)

lemma pbit_to_gem_map_of: "pbit_to_gem gems = map_of (rev (gem_pbits gems))"
  by (simp add: pbit_to_gem_def foldl_update)

lemma gem_pbits_append: "gem_pbits (gs @ hs) = gem_pbits gs @ gem_pbits hs"
  by (simp add: gem_pbits_def)

lemma map_of_const_pairs: "map_of (rev (map (\<lambda>p. (p, g)) ps)) k = (if k \<in> set ps then Some g else None)"
  by (induction ps rule: rev_induct) auto

lemma pbit_to_gem_snoc:
  "pbit_to_gem (gs @ [g]) k = (if k \<in> set (set_pbits (gp_PbitMap g)) then Some (gp_GemportId g) else pbit_to_gem gs k)"
proof -
  have "gem_pbits [g] = map (\<lambda>p. (p, gp_GemportId g)) (set_pbits (gp_PbitMap g))"
    by (simp add: gem_pbits_def)
  then show ?thesis
    by (simp add: pbit_to_gem_map_of gem_pbits_append map_add_def map_of_const_pairs split: option.split)
qed

lemma pbit_to_gem_find:
  "pbit_to_gem gems k = map_option gp_GemportId (find (\<lambda>g. k \<in> set (set_pbits (gp_PbitMap g))) (rev gems))"
proof (induction gems rule: rev_induct)
  case Nil
  show ?case by (simp add: pbit_to_gem_def gem_pbits_def)
next
  case (snoc g gems)
  then show ?case by (simp add: pbit_to_gem_snoc)
qed

lemma pbit_string_bits:
  assumes "pbit_string s"
  shows "has_pbit s k \<longleftrightarrow> k < 8 \<and> s ! (9 - k) = CHR ''1''"
proof -
  have s: "s = ''0b'' @ drop 2 s" "length (drop 2 s) = 8"
    using assms append_take_drop_id [of 2 s] by (auto simp: pbit_string_def)
  then have "TrimPrefix s ''0b'' = drop 2 s" 
    using assms by (simp add: TrimPrefix_def pbit_string_def numeral_2_eq_2)
  moreover have "drop 2 s ! (7 - k) = s ! (9 - k)" if "k < 8"
  proof -
    have "Suc (Suc (7 - k)) = 9 - k" using that by arith
    with s(2) show ?thesis by simp
  qed
  ultimately show ?thesis using s(2) by (auto simp: has_pbit_def Let_def)
qed

lemma Atoi_binary:
  "c = CHR ''0'' \<or> c = CHR ''1'' \<Longrightarrow> Atoi [c] = Some 1 \<longleftrightarrow> c = CHR ''1''"
  by (auto simp: Atoi_def parse_uint_def digit_val_def Let_def)

lemma lib_pbit_string:
  assumes "pbit_string s"
  shows "lib_pbit s k \<longleftrightarrow> k \<in> set (set_pbits s)"
proof -
  have len: "length s = 10" using assms by (simp add: pbit_string_def)
  have bin: "s ! j = CHR ''0'' \<or> s ! j = CHR ''1''" if "2 \<le> j" "j < 10" for j
  proof -
    have "(drop 2 s) ! (j - 2) = s ! j" using that len by (simp add: le_add_diff_inverse del: add_2_eq_Suc)
    moreover have "(drop 2 s) ! (j - 2) = CHR ''0'' \<or> (drop 2 s) ! (j - 2) = CHR ''1''"
      using assms that by (auto simp: pbit_string_def list_all_length)
    ultimately show ?thesis by simp
  qed
  have "lib_pbit s k \<longleftrightarrow> (\<exists>i<8. of_nat i = k \<and> s ! (9 - i) = CHR ''1'')"
  proof
    assume "lib_pbit s k"
    then obtain j where j: "2 \<le> j" "j < 10" "of_nat (j - 2) = k" "Atoi [s ! (10 - j + 1)] = Some 1"
      unfolding lib_pbit_def list_ex_iff len set_upt by auto
    then have "s ! (9 - (j - 2)) = CHR ''1''"
      using Atoi_binary [OF bin [of "10 - j + 1"]] by (simp add: Suc_diff_le [symmetric])
    with j show "\<exists>i<8. of_nat i = k \<and> s ! (9 - i) = CHR ''1''" by (intro exI [of _ "j - 2"]) simp
  next
    assume "\<exists>i<8. of_nat i = k \<and> s ! (9 - i) = CHR ''1''"
    then obtain i where i: "i < 8" "of_nat i = k" "s ! (9 - i) = CHR ''1''" by auto
    have "s ! (10 - (i + 2) + 1) = s ! (9 - i)" using i(1) by (intro arg_cong [of _ _ "(!) s"]) simp
    with i have "Atoi [s ! (10 - (i + 2) + 1)] = Some 1"
      using Atoi_binary [OF bin [of "9 - i"]] by simp
    then have "of_nat (i + 2 - 2) = k \<and> Atoi [s ! (length s - (i + 2) + 1)] = Some 1"
      using i by (simp add: len)
    moreover have "i + 2 \<in> set [2..<length s]" unfolding set_upt len using i(1) by simp
    ultimately show "lib_pbit s k" unfolding lib_pbit_def list_ex_iff by blast
  qed
  also have "\<dots> \<longleftrightarrow> (\<exists>i. has_pbit s i \<and> k = of_nat i)"
    by (auto simp: pbit_string_bits [OF assms])
  finally show ?thesis by (simp add: set_set_pbits)
qed

lemma find_rev_unique:
  assumes "\<And>i j. i < j \<Longrightarrow> j < length xs \<Longrightarrow> P (xs ! i) \<Longrightarrow> \<not> P (xs ! j)"
  shows "find P (rev xs) = find P xs"
  using assms
proof (induction xs)
  case (Cons x xs)
  have "find P (rev xs) = find P xs"
    using Cons.prems [of "Suc _" "Suc _"] by (intro Cons.IH) simp
  moreover have "P x \<Longrightarrow> find P xs = None"
    using Cons.prems [of 0 "Suc _"] by (auto simp: find_None_iff in_set_conv_nth)
  moreover have "find P (ys @ [x]) = (case find P ys of None \<Rightarrow> if P x then Some x else None | r \<Rightarrow> r)" for ys
    by (induction ys) auto
  ultimately show ?case by (auto split: option.split)
qed simp

section \<open>Properties\<close>

text \<open>
  The map that the ATT and DT flows carry sends a priority to the last upstream GEM port, in the order
  of the profile, whose bit map has that bit, and has no entry for a priority no port claims.
\<close>

lemma pbit_to_gem_last_claim:
  "pbit_to_gem gems k =
     map_option gp_GemportId (find (\<lambda>g. \<exists>j. has_pbit (gp_PbitMap g) j \<and> k = of_nat j) (rev gems))"
  by (simp add: pbit_to_gem_find set_set_pbits)

text \<open>
  C36: on well-formed bit maps (the prefix and eight binary digits) in which no two ports claim the same
  priority, the map agrees for every priority with the lookup of the technology profile library, which
  scans the strings from the end and takes the first port.
\<close>

theorem pbit_to_gem_agrees_with_library:
  assumes "\<And>g. g \<in> set gems \<Longrightarrow> pbit_string (gp_PbitMap g)"
    and "\<And>i j. i < j \<Longrightarrow> j < length gems \<Longrightarrow>
      set (set_pbits (gp_PbitMap (gems ! i))) \<inter> set (set_pbits (gp_PbitMap (gems ! j))) = {}"
  shows "pbit_to_gem gems k = map_option gp_GemportId (GetGemportForPbit gems k)"
proof -
  have "find (\<lambda>g. k \<in> set (set_pbits (gp_PbitMap g))) (rev gems) =
      find (\<lambda>g. k \<in> set (set_pbits (gp_PbitMap g))) gems"
    using assms(2) by (intro find_rev_unique) blast
  also have "\<dots> = GetGemportForPbit gems k"
    unfolding GetGemportForPbit_def using assms(1) by (intro find_cong) (simp_all add: lib_pbit_string)
  finally show ?thesis by (simp add: pbit_to_gem_find)
qed

theorem pbit_to_gem_agrees_with_library_witness:
  "pbit_to_gem [sample_gem 1024 ''0b00000101'', sample_gem 1025 ''0b11111010''] 3 = Some 1025 \<and>
   map_option gp_GemportId
     (GetGemportForPbit [sample_gem 1024 ''0b00000101'', sample_gem 1025 ''0b11111010''] 3) = Some 1025"
proof -
  let ?gems = "[sample_gem 1024 ''0b00000101'', sample_gem 1025 ''0b11111010'']"
  have "pbit_to_gem ?gems 3 = Some 1025"
    by (simp add: pbit_to_gem_def gem_pbits_def set_pbits_def TrimPrefix_def sample_gem_def)
  moreover have "pbit_to_gem ?gems 3 = map_option gp_GemportId (GetGemportForPbit ?gems 3)"
    by (rule pbit_to_gem_agrees_with_library)
      (auto simp: sample_gem_def pbit_string_def set_pbits_def TrimPrefix_def less_Suc_eq)
  ultimately show ?thesis by simp
qed

end
