(* ===== verification/Provisioning.thy ===== *)
theory Provisioning
  imports Pbit_Map
begin

text \<open>
  What the three operator workflows have in common, and the specification they are measured against.

  The sources repeat the same scheduler and queue requests and the same flow preamble in every workflow;
  they are translated once here, and each workflow theory instantiates them.

  The specification is a \<open>plan\<close>: the requests a workflow must send, in order, cut into groups. A
  client that plays a plan sends the requests of a group one by one, whatever the answers, and stops after the
  first group in which a request was refused, reporting the reason of the first refused request of that
  group. \<open>follows\<close> says that a program, run alone, does exactly that for every behaviour of the device:
  same requests, same order, same verdict, and the right number of flow IDs used up. Its rules let the plan
  of a workflow be assembled from the plans of its operations.
\<close>

section \<open>Schedulers and queues\<close>

definition create_scheds :: "Subscriber \<Rightarrow> Direction \<Rightarrow> go_error option prog" where
  "create_scheds subs direction =
     bindp (getTrafficSched subs direction) (\<lambda>trafficSched.
     (case trafficSched of
        None \<Rightarrow> fail_with SCHED_CREATION_FAILED
      | Some ts \<Rightarrow>
          Call (CreateTrafficSchedulers
              \<lparr>tss_IntfId = PonIntf subs, tss_OnuId = OnuID subs, tss_UniId = UniID subs,
               tss_PortNo = UniPortNo subs, tss_TrafficScheds = ts\<rparr>)
            (\<lambda>err. if err \<noteq> None then fail_with SCHED_CREATION_FAILED else Ret None)))"

definition provision_scheds :: "Subscriber \<Rightarrow> go_error option prog" where
  "provision_scheds subs = and_then (create_scheds subs DOWNSTREAM) (create_scheds subs UPSTREAM)"

definition create_queues :: "Subscriber \<Rightarrow> Direction \<Rightarrow> go_error option prog" where
  "create_queues subs direction =
     bindp (getTrafficQueues subs direction) (\<lambda>trafficQueues.
     (case trafficQueues of
        None \<Rightarrow> fail_with QUEUE_CREATION_FAILED
      | Some qs \<Rightarrow>
          Call (CreateTrafficQueues
              (TrafficQueues_zero\<lparr>tqs_IntfId := PonIntf subs, tqs_OnuId := OnuID subs, tqs_UniId := UniID subs,
               tqs_PortNo := UniPortNo subs, tqs_TrafficQueues := qs\<rparr>))
            (\<lambda>err. if err \<noteq> None then fail_with QUEUE_CREATION_FAILED else Ret None)))"

definition provision_queues :: "Subscriber \<Rightarrow> go_error option prog" where
  "provision_queues subs = and_then (create_queues subs DOWNSTREAM) (create_queues subs UPSTREAM)"

section \<open>Preamble of the flow operations\<close>

text \<open>
  \<open>subs.TpInstance[subs.TestConfig.TpIDList[0]].UsScheduler.AllocId\<close> and the upstream GEM port list of
  the same instance.
\<close>

definition alloc_and_gems :: "Subscriber \<Rightarrow> (uint32 \<times> GemPortAttributes list) prog" where
  "alloc_and_gems subs =
     bindp (tp_pointer subs) (\<lambda>p.
     bindp (deref NilDereference p) (\<lambda>inst.
     bindp (deref NilDereference (tp_UsScheduler inst)) (\<lambda>us.
     Ret (sa_AllocId us, tp_UpstreamGemPortAttributeList inst))))"

text \<open>\<open>if flowID, err = subs.RsrMgr.GetFlowID(...); err != nil \<open> return errors.New(...) \<close>\<close>.\<close>

definition with_flow_id :: "Subscriber \<Rightarrow> (uint64 \<Rightarrow> go_error option prog) \<Rightarrow> go_error option prog" where
  "with_flow_id subs k =
     bindp (GetFlowID (RsrMgr subs) (PonIntf subs)) (\<lambda>(flowID, err).
     (case err of Some e \<Rightarrow> fail_with FLOW_ID_GENERATION_FAILED | None \<Rightarrow> k flowID))"

section \<open>The DHCP trap flow on the NNI\<close>

definition dhcp_trap_classifier :: Classifier where
  "dhcp_trap_classifier = Classifier_zero\<lparr>cl_EthType := 2048, cl_IpProto := 17, cl_SrcPort := 67,
     cl_DstPort := 68, cl_PktTagType := ''double_tag''\<rparr>"

definition dhcp_trap :: "OpenOltScaleTesterConfig \<Rightarrow> OpenOltResourceMgr \<Rightarrow> uint32 \<Rightarrow> go_error option prog" where
  "dhcp_trap config rsrMgr intf =
     bindp (GetFlowID rsrMgr intf) (\<lambda>(flowID, err).
     (case err of
        Some e \<Rightarrow> Ret (Some e)
      | None \<Rightarrow> send_raw_flow (nni_trap_flow config dhcp_trap_classifier flowID)))"

text \<open>\<open>_ = step\<close>: the result is dropped.\<close>

definition ignoring :: "go_error option prog \<Rightarrow> 'a prog \<Rightarrow> 'a prog" where
  "ignoring m n = bindp m (\<lambda>_. n)"

section \<open>Plans\<close>

type_synonym plan = "(rpc \<times> string) list list"

definition accepted :: "rpc \<Rightarrow> go_error option \<Rightarrow> bool" where
  "accepted r err \<longleftrightarrow> err = None \<or>
     (case r of FlowAdd f \<Rightarrow> status_code err = AlreadyExists | _ \<Rightarrow> False)"

fun play_group :: "env \<Rightarrow> rpc list \<Rightarrow> (rpc \<times> string) list \<Rightarrow> go_error option \<times> rpc list" where
  "play_group E h [] = (None, h)"
| "play_group E h ((r, reason) # g) =
     (let rest = play_group E (h @ [r]) g
      in (if accepted r (reply E h r) then fst rest else Some (ErrorString reason), snd rest))"

fun play :: "env \<Rightarrow> rpc list \<Rightarrow> plan \<Rightarrow> go_error option \<times> rpc list" where
  "play E h [] = (None, h)"
| "play E h (g # gs) =
     (case play_group E h g of
        (Some e, h') \<Rightarrow> (Some e, h')
      | (None, h') \<Rightarrow> play E h' gs)"

text \<open>
  \<open>follows E m p pl n d\<close>: run alone with manager \<open>m\<close>, \<open>p\<close> plays the plan \<open>pl\<close>, which may depend on the
  last flow ID given out and on the number of random values drawn so far; when nothing is refused
  it has used \<open>n\<close> flow IDs and \<open>d\<close> random values.
\<close>

definition follows ::
  "env \<Rightarrow> uint32 \<Rightarrow> go_error option prog \<Rightarrow> (uint64 \<Rightarrow> nat \<Rightarrow> plan) \<Rightarrow> nat \<Rightarrow> nat \<Rightarrow> bool" where
  "follows E m p pl n d \<longleftrightarrow> (\<forall>w.
     fst (run E p w) = Done (fst (play E (sent w) (pl (flow_id w m) (draws w)))) \<and>
     sent (snd (run E p w)) = snd (play E (sent w) (pl (flow_id w m) (draws w))) \<and>
     (fst (play E (sent w) (pl (flow_id w m) (draws w))) = None \<longrightarrow>
        flow_id (snd (run E p w)) = (flow_id w)(m := flow_id w m + of_nat n) \<and>
        draws (snd (run E p w)) = draws w + d))"

section \<open>Requests of a subscriber\<close>

text \<open>What the scheduler and queue requests of a ready subscriber carry.\<close>

definition sched_request :: "Subscriber \<Rightarrow> Direction \<Rightarrow> rpc" where
  "sched_request subs direction =
     (let inst = the_tp subs;
          us = the (tp_UsScheduler inst);
          a = (if direction = DOWNSTREAM then the (tp_DsScheduler inst) else us)
      in CreateTrafficSchedulers
        \<lparr>tss_IntfId = PonIntf subs, tss_OnuId = OnuID subs, tss_UniId = UniID subs,
         tss_PortNo = UniPortNo subs, tss_TrafficScheds =
           [\<lparr>ts_Direction = sa_Direction a, ts_AllocId = sa_AllocId us, ts_Scheduler = Some (sched_config a),
             ts_TrafficShapingInfo = Some (TrafficShapingInfo_zero\<lparr>sh_Cir := 16000, sh_Cbs := 5000,
               sh_Pir := 32000, sh_Pbs := 10000\<rparr>), ts_TechProfileId = 0\<rparr>]\<rparr>)"

definition queue_request :: "Subscriber \<Rightarrow> Direction \<Rightarrow> rpc" where
  "queue_request subs direction =
     CreateTrafficQueues
       (TrafficQueues_zero\<lparr>tqs_IntfId := PonIntf subs, tqs_OnuId := OnuID subs, tqs_UniId := UniID subs,
        tqs_PortNo := UniPortNo subs, tqs_TrafficQueues := map (traffic_queue direction)
          (if direction = UPSTREAM then tp_UpstreamGemPortAttributeList (the_tp subs)
           else filter (\<lambda>g. \<not> isMulticastGem (gp_IsMulticast g)) (tp_DownstreamGemPortAttributeList (the_tp subs)))\<rparr>)"

definition the_alloc :: "Subscriber \<Rightarrow> uint32" where
  "the_alloc subs = sa_AllocId (the (tp_UsScheduler (the_tp subs)))"

definition the_gems :: "Subscriber \<Rightarrow> GemPortAttributes list" where
  "the_gems subs = tp_UpstreamGemPortAttributeList (the_tp subs)"

definition sched_plan :: "Subscriber \<Rightarrow> plan" where
  "sched_plan subs =
     [[(sched_request subs DOWNSTREAM, ''SCHED_CREATION_FAILED'')],
      [(sched_request subs UPSTREAM, ''SCHED_CREATION_FAILED'')]]"

definition queue_plan :: "Subscriber \<Rightarrow> plan" where
  "queue_plan subs =
     [[(queue_request subs DOWNSTREAM, ''QUEUE_CREATION_FAILED'')],
      [(queue_request subs UPSTREAM, ''QUEUE_CREATION_FAILED'')]]"

section \<open>Playing\<close>

lemma play_append:
  "play E h (gs @ hs) =
     (case play E h gs of (Some e, h') \<Rightarrow> (Some e, h') | (None, h') \<Rightarrow> play E h' hs)"
  by (induction gs arbitrary: h) (auto split: prod.split option.split)

lemma play_group_sends: "snd (play_group E h g) = h @ map fst g"
  by (induction E h g rule: play_group.induct) (simp_all add: Let_def)

lemma play_accepting:
  assumes "\<And>h r. accepted r (reply E h r)"
  shows "play E h gs = (None, h @ concat (map (map fst) gs))"
proof -
  have "play_group E h g = (None, h @ map fst g)" for h g
    using assms by (induction E h g rule: play_group.induct) (simp_all add: Let_def)
  then show ?thesis by (induction gs arbitrary: h) simp_all
qed

lemma play_prefix:
  "\<exists>n \<le> length gs. snd (play E h gs) = h @ concat (map (map fst) (take n gs))"
proof (induction gs arbitrary: h)
  case (Cons g gs)
  show ?case
  proof (cases "fst (play_group E h g)")
    case None
    from Cons [of "snd (play_group E h g)"] obtain n where "n \<le> length gs"
      "snd (play E (snd (play_group E h g)) gs) = snd (play_group E h g) @ concat (map (map fst) (take n gs))"
      by blast
    with None show ?thesis
      by (intro exI [of _ "Suc n"]) (simp add: play_group_sends split_beta)
  next
    case (Some e)
    then show ?thesis
      by (intro exI [of _ 1]) (simp add: play_group_sends split_beta)
  qed
qed simp

lemma followsI:
  assumes "\<And>w. fst (run E p w) = Done (fst (play E (sent w) (pl (flow_id w m) (draws w))))"
    and "\<And>w. sent (snd (run E p w)) = snd (play E (sent w) (pl (flow_id w m) (draws w)))"
    and "\<And>w. fst (play E (sent w) (pl (flow_id w m) (draws w))) = None \<Longrightarrow>
      flow_id (snd (run E p w)) = (flow_id w)(m := flow_id w m + of_nat n) \<and>
      draws (snd (run E p w)) = draws w + d"
  shows "follows E m p pl n d"
  unfolding follows_def using assms by blast

lemma follows_and_then:
  assumes p: "follows E m p pl n d" and q: "follows E m q pl' n' d'"
  shows "follows E m (and_then p q) (\<lambda>f r. pl f r @ pl' (f + of_nat n) (r + d)) (n + n') (d + d')"
proof -
  have "fst (run E (and_then p q) w) = Done (fst (play E (sent w) (pl (flow_id w m) (draws w) @ pl' (flow_id w m + of_nat n) (draws w + d)))) \<and>
     sent (snd (run E (and_then p q) w)) = snd (play E (sent w) (pl (flow_id w m) (draws w) @ pl' (flow_id w m + of_nat n) (draws w + d))) \<and>
     (fst (play E (sent w) (pl (flow_id w m) (draws w) @ pl' (flow_id w m + of_nat n) (draws w + d))) = None \<longrightarrow>
        flow_id (snd (run E (and_then p q) w)) = (flow_id w)(m := flow_id w m + of_nat (n + n')) \<and>
        draws (snd (run E (and_then p q) w)) = draws w + (d + d'))" for w
  proof -
    obtain e h where pe: "play E (sent w) (pl (flow_id w m) (draws w)) = (e, h)" by fastforce
    obtain w' where r: "run E p w = (Done e, w')" "sent w' = h"
      "e = None \<Longrightarrow> flow_id w' = (flow_id w)(m := flow_id w m + of_nat n) \<and> draws w' = draws w + d"
      using p [unfolded follows_def, rule_format, of w] pe
      by (intro that [of "snd (run E p w)"]) (auto simp: prod_eq_iff)
    show ?thesis
    proof (cases e)
      case None
      note q' = q [unfolded follows_def, rule_format, of w']
      show ?thesis
        using q' r(3) [OF None] by (simp add: run_and_then r(1,2) None play_append pe add.assoc)
    qed (simp add: run_and_then r play_append pe)
  qed
  then show ?thesis by (auto simp: follows_def)
qed

lemma follows_Ret: "follows E m (Ret None) (\<lambda>f r. []) 0 0"
  by (simp add: follows_def)

lemma follows_send_flow: "follows E m (send_flow f) (\<lambda>i r. [[(FlowAdd f, ''FLOW_ADD_FAILED'')]]) 0 0"
  by (rule followsI) (simp_all add: run_send_flow flow_result_def accepted_def)

text \<open>A flow ID may be used by all that comes after it.\<close>

lemma follows_NextFlowID:
  assumes "\<And>id. follows E m (k id) (pl id) n d"
  shows "follows E m (NextFlowID m k) (\<lambda>f r. pl (f + 1) (f + 1) r) (Suc n) d"
proof (rule followsI)
  fix w :: world
  let ?w = "w\<lparr>flow_id := (flow_id w)(m := flow_id w m + 1)\<rparr>"
  have run: "run E (NextFlowID m k) w = run E (k (flow_id w m + 1)) ?w"
    by (simp add: flow_id_section_def Let_def)
  note k = assms [of "flow_id w m + 1", unfolded follows_def, rule_format, of ?w]
  show "fst (run E (NextFlowID m k) w) = Done (fst (play E (sent w) (pl (flow_id w m + 1) (flow_id w m + 1) (draws w))))"
    "sent (snd (run E (NextFlowID m k) w)) = snd (play E (sent w) (pl (flow_id w m + 1) (flow_id w m + 1) (draws w)))"
    using k by (simp_all add: run del: run.simps)
  assume "fst (play E (sent w) (pl (flow_id w m + 1) (flow_id w m + 1) (draws w))) = None"
  then show "flow_id (snd (run E (NextFlowID m k) w)) = (flow_id w)(m := flow_id w m + of_nat (Suc n)) \<and>
      draws (snd (run E (NextFlowID m k) w)) = draws w + d"
    using k by (simp add: run add.assoc del: run.simps)
qed

lemma follows_flow:
  "follows E m (NextFlowID m (\<lambda>id. send_flow (f id))) (\<lambda>i r. [[(FlowAdd (f (i + 1)), ''FLOW_ADD_FAILED'')]]) 1 0"
  using follows_NextFlowID [OF follows_send_flow, of E m f] by simp

lemma follows_cong:
  "follows E m p pl n d \<Longrightarrow> p = p' \<Longrightarrow> (\<And>f r. pl f r = pl' f r) \<Longrightarrow> n = n' \<Longrightarrow> d = d' \<Longrightarrow>
   follows E m p' pl' n' d'"
  by (simp add: follows_def)

lemma follows_flow_pair:
  "follows E m (NextFlowID m (\<lambda>us. and_then (send_flow (f us)) (NextFlowID m (\<lambda>ds. send_flow (g us ds)))))
     (\<lambda>i r. [[(FlowAdd (f (i + 1)), ''FLOW_ADD_FAILED'')], [(FlowAdd (g (i + 1) (i + 2)), ''FLOW_ADD_FAILED'')]]) 2 0"
  by (rule follows_cong [OF follows_NextFlowID [OF follows_and_then [OF follows_send_flow follows_flow]]])
    (rule refl | simp add: add.commute)+

lemma follows_call:
  assumes "\<And>f. r \<noteq> FlowAdd f"
  shows "follows E m (Call r (\<lambda>err. if err \<noteq> None then Ret (Some (ErrorString s)) else Ret None))
    (\<lambda>i d. [[(r, s)]]) 0 0"
  using assms by (intro followsI) (auto simp: accepted_def split: rpc.split)

section \<open>Common operations\<close>

lemma alloc_and_gems_ready:
  assumes "ready subs"
  shows "alloc_and_gems subs = Ret (the_alloc subs, the_gems subs)"
proof -
  obtain us ds where "tp_UsScheduler (the_tp subs) = Some us" "tp_DsScheduler (the_tp subs) = Some ds"
    using assms by (rule ready_schedulers)
  then show ?thesis
    by (simp add: alloc_and_gems_def ready_pointer [OF assms] the_alloc_def the_gems_def)
qed

lemma with_flow_id_eq:
  "with_flow_id subs k = NextFlowID (rm_intfID (RsrMgr subs)) k"
  by (simp add: with_flow_id_def GetFlowID_def)

lemma create_scheds_ready:
  assumes "ready subs" "direction \<noteq> BIDIRECTIONAL"
  shows "create_scheds subs direction =
     Call (sched_request subs direction)
       (\<lambda>err. if err \<noteq> None then Ret (Some (ErrorString ''SCHED_CREATION_FAILED'')) else Ret None)"
proof -
  obtain us ds where "tp_UsScheduler (the_tp subs) = Some us" "tp_DsScheduler (the_tp subs) = Some ds"
    using assms(1) by (rule ready_schedulers)
  then show ?thesis
    by (simp add: create_scheds_def getTrafficSched_def sched_request_def ready_pointer [OF assms(1)]
        GetTrafficScheduler_Some Let_def cong: if_cong)
qed

lemma create_queues_ready:
  assumes "ready subs" "direction \<noteq> BIDIRECTIONAL"
  shows "create_queues subs direction =
     Call (queue_request subs direction)
       (\<lambda>err. if err \<noteq> None then Ret (Some (ErrorString ''QUEUE_CREATION_FAILED'')) else Ret None)"
  using assms
  by (cases direction)
    (simp_all add: create_queues_def getTrafficQueues_def queue_request_def ready_pointer GetTrafficQueues_def
        cong: if_cong)

lemma follows_provision_scheds:
  assumes "ready subs"
  shows "follows E m (provision_scheds subs) (\<lambda>i d. sched_plan subs) 0 0"
proof -
  have "follows E m (create_scheds subs dir) (\<lambda>i d. [[(sched_request subs dir, ''SCHED_CREATION_FAILED'')]]) 0 0"
    if "dir \<noteq> BIDIRECTIONAL" for dir
    unfolding create_scheds_ready [OF assms that]
    by (rule follows_call) (simp add: sched_request_def Let_def)
  from follows_and_then [OF this [of DOWNSTREAM] this [of UPSTREAM]] show ?thesis
    by (simp add: provision_scheds_def sched_plan_def)
qed

lemma follows_provision_queues:
  assumes "ready subs"
  shows "follows E m (provision_queues subs) (\<lambda>i d. queue_plan subs) 0 0"
proof -
  have "follows E m (create_queues subs dir) (\<lambda>i d. [[(queue_request subs dir, ''QUEUE_CREATION_FAILED'')]]) 0 0"
    if "dir \<noteq> BIDIRECTIONAL" for dir
    unfolding create_queues_ready [OF assms that]
    by (rule follows_call) (simp add: queue_request_def)
  from follows_and_then [OF this [of DOWNSTREAM] this [of UPSTREAM]] show ?thesis
    by (simp add: provision_queues_def queue_plan_def)
qed

lemma safe_provision_scheds [go_safe]: "ready subs \<Longrightarrow> safe_for subs (provision_scheds subs)"
  unfolding provision_scheds_def
  by (intro safe_and_then; simp add: create_scheds_ready) (simp_all add: sched_request_def Let_def)

lemma safe_provision_queues [go_safe]: "ready subs \<Longrightarrow> safe_for subs (provision_queues subs)"
  unfolding provision_queues_def
  by (intro safe_and_then; simp add: create_queues_ready) (simp_all add: queue_request_def)

lemma safe_with_flow_id [go_safe]: "(\<And>id. safe P Q (k id)) \<Longrightarrow> safe P Q (with_flow_id subs k)"
  by (simp add: with_flow_id_eq)

end
