(* ===== verification/Att_Workflow.thy ===== *)
theory Att_Workflow
  imports Provisioning
begin

text \<open>
  Model of \<open>core/att\_workflow.go\<close>: the trap flows the ATT workflow puts on the NNI, and its ten
  subscriber operations. It installs an EAPOL trap, a DHCPv4 trap and a pair of data flows, each carrying
  the map from priorities to GEM ports; the other flow kinds are not supported and do nothing.

  The lemmas give the plan of each operation and bound what it can do under interference.
\<close>

section \<open>Trap flows on the NNI\<close>

definition AddDhcpIPV4Flow :: "OpenOltScaleTesterConfig \<Rightarrow> OpenOltResourceMgr \<Rightarrow> go_error option prog" where
  "AddDhcpIPV4Flow config rsrMgr = dhcp_trap config rsrMgr (uint32_of_uint (NniIntfID config))"

definition AddDhcpIPV6Flow :: "OpenOltScaleTesterConfig \<Rightarrow> OpenOltResourceMgr \<Rightarrow> go_error option prog" where
  "AddDhcpIPV6Flow config rsrMgr = Ret None"

definition ProvisionAttNniTrapFlow ::
  "OpenOltScaleTesterConfig \<Rightarrow> OpenOltResourceMgr \<Rightarrow> go_error option prog" where
  "ProvisionAttNniTrapFlow config rsrMgr =
     ignoring (AddDhcpIPV4Flow config rsrMgr)
    (ignoring (AddDhcpIPV6Flow config rsrMgr)
    (ignoring (AddLldpFlow config rsrMgr)
     (Ret None)))"

section \<open>Operations\<close>

definition att_ProvisionScheds :: "Subscriber \<Rightarrow> go_error option prog" where
  "att_ProvisionScheds subs = provision_scheds subs"

definition att_ProvisionQueues :: "Subscriber \<Rightarrow> go_error option prog" where
  "att_ProvisionQueues subs = provision_queues subs"

definition att_ProvisionEapFlow :: "Subscriber \<Rightarrow> go_error option prog" where
  "att_ProvisionEapFlow subs =
     bindp (alloc_and_gems subs) (\<lambda>(allocID, gems).
     let pbitToGem = pbit_to_gem gems
     in with_flow_id subs (\<lambda>flowID.
        AddFlow subs EapolFlow Upstream flowID allocID 0 0xff True 0 pbitToGem))"

definition att_ProvisionDhcpIPV4Flow :: "Subscriber \<Rightarrow> go_error option prog" where
  "att_ProvisionDhcpIPV4Flow subs =
     bindp (alloc_and_gems subs) (\<lambda>(allocID, gems).
     let pbitToGem = pbit_to_gem gems
     in with_flow_id subs (\<lambda>flowID.
        AddFlow subs DhcpFlowIPV4 Upstream flowID allocID 0 0xff True 0 pbitToGem))"

definition att_ProvisionDhcpIPV6Flow :: "Subscriber \<Rightarrow> go_error option prog" where
  "att_ProvisionDhcpIPV6Flow subs = Ret None"

definition att_ProvisionIgmpFlow :: "Subscriber \<Rightarrow> go_error option prog" where
  "att_ProvisionIgmpFlow subs = Ret None"

definition att_ProvisionHsiaFlow :: "Subscriber \<Rightarrow> go_error option prog" where
  "att_ProvisionHsiaFlow subs =
     bindp (alloc_and_gems subs) (\<lambda>(allocID, gems).
     let pbitToGem = pbit_to_gem gems
     in with_flow_id subs (\<lambda>flowIDUs.
        and_then (AddFlow subs HsiaFlow Upstream flowIDUs allocID 0 0xff True 0 pbitToGem)
          (with_flow_id subs (\<lambda>flowIDDs.
           AddFlow subs HsiaFlow Downstream flowIDDs allocID 0 0xff True flowIDUs pbitToGem))))"

definition att_ProvisionVoipFlow :: "Subscriber \<Rightarrow> go_error option prog" where
  "att_ProvisionVoipFlow subs = Ret None"

definition att_ProvisionVodFlow :: "Subscriber \<Rightarrow> go_error option prog" where
  "att_ProvisionVodFlow subs = Ret None"

definition att_ProvisionMgmtFlow :: "Subscriber \<Rightarrow> go_error option prog" where
  "att_ProvisionMgmtFlow subs = Ret None"

definition att_ProvisionMulticastFlow :: "Subscriber \<Rightarrow> go_error option prog" where
  "att_ProvisionMulticastFlow subs = Ret None"

section \<open>Plans\<close>

text \<open>The flow of kind \<open>flowType\<close> with ID \<open>f\<close> that a subscriber of the ATT or DT workflow asks for.\<close>

definition planned_flow :: "Subscriber \<Rightarrow> string \<Rightarrow> string \<Rightarrow> uint64 \<Rightarrow> uint64 \<Rightarrow> rpc" where
  "planned_flow subs flowType direction f symmetric =
     FlowAdd (subscriber_flow subs (FormatClassfierAction flowType direction subs) direction f
       (the_alloc subs) 0 0xff True symmetric (pbit_to_gem (the_gems subs)))"

definition hsia_plan :: "Subscriber \<Rightarrow> uint64 \<Rightarrow> plan" where
  "hsia_plan subs f =
     [[(planned_flow subs HsiaFlow Upstream (f + 1) 0, ''FLOW_ADD_FAILED'')],
      [(planned_flow subs HsiaFlow Downstream (f + 2) (f + 1), ''FLOW_ADD_FAILED'')]]"

definition att_plan :: "Subscriber \<Rightarrow> uint64 \<Rightarrow> plan" where
  "att_plan subs f =
     sched_plan subs @ queue_plan subs @
     [[(planned_flow subs EapolFlow Upstream (f + 1) 0, ''FLOW_ADD_FAILED'')],
      [(planned_flow subs DhcpFlowIPV4 Upstream (f + 2) 0, ''FLOW_ADD_FAILED'')]] @
     hsia_plan subs (f + 2)"

section \<open>Lemmas\<close>

lemmas att_noop_defs = att_ProvisionDhcpIPV6Flow_def att_ProvisionIgmpFlow_def att_ProvisionVoipFlow_def
  att_ProvisionVodFlow_def att_ProvisionMgmtFlow_def att_ProvisionMulticastFlow_def

lemmas att_flow_defs = att_ProvisionEapFlow_def att_ProvisionDhcpIPV4Flow_def att_ProvisionHsiaFlow_def

lemma follows_att_trap:
  assumes "ready subs" "rm_intfID (RsrMgr subs) = m"
  shows "follows E m (att_ProvisionEapFlow subs)
      (\<lambda>f r. [[(planned_flow subs EapolFlow Upstream (f + 1) 0, ''FLOW_ADD_FAILED'')]]) 1 0"
    and "follows E m (att_ProvisionDhcpIPV4Flow subs)
      (\<lambda>f r. [[(planned_flow subs DhcpFlowIPV4 Upstream (f + 1) 0, ''FLOW_ADD_FAILED'')]]) 1 0"
  by (rule follows_cong [OF follows_flow];
      simp add: assms att_flow_defs alloc_and_gems_ready with_flow_id_eq AddFlow_def planned_flow_def)+

text \<open>The data flows, for any operation of this shape: the downstream flow names the upstream one.\<close>

lemma follows_hsia:
  assumes "ready subs" "rm_intfID (RsrMgr subs) = m"
  shows "follows E m (att_ProvisionHsiaFlow subs) (\<lambda>f r. hsia_plan subs f) 2 0"
  by (rule follows_cong [OF follows_flow_pair
          [where f = "\<lambda>us. subscriber_flow subs (FormatClassfierAction HsiaFlow Upstream subs) Upstream us
             (the_alloc subs) 0 0xff True 0 (pbit_to_gem (the_gems subs))" and
           g = "\<lambda>us ds. subscriber_flow subs (FormatClassfierAction HsiaFlow Downstream subs) Downstream ds
             (the_alloc subs) 0 0xff True us (pbit_to_gem (the_gems subs))"]];
      simp add: assms att_flow_defs alloc_and_gems_ready with_flow_id_eq AddFlow_def planned_flow_def
        hsia_plan_def Let_def)

lemma safe_att [go_safe]:
  assumes "ready subs"
  shows "safe_for subs (att_ProvisionEapFlow subs)" "safe_for subs (att_ProvisionDhcpIPV4Flow subs)"
    "safe_for subs (att_ProvisionHsiaFlow subs)"
  using assms
  by (auto simp: att_flow_defs alloc_and_gems_ready Let_def intro!: safe_with_flow_id safe_AddFlow safe_and_then)

end
