(* ===== verification/Dt_Workflow.thy ===== *)
theory Dt_Workflow
  imports Att_Workflow
begin

text \<open>
  Model of \<open>core/dt\_workflow.go\<close>: one LLDP trap flow on the NNI, and for a subscriber the schedulers,
  the queues and the pair of data flows. The other flow kinds are not required and do nothing.
\<close>

section \<open>Operations\<close>

definition ProvisionDtNniTrapFlow ::
  "OpenOltScaleTesterConfig \<Rightarrow> OpenOltResourceMgr \<Rightarrow> go_error option prog" where
  "ProvisionDtNniTrapFlow config rsrMgr = ignoring (AddLldpFlow config rsrMgr) (Ret None)"

definition dt_ProvisionScheds :: "Subscriber \<Rightarrow> go_error option prog" where
  "dt_ProvisionScheds subs = provision_scheds subs"

definition dt_ProvisionQueues :: "Subscriber \<Rightarrow> go_error option prog" where
  "dt_ProvisionQueues subs = provision_queues subs"

definition dt_ProvisionEapFlow :: "Subscriber \<Rightarrow> go_error option prog" where
  "dt_ProvisionEapFlow subs = Ret None"

definition dt_ProvisionDhcpIPV4Flow :: "Subscriber \<Rightarrow> go_error option prog" where
  "dt_ProvisionDhcpIPV4Flow subs = Ret None"

definition dt_ProvisionDhcpIPV6Flow :: "Subscriber \<Rightarrow> go_error option prog" where
  "dt_ProvisionDhcpIPV6Flow subs = Ret None"

definition dt_ProvisionIgmpFlow :: "Subscriber \<Rightarrow> go_error option prog" where
  "dt_ProvisionIgmpFlow subs = Ret None"

definition dt_ProvisionHsiaFlow :: "Subscriber \<Rightarrow> go_error option prog" where
  "dt_ProvisionHsiaFlow subs =
     bindp (alloc_and_gems subs) (\<lambda>(allocID, gems).
     let pbitToGem = pbit_to_gem gems
     in with_flow_id subs (\<lambda>flowIDUs.
        and_then (AddFlow subs HsiaFlow Upstream flowIDUs allocID 0 0xff True 0 pbitToGem)
          (with_flow_id subs (\<lambda>flowIDDs.
           AddFlow subs HsiaFlow Downstream flowIDDs allocID 0 0xff True flowIDUs pbitToGem))))"

definition dt_ProvisionVoipFlow :: "Subscriber \<Rightarrow> go_error option prog" where
  "dt_ProvisionVoipFlow subs = Ret None"

definition dt_ProvisionVodFlow :: "Subscriber \<Rightarrow> go_error option prog" where
  "dt_ProvisionVodFlow subs = Ret None"

definition dt_ProvisionMgmtFlow :: "Subscriber \<Rightarrow> go_error option prog" where
  "dt_ProvisionMgmtFlow subs = Ret None"

definition dt_ProvisionMulticastFlow :: "Subscriber \<Rightarrow> go_error option prog" where
  "dt_ProvisionMulticastFlow subs = Ret None"

definition dt_plan :: "Subscriber \<Rightarrow> uint64 \<Rightarrow> plan" where
  "dt_plan subs f = sched_plan subs @ queue_plan subs @ hsia_plan subs f"

section \<open>Lemmas\<close>

lemmas dt_noop_defs = dt_ProvisionEapFlow_def dt_ProvisionDhcpIPV4Flow_def dt_ProvisionDhcpIPV6Flow_def
  dt_ProvisionIgmpFlow_def dt_ProvisionVoipFlow_def dt_ProvisionVodFlow_def dt_ProvisionMgmtFlow_def
  dt_ProvisionMulticastFlow_def

text \<open>The DT and ATT workflows install the same data flows, so the facts on one serve the other.\<close>

lemma dt_hsia_is_att_hsia: "dt_ProvisionHsiaFlow subs = att_ProvisionHsiaFlow subs"
  by (simp add: dt_ProvisionHsiaFlow_def att_ProvisionHsiaFlow_def)

lemma safe_dt [go_safe]: "ready subs \<Longrightarrow> safe_for subs (dt_ProvisionHsiaFlow subs)"
  by (simp add: dt_hsia_is_att_hsia safe_att)

end
