(* ===== verification/Tt_Workflow.thy ===== *)
theory Tt_Workflow
  imports Provisioning
begin

text \<open>
  Model of \<open>core/tt\_workflow.go\<close>: the DHCPv4 trap flow on the NNI (its ID comes from the first PON's
  manager), the per-priority unicast services (HSIA, VoIP, VoD, management), and the multicast service with
  its shared word \<open>lastPonIntf\<close>.

  A unicast service installs, for every priority bit of every upstream GEM port, an upstream and a
  downstream flow, and for some services a DHCP and an IGMP trap: all of a bit's flows are tried before
  the first error, in the order upstream, downstream, DHCP, IGMP, is returned. In the plan
  the flows of a bit form one group.
\<close>

section \<open>Trap flows on the NNI\<close>

definition AddTtDhcpIPV4Flow :: "OpenOltScaleTesterConfig \<Rightarrow> OpenOltResourceMgr \<Rightarrow> go_error option prog" where
  "AddTtDhcpIPV4Flow config rsrMgr = dhcp_trap config rsrMgr 0"

definition AddTtDhcpIPV6Flow :: "OpenOltScaleTesterConfig \<Rightarrow> OpenOltResourceMgr \<Rightarrow> go_error option prog" where
  "AddTtDhcpIPV6Flow config rsrMgr = Ret None"

definition ProvisionTtNniTrapFlow ::
  "OpenOltScaleTesterConfig \<Rightarrow> OpenOltResourceMgr \<Rightarrow> go_error option prog" where
  "ProvisionTtNniTrapFlow config rsrMgr = ignoring (AddTtDhcpIPV4Flow config rsrMgr) (Ret None)"

section \<open>Flows\<close>

definition FormatTtClassfierAction :: "string \<Rightarrow> string \<Rightarrow> Subscriber \<Rightarrow> (Classifier \<times> Action) prog" where
  "FormatTtClassfierAction flowType direction subs =
     (if direction = Upstream then
        (if flowType = IgmpFlow then
           Ret (Classifier_zero\<lparr>cl_EthType := IPv4EthType, cl_IpProto := IgmpProto, cl_SrcPort := 0,
                  cl_DstPort := 0, cl_PktTagType := SingleTag\<rparr>,
                Action_zero\<lparr>ac_Cmd := Some (ActionCmd_zero\<lparr>cmd_TrapToHost := True\<rparr>)\<rparr>)
         else if flowType = HsiaFlow then
           Ret (Classifier_zero\<lparr>cl_IPbits := 255, cl_OVid := 33, cl_PktTagType := SingleTag\<rparr>,
                Action_zero\<lparr>ac_Cmd := Some (ActionCmd_zero\<lparr>cmd_AddOuterTag := True\<rparr>), ac_IVid := 33, ac_OVid := 7\<rparr>)
         else if flowType = VoipFlow then
           Ret (Classifier_zero\<lparr>cl_IPbits := 255, cl_OPbits := 7, cl_OVid := 63, cl_PktTagType := SingleTag\<rparr>,
                Action_zero\<lparr>ac_Cmd := Some (ActionCmd_zero\<lparr>cmd_AddOuterTag := True\<rparr>), ac_OPbits := 7,
                  ac_IVid := 63, ac_OVid := 10\<rparr>)
         else if flowType = VodFlow then
           Ret (Classifier_zero\<lparr>cl_IPbits := 255, cl_OPbits := 5, cl_OVid := 55, cl_PktTagType := SingleTag\<rparr>,
                Action_zero\<lparr>ac_Cmd := Some (ActionCmd_zero\<lparr>cmd_AddOuterTag := True\<rparr>), ac_OPbits := 5,
                  ac_IVid := 55, ac_OVid := 555\<rparr>)
         else if flowType = MgmtFlow then
           Ret (Classifier_zero\<lparr>cl_IPbits := 255, cl_OPbits := 7, cl_OVid := 75, cl_PktTagType := SingleTag\<rparr>,
                Action_zero\<lparr>ac_Cmd := Some (ActionCmd_zero\<lparr>cmd_AddOuterTag := True\<rparr>), ac_OPbits := 7,
                  ac_IVid := 75, ac_OVid := 575\<rparr>)
         else Ret (Classifier_zero, Action_zero))
      else if direction = Downstream then
        (if flowType = IgmpFlow then Ret (Classifier_zero, Action_zero)
         else if flowType = HsiaFlow then
           Ret (Classifier_zero\<lparr>cl_IPbits := 255, cl_OPbits := 255, cl_IVid := 33, cl_OVid := 7,
                  cl_PktTagType := DoubleTag\<rparr>,
                Action_zero\<lparr>ac_Cmd := Some (ActionCmd_zero\<lparr>cmd_RemoveOuterTag := True\<rparr>), ac_IVid := 33\<rparr>)
         else if flowType = VoipFlow then
           bindp (GenerateMac True) (\<lambda>mac.
           Ret (Classifier_zero\<lparr>cl_IPbits := 255, cl_OPbits := 255, cl_IVid := 63, cl_OVid := 10,
                  cl_DstMac := mac, cl_PktTagType := DoubleTag\<rparr>,
                Action_zero\<lparr>ac_Cmd := Some (ActionCmd_zero\<lparr>cmd_RemoveOuterTag := True\<rparr>), ac_IPbits := 7,
                  ac_IVid := 63\<rparr>))
         else if flowType = VodFlow then
           bindp (GenerateMac True) (\<lambda>mac.
           Ret (Classifier_zero\<lparr>cl_IPbits := 255, cl_OPbits := 255, cl_IVid := 55, cl_OVid := 555,
                  cl_DstMac := mac, cl_PktTagType := DoubleTag\<rparr>,
                Action_zero\<lparr>ac_Cmd := Some (ActionCmd_zero\<lparr>cmd_RemoveOuterTag := True\<rparr>), ac_IPbits := 5,
                  ac_IVid := 55\<rparr>))
         else if flowType = MgmtFlow then
           bindp (GenerateMac True) (\<lambda>mac.
           Ret (Classifier_zero\<lparr>cl_IPbits := 255, cl_OPbits := 255, cl_IVid := 75, cl_OVid := 575,
                  cl_DstMac := mac, cl_PktTagType := DoubleTag\<rparr>,
                Action_zero\<lparr>ac_Cmd := Some (ActionCmd_zero\<lparr>cmd_RemoveOuterTag := True\<rparr>), ac_IPbits := 7,
                  ac_IVid := 75\<rparr>))
         else Ret (Classifier_zero, Action_zero))
      else Ret (Classifier_zero, Action_zero))"

definition AddTtFlow ::
  "Subscriber \<Rightarrow> string \<Rightarrow> string \<Rightarrow> uint64 \<Rightarrow> uint32 \<Rightarrow> uint32 \<Rightarrow> uint32 \<Rightarrow> bool \<Rightarrow> uint64 \<Rightarrow>
   (uint32 \<rightharpoonup> uint32) \<Rightarrow> go_error option prog" where
  "AddTtFlow subs flowType direction flowID allocID gemID pcp replicateFlow symmetricFlowID pbitToGem =
     bindp (FormatTtClassfierAction flowType direction subs) (\<lambda>ca.
     send_flow (subscriber_flow subs ca direction flowID allocID gemID pcp replicateFlow symmetricFlowID pbitToGem))"

section \<open>Unicast services\<close>

definition tt_ProvisionScheds :: "Subscriber \<Rightarrow> go_error option prog" where
  "tt_ProvisionScheds subs = provision_scheds subs"

definition tt_ProvisionQueues :: "Subscriber \<Rightarrow> go_error option prog" where
  "tt_ProvisionQueues subs = provision_queues subs"

definition tt_ProvisionEapFlow :: "Subscriber \<Rightarrow> go_error option prog" where
  "tt_ProvisionEapFlow subs = Ret None"

definition tt_ProvisionDhcpIPV4Flow :: "Subscriber \<Rightarrow> go_error option prog" where
  "tt_ProvisionDhcpIPV4Flow subs = Ret None"

definition tt_ProvisionDhcpIPV6Flow :: "Subscriber \<Rightarrow> go_error option prog" where
  "tt_ProvisionDhcpIPV6Flow subs = Ret None"

definition tt_ProvisionIgmpFlow :: "Subscriber \<Rightarrow> go_error option prog" where
  "tt_ProvisionIgmpFlow subs = Ret None"

text \<open>The two nested loops: the body runs for each set bit and leaves the function on an error.\<close>

fun for_bits :: "(uint32 \<Rightarrow> uint32 \<Rightarrow> go_error option prog) \<Rightarrow> (uint32 \<times> uint32) list \<Rightarrow> go_error option prog" where
  "for_bits body [] = Ret None"
| "for_bits body ((pcp, gemID) # bits) = and_then (body pcp gemID) (for_bits body bits)"

definition tt_ProvisionHsiaFlow :: "Subscriber \<Rightarrow> go_error option prog" where
  "tt_ProvisionHsiaFlow subs =
     bindp (alloc_and_gems subs) (\<lambda>(allocID, gems).
     for_bits (\<lambda>pcp gemID.
         with_flow_id subs (\<lambda>flowIDUs.
         bindp (AddTtFlow subs HsiaFlow Upstream flowIDUs allocID gemID pcp False 0 Map.empty) (\<lambda>errUs.
         with_flow_id subs (\<lambda>flowIDDs.
         bindp (AddTtFlow subs HsiaFlow Downstream flowIDDs allocID gemID pcp False flowIDUs Map.empty) (\<lambda>errDs.
         Ret (if errUs \<noteq> None \<or> errDs \<noteq> None then if errUs \<noteq> None then errUs else errDs else None))))))
       (gem_pbits gems))"

definition tt_ProvisionVoipFlow :: "Subscriber \<Rightarrow> go_error option prog" where
  "tt_ProvisionVoipFlow subs =
     bindp (alloc_and_gems subs) (\<lambda>(allocID, gems).
     for_bits (\<lambda>pcp gemID.
         with_flow_id subs (\<lambda>flowIDUs.
         bindp (AddTtFlow subs VoipFlow Upstream flowIDUs allocID gemID pcp False 0 Map.empty) (\<lambda>errUs.
         with_flow_id subs (\<lambda>flowIDDs.
         bindp (AddTtFlow subs VoipFlow Downstream flowIDDs allocID gemID pcp False flowIDUs Map.empty) (\<lambda>errDs.
         with_flow_id subs (\<lambda>flowIDDhcp.
         bindp (AddFlow subs DhcpFlowIPV4 Upstream flowIDDhcp allocID gemID pcp False 0 Map.empty) (\<lambda>errDhcp.
         Ret (if errUs \<noteq> None \<or> errDs \<noteq> None \<or> errDhcp \<noteq> None
              then if errUs \<noteq> None then errUs else if errDs \<noteq> None then errDs else errDhcp else None))))))))
       (gem_pbits gems))"

definition tt_ProvisionVodFlow :: "Subscriber \<Rightarrow> go_error option prog" where
  "tt_ProvisionVodFlow subs =
     bindp (alloc_and_gems subs) (\<lambda>(allocID, gems).
     for_bits (\<lambda>pcp gemID.
         with_flow_id subs (\<lambda>flowIDUs.
         bindp (AddTtFlow subs VodFlow Upstream flowIDUs allocID gemID pcp False 0 Map.empty) (\<lambda>errUs.
         with_flow_id subs (\<lambda>flowIDDs.
         bindp (AddTtFlow subs VodFlow Downstream flowIDDs allocID gemID pcp False flowIDUs Map.empty) (\<lambda>errDs.
         with_flow_id subs (\<lambda>flowIDDhcp.
         bindp (AddFlow subs DhcpFlowIPV4 Upstream flowIDDhcp allocID gemID pcp False 0 Map.empty) (\<lambda>errDhcp.
         with_flow_id subs (\<lambda>flowIDIgmp.
         bindp (AddTtFlow subs IgmpFlow Upstream flowIDIgmp allocID gemID pcp False 0 Map.empty) (\<lambda>errIgmp.
         Ret (if errUs \<noteq> None \<or> errDs \<noteq> None \<or> errDhcp \<noteq> None \<or> errIgmp \<noteq> None
              then if errUs \<noteq> None then errUs else if errDs \<noteq> None then errDs
                   else if errDhcp \<noteq> None then errDhcp else errIgmp else None))))))))))
       (gem_pbits gems))"

definition tt_ProvisionMgmtFlow :: "Subscriber \<Rightarrow> go_error option prog" where
  "tt_ProvisionMgmtFlow subs =
     bindp (alloc_and_gems subs) (\<lambda>(allocID, gems).
     for_bits (\<lambda>pcp gemID.
         with_flow_id subs (\<lambda>flowIDUs.
         bindp (AddTtFlow subs MgmtFlow Upstream flowIDUs allocID gemID pcp False 0 Map.empty) (\<lambda>errUs.
         with_flow_id subs (\<lambda>flowIDDs.
         bindp (AddTtFlow subs MgmtFlow Downstream flowIDDs allocID gemID pcp False flowIDUs Map.empty) (\<lambda>errDs.
         with_flow_id subs (\<lambda>flowIDDhcp.
         bindp (AddFlow subs DhcpFlowIPV4 Upstream flowIDDhcp allocID gemID pcp False 0 Map.empty) (\<lambda>errDhcp.
         Ret (if errUs \<noteq> None \<or> errDs \<noteq> None \<or> errDhcp \<noteq> None
              then if errUs \<noteq> None then errUs else if errDs \<noteq> None then errDs else errDhcp else None))))))))
       (gem_pbits gems))"

section \<open>Multicast\<close>

definition multicast_group :: "Subscriber \<Rightarrow> bool \<Rightarrow> GroupData" where
  "multicast_group subs first =
     \<lparr>gd_Subs = subs, gd_GroupID = OnuID subs, gd_Weight = 20, gd_Priority = 0, gd_OnuID = 6666,
      gd_UniID = 6666, gd_AllocID = 0, gd_GemPortID = 4069, gd_SchedPolicy = WRR,
      gd_AddGroup = (PonIntf subs = 0), gd_AddFlow = (PonIntf subs = 0),
      gd_AddSched = first, gd_AddQueue = first, gd_AddMember = True\<rparr>"

definition tt_ProvisionMulticastFlow :: "Subscriber \<Rightarrow> go_error option prog" where
  "tt_ProvisionMulticastFlow subs =
     (if di_PonPorts (rm_deviceInfo (RsrMgr subs)) = 0 then Panic DivideByZero
      else LoadPon (\<lambda>last.
        if PonIntf subs = last
        then AddPon 1 (\<lambda>_. AddMulticastQueueFlow (multicast_group subs True))
        else AddMulticastQueueFlow (multicast_group subs False)))"

section \<open>Plans\<close>

text \<open>
  The services as a table: customer VLAN, service VLAN and priority. The subscriber side matches the customer
  VLAN and pushes the service VLAN; the network side matches both and pops the service VLAN. All services but
  HSIA also match a destination MAC address downstream.
\<close>

definition tt_service :: "string \<Rightarrow> uint32 \<times> uint32 \<times> uint32" where
  "tt_service flowType =
     (if flowType = HsiaFlow then (33, 7, 0) else if flowType = VoipFlow then (63, 10, 7)
      else if flowType = VodFlow then (55, 555, 5) else (75, 575, 7))"

definition tt_up :: "string \<Rightarrow> Classifier \<times> Action" where
  "tt_up flowType = (let (cvid, svid, prio) = tt_service flowType in
     (Classifier_zero\<lparr>cl_IPbits := 255, cl_OPbits := prio, cl_OVid := cvid, cl_PktTagType := SingleTag\<rparr>,
      Action_zero\<lparr>ac_Cmd := Some (ActionCmd_zero\<lparr>cmd_AddOuterTag := True\<rparr>), ac_OPbits := prio,
        ac_IVid := cvid, ac_OVid := svid\<rparr>))"

definition tt_down :: "string \<Rightarrow> uint8 list \<Rightarrow> Classifier \<times> Action" where
  "tt_down flowType mac = (let (cvid, svid, prio) = tt_service flowType in
     (Classifier_zero\<lparr>cl_IPbits := 255, cl_OPbits := 255, cl_IVid := cvid, cl_OVid := svid,
        cl_DstMac := mac, cl_PktTagType := DoubleTag\<rparr>,
      Action_zero\<lparr>ac_Cmd := Some (ActionCmd_zero\<lparr>cmd_RemoveOuterTag := True\<rparr>), ac_IPbits := prio,
        ac_IVid := cvid\<rparr>))"

definition tt_igmp :: "Classifier \<times> Action" where
  "tt_igmp =
     (Classifier_zero\<lparr>cl_EthType := IPv4EthType, cl_IpProto := IgmpProto, cl_PktTagType := SingleTag\<rparr>,
      Action_zero\<lparr>ac_Cmd := Some (ActionCmd_zero\<lparr>cmd_TrapToHost := True\<rparr>)\<rparr>)"

text \<open>The six random bytes drawn after \<open>r\<close> earlier draws.\<close>

definition mac_at :: "env \<Rightarrow> nat \<Rightarrow> uint8 list" where
  "mac_at E r = map (\<lambda>i. of_nat (rand_src E (r + i) mod 255)) [0..<6]"

definition bit_flow :: "Subscriber \<Rightarrow> Classifier \<times> Action \<Rightarrow> string \<Rightarrow> uint32 \<Rightarrow> uint32 \<Rightarrow> uint64 \<Rightarrow> uint64 \<Rightarrow> rpc \<times> string" where
  "bit_flow subs ca direction pcp gemID f symmetric =
     (FlowAdd (subscriber_flow subs ca direction f (the_alloc subs) gemID pcp False symmetric Map.empty),
      ''FLOW_ADD_FAILED'')"

type_synonym bit_group = "uint32 \<Rightarrow> uint32 \<Rightarrow> uint64 \<Rightarrow> nat \<Rightarrow> (rpc \<times> string) list"

definition hsia_group :: "Subscriber \<Rightarrow> bit_group" where
  "hsia_group subs pcp gemID f r =
     [bit_flow subs (tt_up HsiaFlow) Upstream pcp gemID (f + 1) 0,
      bit_flow subs (tt_down HsiaFlow []) Downstream pcp gemID (f + 2) (f + 1)]"

definition dhcp_group :: "env \<Rightarrow> string \<Rightarrow> Subscriber \<Rightarrow> bit_group" where
  "dhcp_group E flowType subs pcp gemID f r =
     [bit_flow subs (tt_up flowType) Upstream pcp gemID (f + 1) 0,
      bit_flow subs (tt_down flowType (mac_at E r)) Downstream pcp gemID (f + 2) (f + 1),
      bit_flow subs (FormatClassfierAction DhcpFlowIPV4 Upstream subs) Upstream pcp gemID (f + 3) 0]"

definition igmp_group :: "env \<Rightarrow> string \<Rightarrow> Subscriber \<Rightarrow> bit_group" where
  "igmp_group E flowType subs pcp gemID f r =
     dhcp_group E flowType subs pcp gemID f r @ [bit_flow subs tt_igmp Upstream pcp gemID (f + 4) 0]"

text \<open>A group for every set bit, each using \<open>n\<close> flow IDs and \<open>d\<close> random values.\<close>

fun bits_plan :: "bit_group \<Rightarrow> nat \<Rightarrow> nat \<Rightarrow> (uint32 \<times> uint32) list \<Rightarrow> uint64 \<Rightarrow> nat \<Rightarrow> plan" where
  "bits_plan g n d [] f r = []"
| "bits_plan g n d ((pcp, gemID) # bits) f r =
     g pcp gemID f r # bits_plan g n d bits (f + of_nat n) (r + d)"

definition tt_plan :: "env \<Rightarrow> Subscriber \<Rightarrow> uint64 \<Rightarrow> nat \<Rightarrow> plan" where
  "tt_plan E subs f r =
     (let bits = gem_pbits (the_gems subs); k = length bits
      in sched_plan subs @ queue_plan subs @
         bits_plan (hsia_group subs) 2 0 bits f r @
         bits_plan (dhcp_group E VoipFlow subs) 3 6 bits (f + of_nat (2 * k)) r @
         bits_plan (igmp_group E VodFlow subs) 4 6 bits (f + of_nat (5 * k)) (r + 6 * k) @
         bits_plan (dhcp_group E MgmtFlow subs) 3 6 bits (f + of_nat (9 * k)) (r + 12 * k))"

section \<open>Lemmas\<close>

lemmas tt_noop_defs = tt_ProvisionEapFlow_def tt_ProvisionDhcpIPV4Flow_def tt_ProvisionDhcpIPV6Flow_def
  tt_ProvisionIgmpFlow_def

lemma run_rand_bytes_eq:
  "run E (rand_bytes n) w =
     (Done (map (\<lambda>i. of_nat (rand_src E (draws w + i) mod 255)) [0..<n]), w\<lparr>draws := draws w + n\<rparr>)"
proof (induction n arbitrary: w)
  case (Suc n)
  have "[0..<Suc n] = 0 # map Suc [0..<n]" by (simp add: map_Suc_upt upt_conv_Cons)
  then show ?case by (simp add: Suc run_bindp MacMax_def MacMin_def comp_def)
qed simp

lemma run_GenerateMac [go_run]:
  "run E (GenerateMac True) w = (Done (mac_at E (draws w)), w\<lparr>draws := draws w + 6\<rparr>)"
  unfolding GenerateMac_def by (simp add: run_rand_bytes_eq MacSize_def mac_at_def)

lemma flow_names_distinct:
  "HsiaFlow \<noteq> VoipFlow" "HsiaFlow \<noteq> VodFlow" "HsiaFlow \<noteq> MgmtFlow" "VoipFlow \<noteq> VodFlow"
  "VoipFlow \<noteq> MgmtFlow" "VodFlow \<noteq> MgmtFlow" "IgmpFlow \<noteq> HsiaFlow" "IgmpFlow \<noteq> VoipFlow"
  "IgmpFlow \<noteq> VodFlow" "IgmpFlow \<noteq> MgmtFlow" "Upstream \<noteq> Downstream"
  by (simp_all add: flow_names)

lemma Format_up:
  "FormatTtClassfierAction HsiaFlow Upstream subs = Ret (tt_up HsiaFlow)"
  "FormatTtClassfierAction VoipFlow Upstream subs = Ret (tt_up VoipFlow)"
  "FormatTtClassfierAction VodFlow Upstream subs = Ret (tt_up VodFlow)"
  "FormatTtClassfierAction MgmtFlow Upstream subs = Ret (tt_up MgmtFlow)"
  "FormatTtClassfierAction IgmpFlow Upstream subs = Ret tt_igmp"
  by (simp_all add: FormatTtClassfierAction_def tt_up_def tt_service_def tt_igmp_def
      Classifier_zero_def Action_zero_def flow_names)

lemma Format_down:
  "FormatTtClassfierAction HsiaFlow Downstream subs = Ret (tt_down HsiaFlow [])"
  "FormatTtClassfierAction VoipFlow Downstream subs = bindp (GenerateMac True) (\<lambda>mac. Ret (tt_down VoipFlow mac))"
  "FormatTtClassfierAction VodFlow Downstream subs = bindp (GenerateMac True) (\<lambda>mac. Ret (tt_down VodFlow mac))"
  "FormatTtClassfierAction MgmtFlow Downstream subs = bindp (GenerateMac True) (\<lambda>mac. Ret (tt_down MgmtFlow mac))"
  by (simp_all add: FormatTtClassfierAction_def tt_down_def tt_service_def
      Classifier_zero_def Action_zero_def flow_names)

lemma run_AddTtFlow_up:
  assumes "ft \<in> {HsiaFlow, VoipFlow, VodFlow, MgmtFlow}"
  shows "run E (AddTtFlow subs ft Upstream fid al g pcp rep smf m) w =
     run E (send_flow (subscriber_flow subs (tt_up ft) Upstream fid al g pcp rep smf m)) w"
  using assms by (auto simp: AddTtFlow_def Format_up)

lemma run_AddTtFlow_igmp:
  "run E (AddTtFlow subs IgmpFlow Upstream fid al g pcp rep smf m) w =
     run E (send_flow (subscriber_flow subs tt_igmp Upstream fid al g pcp rep smf m)) w"
  by (simp add: AddTtFlow_def Format_up)

lemma run_AddTtFlow_hsia_down:
  "run E (AddTtFlow subs HsiaFlow Downstream fid al g pcp rep smf m) w =
     run E (send_flow (subscriber_flow subs (tt_down HsiaFlow []) Downstream fid al g pcp rep smf m)) w"
  by (simp add: AddTtFlow_def Format_down)

lemma run_AddTtFlow_down:
  assumes "ft \<in> {VoipFlow, VodFlow, MgmtFlow}"
  shows "run E (AddTtFlow subs ft Downstream fid al g pcp rep smf m) w =
     run E (send_flow (subscriber_flow subs (tt_down ft (mac_at E (draws w))) Downstream fid al g pcp rep smf m))
       (w\<lparr>draws := draws w + 6\<rparr>)"
  using assms by (auto simp: AddTtFlow_def Format_down run_bindp run_GenerateMac)

lemmas run_tt_flows = run_AddTtFlow_up run_AddTtFlow_igmp run_AddTtFlow_hsia_down run_AddTtFlow_down

lemma follows_group:
  assumes "\<And>w. run E p w =
     (Done (fst (play_group E (sent w) (g (flow_id w m) (draws w)))),
      w\<lparr>flow_id := (flow_id w)(m := flow_id w m + of_nat n), draws := draws w + d,
        sent := snd (play_group E (sent w) (g (flow_id w m) (draws w)))\<rparr>)"
  shows "follows E m p (\<lambda>f r. [g f r]) n d"
  by (rule followsI) (simp_all add: assms split_beta split: option.split)

lemma follows_for_bits:
  assumes "\<And>pcp gemID. follows E m (body pcp gemID) (\<lambda>f r. [g pcp gemID f r]) n d"
  shows "follows E m (for_bits body bits) (bits_plan g n d bits) (n * length bits) (d * length bits)"
proof (induction bits)
  case Nil
  show ?case by (rule follows_cong [OF follows_Ret]) simp_all
next
  case (Cons b bits)
  obtain pcp gemID where b: "b = (pcp, gemID)" by (cases b)
  show ?case
    by (rule follows_cong [OF follows_and_then [OF assms [of pcp gemID] Cons.IH]]) (simp_all add: b)
qed

lemma play_group_flow:
  "play_group E h ((FlowAdd f, ''FLOW_ADD_FAILED'') # g) =
     (let err = flow_result (reply E h (FlowAdd f)); rest = play_group E (h @ [FlowAdd f]) g
      in (if err \<noteq> None then err else fst rest, snd rest))"
  by (simp add: Let_def accepted_def flow_result_def)

lemma verdict:
  fixes a :: "'a option"
  shows "(if a \<noteq> None \<or> c then if a \<noteq> None then a else r else None) = (if a \<noteq> None then a else if c then r else None)"
  by simp

lemma verdict_last: "(if a \<noteq> None then a else None) = a"
  by simp

lemmas tt_bit_simps = with_flow_id_eq flow_id_section_def run_bindp run_tt_flows AddFlow_def run_send_flow
  bit_flow_def play_group_flow verdict verdict_last Let_def add.commute

lemma follows_tt_hsia:
  assumes "ready subs" "rm_intfID (RsrMgr subs) = m"
  shows "follows E m (tt_ProvisionHsiaFlow subs) (bits_plan (hsia_group subs) 2 0 (gem_pbits (the_gems subs)))
    (2 * length (gem_pbits (the_gems subs))) (0 * length (gem_pbits (the_gems subs)))"
  unfolding tt_ProvisionHsiaFlow_def alloc_and_gems_ready [OF assms(1)] bindp.simps prod.case
  by (intro follows_for_bits follows_group) (simp add: assms(2) hsia_group_def tt_bit_simps
      del: play_group.simps(2) not_None_eq)

lemma follows_tt_voip:
  assumes "ready subs" "rm_intfID (RsrMgr subs) = m"
  shows "follows E m (tt_ProvisionVoipFlow subs) (bits_plan (dhcp_group E VoipFlow subs) 3 6 (gem_pbits (the_gems subs)))
    (3 * length (gem_pbits (the_gems subs))) (6 * length (gem_pbits (the_gems subs)))"
  unfolding tt_ProvisionVoipFlow_def alloc_and_gems_ready [OF assms(1)] bindp.simps prod.case
  by (intro follows_for_bits follows_group) (simp add: assms(2) dhcp_group_def tt_bit_simps
      del: play_group.simps(2) not_None_eq)

lemma follows_tt_mgmt:
  assumes "ready subs" "rm_intfID (RsrMgr subs) = m"
  shows "follows E m (tt_ProvisionMgmtFlow subs) (bits_plan (dhcp_group E MgmtFlow subs) 3 6 (gem_pbits (the_gems subs)))
    (3 * length (gem_pbits (the_gems subs))) (6 * length (gem_pbits (the_gems subs)))"
  unfolding tt_ProvisionMgmtFlow_def alloc_and_gems_ready [OF assms(1)] bindp.simps prod.case
  by (intro follows_for_bits follows_group) (simp add: assms(2) dhcp_group_def tt_bit_simps
      del: play_group.simps(2) not_None_eq)

lemma follows_tt_vod:
  assumes "ready subs" "rm_intfID (RsrMgr subs) = m"
  shows "follows E m (tt_ProvisionVodFlow subs) (bits_plan (igmp_group E VodFlow subs) 4 6 (gem_pbits (the_gems subs)))
    (4 * length (gem_pbits (the_gems subs))) (6 * length (gem_pbits (the_gems subs)))"
  unfolding tt_ProvisionVodFlow_def alloc_and_gems_ready [OF assms(1)] bindp.simps prod.case
  by (intro follows_for_bits follows_group) (simp add: assms(2) igmp_group_def dhcp_group_def tt_bit_simps
      del: play_group.simps(2) not_None_eq)

section \<open>Safety\<close>

lemma safe_Format [go_safe]: "safe P any (FormatTtClassfierAction flowType direction subs)"
proof -
  have "safe P any (bindp (GenerateMac True) (\<lambda>mac. Ret (f mac)))" for f :: "uint8 list \<Rightarrow> Classifier \<times> Action"
    by (rule safe_bindp [OF safe_GenerateMac]) (simp add: any_def)
  then show ?thesis by (simp add: FormatTtClassfierAction_def any_def)
qed

lemma safe_AddTtFlow [go_safe]:
  "safe_for subs (AddTtFlow subs ft dir fid alloc gem pcp rep smf m)"
  unfolding AddTtFlow_def by (rule safe_bindp [OF safe_Format]) (simp add: safe_send_flow)

lemma safe_for_bits [go_safe]:
  "(\<And>pcp gemID. safe_for subs (body pcp gemID)) \<Longrightarrow> safe_for subs (for_bits body bits)"
proof (induction bits)
  case (Cons b bits)
  then show ?case by (cases b) (simp, rule safe_and_then)
qed simp

lemma safe_tt [go_safe]:
  assumes "ready subs"
  shows "safe_for subs (tt_ProvisionHsiaFlow subs)" "safe_for subs (tt_ProvisionVoipFlow subs)"
    "safe_for subs (tt_ProvisionVodFlow subs)" "safe_for subs (tt_ProvisionMgmtFlow subs)"
  unfolding tt_ProvisionHsiaFlow_def tt_ProvisionVoipFlow_def tt_ProvisionVodFlow_def tt_ProvisionMgmtFlow_def
    alloc_and_gems_ready [OF assms] bindp.simps prod.case
  by (rule safe_for_bits safe_with_flow_id safe_bindp [where R = reason_error] safe_AddTtFlow safe_AddFlow
      | simp)+

lemma safe_AddMulticastFlow [go_safe]:
  "safe (for_subscriber (gd_Subs grp)) any (AddMulticastFlow grp)"
  by (auto simp: AddMulticastFlow_def Let_def any_def send_raw_flow_def Flow_zero_def
      intro!: safe_bindp [OF safe_GetFlowID] safe_bindp [OF safe_GenerateMulticastMac])

lemma safe_AddMulticastSched [go_safe]:
  assumes "ready (gd_Subs grp)"
  shows "safe (for_subscriber (gd_Subs grp)) any (AddMulticastSched grp)"
proof -
  obtain us ds where "tp_UsScheduler (the_tp (gd_Subs grp)) = Some us" "tp_DsScheduler (the_tp (gd_Subs grp)) = Some ds"
    using assms by (rule ready_schedulers)
  then show ?thesis
    by (simp add: AddMulticastSched_def Let_def ready_pointer [OF assms] GetTrafficScheduler_Some any_def)
qed

lemma safe_AddMulticastQueueFlow [go_safe]:
  assumes "ready (gd_Subs grp)" "gd_GroupID grp = OnuID (gd_Subs grp)"
  shows "safe (for_subscriber (gd_Subs grp)) any (AddMulticastQueueFlow grp)"
  unfolding AddMulticastQueueFlow_def when_p_def
  using safe_AddMulticastFlow [of grp] safe_AddMulticastSched [OF assms(1)] assms(2)
  by (intro safe_and_then)
    (auto simp: CreateGroup_def PerformGroupOperation_def OpMulticastTrafficQueue_def OpMemberToGroup_def
      TrafficQueues_zero_def Let_def any_def)

lemma safe_tt_multicast [go_safe]:
  assumes "ready subs" "di_PonPorts (rm_deviceInfo (RsrMgr subs)) \<noteq> 0"
  shows "safe (for_subscriber subs) any (tt_ProvisionMulticastFlow subs)"
  using assms safe_AddMulticastQueueFlow [of "multicast_group subs b" for b]
  by (auto simp: tt_ProvisionMulticastFlow_def multicast_group_def)

end
