(* ===== verification/Samples.thy ===== *)
theory Samples
  imports Provisioning
begin

text \<open>
  Concrete data for the evaluations: a 16-port device, a technology profile instance with two GEM ports, a
  subscriber, and devices that accept everything or refuse one kind of request.
\<close>

definition sample_device :: DeviceInfo where
  "sample_device = \<lparr>di_PonPorts = 16, di_Technology = ''XGS-PON'', di_Ranges = []\<rparr>"

definition sample_manager :: "uint32 \<Rightarrow> OpenOltResourceMgr" where
  "sample_manager pon = \<lparr>rm_deviceInfo = sample_device, rm_intfID = pon, rm_PonRsrMgr = None\<rparr>"

definition sample_scheduler :: "Direction \<Rightarrow> SchedulerAttributes" where
  "sample_scheduler direction =
     \<lparr>sa_Direction = direction, sa_AllocId = 1024, sa_AdditionalBw = AdditionalBW_BestEffort,
      sa_Priority = 0, sa_Weight = 0, sa_QSchedPolicy = StrictPriority\<rparr>"

definition sample_instance :: TechProfileInstance where
  "sample_instance =
     \<lparr>tp_Name = ''service/v1'', tp_Version = 1, tp_SubscriberIdentifier = ''olt-{1}/pon-{0}/onu-{1}/uni-{0}'',
      tp_ProfileType = ''XPON'', tp_NumGemPorts = 2, tp_InstanceControl = None,
      tp_UsScheduler = Some (sample_scheduler UPSTREAM), tp_DsScheduler = Some (sample_scheduler DOWNSTREAM),
      tp_UpstreamGemPortAttributeList = [sample_gem 1024 ''0b00000001'', sample_gem 1025 ''0b00000010''],
      tp_DownstreamGemPortAttributeList = [sample_gem 1024 ''0b00000001'', sample_gem 1025 ''0b00000010'']\<rparr>"

definition sample_config :: "string \<Rightarrow> OpenOltScaleTesterConfig" where
  "sample_config name = NewOpenOltScaleTesterConfig\<lparr>WorkflowName := name, TpIDList := [64]\<rparr>"

definition sample_subscriber :: "string \<Rightarrow> uint32 \<Rightarrow> uint32 \<Rightarrow> Subscriber" where
  "sample_subscriber name pon onu =
     \<lparr>SubscriberName = ''ONU-0'', OnuID = onu, UniID = 0, PonIntf = pon,
      UniPortNo = MkUniPortNum pon onu 0, Ctag = 4091, Stag = 900, SubsReason = [],
      TpInstance = [64 \<mapsto> sample_instance], TestConfig = sample_config name, RsrMgr = sample_manager pon\<rparr>"

definition accepting :: env where
  "accepting = \<lparr>reply = (\<lambda>h r. None), rand_src = (\<lambda>n. n), tp_store = (\<lambda>h r. (Some sample_instance, None))\<rparr>"

text \<open>A device that refuses every queue request.\<close>

definition no_queues :: env where
  "no_queues = accepting\<lparr>reply := (\<lambda>h r. case r of
     CreateTrafficQueues q \<Rightarrow> Some (StatusError Internal ''no queues'') | _ \<Rightarrow> None)\<rparr>"

text \<open>A device that refuses every group operation.\<close>

definition no_groups :: env where
  "no_groups = accepting\<lparr>reply := (\<lambda>h r. case r of
     PerformGroupOp g \<Rightarrow> Some (StatusError Internal ''no groups'') | _ \<Rightarrow> None)\<rparr>"

lemma sample_subscriber_fields [simp]:
  "OnuID (sample_subscriber name pon onu) = onu" "UniID (sample_subscriber name pon onu) = 0"
  "PonIntf (sample_subscriber name pon onu) = pon"
  "TestConfig (sample_subscriber name pon onu) = sample_config name"
  "RsrMgr (sample_subscriber name pon onu) = sample_manager pon"
  by (simp_all add: sample_subscriber_def)

lemma sample_config_fields [simp]:
  "WorkflowName (sample_config name) = name" "TpIDList (sample_config name) = [64]"
  by (simp_all add: sample_config_def)

lemma sample_manager_fields [simp]:
  "rm_intfID (sample_manager pon) = pon" "di_PonPorts (rm_deviceInfo (sample_manager pon)) = 16"
  by (simp_all add: sample_manager_def sample_device_def)

lemma sample_the_tp [simp]: "the_tp (sample_subscriber name pon onu) = sample_instance"
  by (simp add: the_tp_def) (simp add: sample_subscriber_def)

lemma sample_ready [simp]: "ready (sample_subscriber name pon onu)"
  by (simp add: ready_def) (simp add: sample_subscriber_def sample_instance_def)

lemma env_samples [simp]:
  "reply accepting h r = None"
  "tp_store accepting hs q = (Some sample_instance, None)"
  by (simp_all add: accepting_def)

end
