(* ===== verification/Pool_Log.thy ===== *)
theory Pool_Log
  imports Effects
begin

text \<open>
  Schedules with their log: \<open>pool_runs E c log c'\<close> is \<open>pool_steps\<close> that also says which goroutine of the pool made which
  call, and what the device answered. \<open>traces Q p\<close> relates the value a program ends with to the
  calls it made itself and their answers. The lemmas lift both kinds of path predicates from the programs of a pool to the log.
\<close>

section \<open>Logged schedules\<close>

type_synonym call = "rpc \<times> go_error option"
type_synonym call_log = "(nat \<times> call) list"

primrec calls_of :: "env \<Rightarrow> 'a prog \<Rightarrow> world \<Rightarrow> call list" where
  "calls_of E (Ret x) w = []"
| "calls_of E (Panic e) w = []"
| "calls_of E (NextFlowID m k) w = []"
| "calls_of E (Tag r k) w = []"
| "calls_of E (LoadPon k) w = []"
| "calls_of E (AddPon d k) w = []"
| "calls_of E (Rand n k) w = []"
| "calls_of E (Call r k) w = [(r, reply E (sent w) r)]"
| "calls_of E (TpCreate r k) w = []"

inductive pool_runs :: "env \<Rightarrow> 'a prog list \<times> world \<Rightarrow> call_log \<Rightarrow> 'a prog list \<times> world \<Rightarrow> bool"
  for E :: env and c :: "'a prog list \<times> world" where
  start: "pool_runs E c [] c"
| move: "pool_runs E c log (ps, w) \<Longrightarrow> i < length ps \<Longrightarrow> \<forall>p \<in> set ps. \<not> is_panic p \<Longrightarrow>
     step1 E (ps ! i) w = Some (p', w') \<Longrightarrow>
     pool_runs E c (log @ map (Pair i) (calls_of E (ps ! i) w)) (ps[i := p'], w')"

text \<open>The entries of one goroutine in a log, and the requests of all of them.\<close>

definition own_calls :: "nat \<Rightarrow> (nat \<times> 'a) list \<Rightarrow> 'a list" where
  "own_calls i log = map snd (filter (\<lambda>e. fst e = i) log)"

definition requests :: "call_log \<Rightarrow> rpc list" where
  "requests log = map (fst \<circ> snd) log"

primrec traces :: "'a prog \<Rightarrow> (call list \<Rightarrow> 'a \<Rightarrow> bool) \<Rightarrow> bool" where
  "traces (Ret x) Q = Q [] x"
| "traces (Panic e) Q = True"
| "traces (NextFlowID m k) Q = (\<forall>v. traces (k v) Q)"
| "traces (Tag r k) Q = (\<forall>v. traces (k v) Q)"
| "traces (LoadPon k) Q = (\<forall>v. traces (k v) Q)"
| "traces (AddPon d k) Q = (\<forall>v. traces (k v) Q)"
| "traces (Rand n k) Q = (\<forall>v. traces (k v) Q)"
| "traces (Call r k) Q = (\<forall>v. traces (k v) (\<lambda>l. Q ((r, v) # l)))"
| "traces (TpCreate r k) Q = (\<forall>v. traces (k v) Q)"

section \<open>Logs\<close>

lemma own_calls_simps [simp]:
  "own_calls i [] = []"
  "own_calls i (log @ log') = own_calls i log @ own_calls i log'"
  "own_calls i (map (Pair j) cs) = (if i = j then cs else [])"
  by (auto simp: own_calls_def comp_def)

lemma own_calls_iff: "c \<in> set (own_calls i log) \<longleftrightarrow> (i, c) \<in> set log"
  by (force simp: own_calls_def)

lemma requests_simps [simp]:
  "requests [] = []"
  "requests (log @ log') = requests log @ requests log'"
  "requests (map (Pair j) cs) = map fst cs"
  by (simp_all add: requests_def)

lemma step1_calls: "step1 E p w = Some (p', w') \<Longrightarrow> sent w' = sent w @ map fst (calls_of E p w)"
  by (cases p) (auto simp: flow_id_section_def Let_def)

text \<open>Every schedule has a log, and a log is that of a schedule.\<close>

lemma pool_runs_steps:
  assumes "pool_runs E c log d"
  shows "pool_steps E c d"
  using assms by (induction) (auto intro: pool_steps.intros pool_step.intros)

lemma pool_steps_runs:
  assumes "pool_steps E c d"
  shows "\<exists>log. pool_runs E c log d"
  using assms
proof induction
  case (more c d e)
  from more.IH obtain log where log: "pool_runs E c log d" ..
  from more.hyps(2) show ?case
  proof cases
    case (move i ps w p' w')
    with log show ?thesis by (auto dest: pool_runs.move)
  qed
qed (auto intro: pool_runs.start)

lemma pool_runs_requests:
  assumes "pool_runs E (ps, w) log (ps', w')"
  shows "sent w' = sent w @ requests log \<and> length ps' = length ps"
  using assms
proof (induction log "(ps', w')" arbitrary: ps' w' rule: pool_runs.induct)
  case (move log ps1 w1 i p' w')
  then show ?case using step1_calls [of E "ps1 ! i" w1 p' w'] by simp
qed simp

section \<open>Path predicates and logs\<close>

lemma safe_calls:
  assumes "safe P Q p"
  shows "\<forall>c \<in> set (calls_of E p w). P (fst c)"
  using assms by (cases p) simp_all

lemma pool_runs_safe:
  assumes "pool_runs E (ps, w) log (ps', w')" "pool_safe P Q ps"
  shows "pool_safe P Q ps' \<and> (\<forall>(i, r, a) \<in> set log. i < length ps \<and> P i r)"
  using assms
proof (induction log "(ps', w')" arbitrary: ps' w' rule: pool_runs.induct)
  case (move log ps1 w1 i p' w')
  from move.hyps(2) [OF move.prems] have IH: "pool_safe P Q ps1"
    "\<forall>(i, r, a) \<in> set log. i < length ps \<and> P i r" by blast+
  have s: "safe (P i) (Q i) (ps1 ! i)" using IH(1) move.hyps(3) by (simp add: pool_safe_def)
  have "pool_safe P Q (ps1[i := p'])"
    using safe_step1 [OF s move.hyps(5)] IH(1) move.hyps(3) by (auto simp: pool_safe_def nth_list_update)
  moreover have "length ps1 = length ps" using pool_runs_requests [OF move.hyps(1)] by simp
  ultimately show ?case using IH(2) safe_calls [OF s, of E w1] move.hyps(3) by auto
qed simp

lemma traces_step1:
  assumes "traces p Q" "step1 E p w = Some (p', w')"
  shows "traces p' (\<lambda>l. Q (calls_of E p w @ l))"
  using assms by (cases p) (auto simp del: split_paired_All)

lemma pool_runs_traces:
  assumes "pool_runs E (ps, w) log (ps', w')" "\<And>i. i < length ps \<Longrightarrow> traces (ps ! i) (Q i)" "i < length ps"
  shows "traces (ps' ! i) (\<lambda>l. Q i (own_calls i log @ l))"
  using assms
proof (induction log "(ps', w')" arbitrary: ps' w' i rule: pool_runs.induct)
  case (move log ps1 w1 j p' w')
  have len: "length ps1 = length ps" using pool_runs_requests [OF move.hyps(1)] by simp
  have "traces (ps1 ! i) (\<lambda>l. Q i (own_calls i log @ l))" using move.hyps(2) move.prems by blast
  then show ?case
    using traces_step1 [of "ps1 ! j" "\<lambda>l. Q i (own_calls i log @ l)" E w1 p' w'] move.hyps(3,5) move.prems(2) len
    by (cases "i = j") simp_all
qed simp

lemma traces_mono: "traces p Q \<Longrightarrow> (\<And>l x. Q l x \<Longrightarrow> Q' l x) \<Longrightarrow> traces p Q'"
proof (induction p arbitrary: Q Q')
  case (Call r k)
  have "traces (k v) (\<lambda>l. Q' ((r, v) # l))" for v
    by (rule Call.IH [OF rangeI, of _ "\<lambda>l. Q ((r, v) # l)"]) (use Call.prems in auto)
  then show ?case by simp
qed (simp_all del: split_paired_All, (metis rangeI)+)

lemma traces_True: "traces p (\<lambda>l x. True)"
  by (induction p) simp_all

lemma traces_bindp:
  "traces m R \<Longrightarrow> (\<And>l x. R l x \<Longrightarrow> traces (f x) (\<lambda>l'. Q (l @ l'))) \<Longrightarrow> traces (bindp m f) Q"
proof (induction m arbitrary: R Q)
  case (Call r k)
  have "traces (bindp (k v) f) (\<lambda>l. Q ((r, v) # l))" for v
    by (rule Call.IH [OF rangeI, where R = "\<lambda>l. R ((r, v) # l)"]) (use Call.prems in fastforce)+
  then show ?case by simp
qed fastforce+

lemma traces_and_then:
  assumes "traces m Q" "traces n Q" "\<And>l l' x. Q l' x \<Longrightarrow> Q (l @ l') x"
  shows "traces (and_then m n) Q"
  unfolding and_then_def
  by (rule traces_bindp [OF assms(1)]) (auto split: option.split intro: traces_mono [OF assms(2)] assms(3))

text \<open>A program of a pool may run to its end while the others wait.\<close>

lemma pool_runs_append:
  assumes "pool_runs E d log' e" "pool_runs E c log d"
  shows "pool_runs E c (log @ log') e"
  using assms
proof (induction)
  case (move log' ps w i p' w')
  then show ?case using pool_runs.move [of E c "log @ log'" ps w i p' w'] by simp
qed simp

lemma pool_runs_one:
  assumes "run E p w = (r, w')" "i < length ps" "ps ! i = p" "\<forall>q \<in> set ps. \<not> is_panic q"
  shows "\<exists>cs. pool_runs E (ps, w) (map (Pair i) cs) (ps[i := result_prog r], w') \<and> sent w' = sent w @ map fst cs"
proof -
  let ?I = "\<lambda>q v. \<exists>cs. pool_runs E (ps, w) (map (Pair i) cs) (ps[i := q], v)"
  have np: "\<not> is_panic q" if "step1 E q v = Some c" for q :: "'a prog" and v c
    using that by (cases q) (simp_all add: is_panic_def)
  have step: "?I q' v'" if s: "step1 E q v = Some (q', v')" and i: "?I q v" for q v q' v'
  proof -
    from i obtain cs where "pool_runs E (ps, w) (map (Pair i) cs) (ps[i := q], v)" ..
    from pool_runs.move [OF this, of i q' v'] show ?thesis
      using s np [OF s] assms(2,4) by (auto simp flip: map_append dest!: set_update_subset_insert [THEN subsetD])
  qed
  have "?I p w" using pool_runs.start [of E "(ps, w)"] assms(3) by (intro exI [of _ "[]"]) auto
  then have "case run E p w of (Done x, v) \<Rightarrow> ?I (Ret x) v | (Crashed e, v) \<Rightarrow> ?I (Panic e) v"
    by (intro run_inv [where I = ?I]) (use step in blast)+
  then obtain cs where "pool_runs E (ps, w) (map (Pair i) cs) (ps[i := result_prog r], w')"
    using assms(1) by (auto simp: result_prog_def split: outcome.splits)
  then show ?thesis using pool_runs_requests by force
qed

lemma pool_runs_two:
  assumes "\<not> is_panic p" "\<not> is_panic q" "fst (run E p w) = Done x"
  shows "\<exists>cs ds. pool_runs E ([p, q], w) (map (Pair 0) cs @ map (Pair 1) ds)
       ([Ret x, result_prog (fst (run E q (snd (run E p w))))], snd (run E q (snd (run E p w)))) \<and>
     sent (snd (run E p w)) = sent w @ map fst cs \<and>
     sent (snd (run E q (snd (run E p w)))) = sent (snd (run E p w)) @ map fst ds"
proof -
  obtain w1 where 1: "run E p w = (Done x, w1)" using assms(3) by (cases "run E p w") simp
  obtain r w2 where 2: "run E q w1 = (r, w2)" by (cases "run E q w1")
  obtain cs where cs: "pool_runs E ([p, q], w) (map (Pair 0) cs) ([Ret x, q], w1)" "sent w1 = sent w @ map fst cs"
    using pool_runs_one [OF 1, of 0 "[p, q]"] assms(1,2) by (auto simp: result_prog_def)
  obtain ds where ds: "pool_runs E ([Ret x, q], w1) (map (Pair 1) ds) ([Ret x, result_prog r], w2)"
    "sent w2 = sent w1 @ map fst ds"
    using pool_runs_one [OF 2, of 1 "[Ret x, q]"] assms(2) by (auto simp: is_panic_def)
  show ?thesis using pool_runs_append [OF ds(1) cs(1)] cs(2) ds(2) 1 2 by auto
qed

end
