(* ===== verification/Workflow_Manager.thy ===== *)
theory Workflow_Manager
  imports Dt_Workflow Tt_Workflow Samples Pool_Log
begin

text \<open>
  Model of \<open>core/workflow\_manager.go\<close>: the \<open>WorkFlow\<close> interface as a record of its operations, the
  three implementations, the choice by name, the deployment of a subscriber and the trap flows on the NNI.

  The contract of an implementation is the locale \<open>workflow\<close>: no operation panics on a ready subscriber,
  sends a request about another subscriber or, the group test apart, reports anything but a reason code, and run alone the
  operations play a plan. What a deployment does follows from the contract; the ATT, DT and TT
  implementations are shown to meet it.
\<close>

section \<open>Definitions\<close>

record WorkFlow =
  wf_ProvisionScheds :: "Subscriber \<Rightarrow> go_error option prog"
  wf_ProvisionQueues :: "Subscriber \<Rightarrow> go_error option prog"
  wf_ProvisionEapFlow :: "Subscriber \<Rightarrow> go_error option prog"
  wf_ProvisionDhcpIPV4Flow :: "Subscriber \<Rightarrow> go_error option prog"
  wf_ProvisionDhcpIPV6Flow :: "Subscriber \<Rightarrow> go_error option prog"
  wf_ProvisionIgmpFlow :: "Subscriber \<Rightarrow> go_error option prog"
  wf_ProvisionHsiaFlow :: "Subscriber \<Rightarrow> go_error option prog"
  wf_ProvisionVoipFlow :: "Subscriber \<Rightarrow> go_error option prog"
  wf_ProvisionVodFlow :: "Subscriber \<Rightarrow> go_error option prog"
  wf_ProvisionMgmtFlow :: "Subscriber \<Rightarrow> go_error option prog"
  wf_ProvisionMulticastFlow :: "Subscriber \<Rightarrow> go_error option prog"

definition AttWorkFlow :: WorkFlow where
  "AttWorkFlow =
     \<lparr>wf_ProvisionScheds = att_ProvisionScheds, wf_ProvisionQueues = att_ProvisionQueues,
      wf_ProvisionEapFlow = att_ProvisionEapFlow, wf_ProvisionDhcpIPV4Flow = att_ProvisionDhcpIPV4Flow,
      wf_ProvisionDhcpIPV6Flow = att_ProvisionDhcpIPV6Flow, wf_ProvisionIgmpFlow = att_ProvisionIgmpFlow,
      wf_ProvisionHsiaFlow = att_ProvisionHsiaFlow, wf_ProvisionVoipFlow = att_ProvisionVoipFlow,
      wf_ProvisionVodFlow = att_ProvisionVodFlow, wf_ProvisionMgmtFlow = att_ProvisionMgmtFlow,
      wf_ProvisionMulticastFlow = att_ProvisionMulticastFlow\<rparr>"

definition DtWorkFlow :: WorkFlow where
  "DtWorkFlow =
     \<lparr>wf_ProvisionScheds = dt_ProvisionScheds, wf_ProvisionQueues = dt_ProvisionQueues,
      wf_ProvisionEapFlow = dt_ProvisionEapFlow, wf_ProvisionDhcpIPV4Flow = dt_ProvisionDhcpIPV4Flow,
      wf_ProvisionDhcpIPV6Flow = dt_ProvisionDhcpIPV6Flow, wf_ProvisionIgmpFlow = dt_ProvisionIgmpFlow,
      wf_ProvisionHsiaFlow = dt_ProvisionHsiaFlow, wf_ProvisionVoipFlow = dt_ProvisionVoipFlow,
      wf_ProvisionVodFlow = dt_ProvisionVodFlow, wf_ProvisionMgmtFlow = dt_ProvisionMgmtFlow,
      wf_ProvisionMulticastFlow = dt_ProvisionMulticastFlow\<rparr>"

definition TtWorkFlow :: WorkFlow where
  "TtWorkFlow =
     \<lparr>wf_ProvisionScheds = tt_ProvisionScheds, wf_ProvisionQueues = tt_ProvisionQueues,
      wf_ProvisionEapFlow = tt_ProvisionEapFlow, wf_ProvisionDhcpIPV4Flow = tt_ProvisionDhcpIPV4Flow,
      wf_ProvisionDhcpIPV6Flow = tt_ProvisionDhcpIPV6Flow, wf_ProvisionIgmpFlow = tt_ProvisionIgmpFlow,
      wf_ProvisionHsiaFlow = tt_ProvisionHsiaFlow, wf_ProvisionVoipFlow = tt_ProvisionVoipFlow,
      wf_ProvisionVodFlow = tt_ProvisionVodFlow, wf_ProvisionMgmtFlow = tt_ProvisionMgmtFlow,
      wf_ProvisionMulticastFlow = tt_ProvisionMulticastFlow\<rparr>"

text \<open>A nil interface, which the caller dereferences, when the name is not known.\<close>

definition getWorkFlow :: "Subscriber \<Rightarrow> WorkFlow option" where
  "getWorkFlow subs =
     (if WorkflowName (TestConfig subs) = ''ATT'' then Some AttWorkFlow
      else if WorkflowName (TestConfig subs) = ''DT'' then Some DtWorkFlow
      else if WorkflowName (TestConfig subs) = ''TT'' then Some TtWorkFlow
      else None)"

definition provision_unicast :: "WorkFlow \<Rightarrow> Subscriber \<Rightarrow> go_error option prog" where
  "provision_unicast wfl subs =
     and_then (wf_ProvisionScheds wfl subs)
    (and_then (wf_ProvisionQueues wfl subs)
    (and_then (wf_ProvisionEapFlow wfl subs)
    (and_then (wf_ProvisionDhcpIPV4Flow wfl subs)
    (and_then (wf_ProvisionDhcpIPV6Flow wfl subs)
    (and_then (wf_ProvisionIgmpFlow wfl subs)
    (and_then (wf_ProvisionHsiaFlow wfl subs)
    (and_then (wf_ProvisionVoipFlow wfl subs)
    (and_then (wf_ProvisionVodFlow wfl subs)
     (wf_ProvisionMgmtFlow wfl subs)))))))))"

text \<open>The subscriber is returned with its reason set.\<close>

definition DeployWorkflow :: "Subscriber \<Rightarrow> bool \<Rightarrow> Subscriber prog" where
  "DeployWorkflow subs isGroup =
     bindp (deref NilDereference (getWorkFlow subs)) (\<lambda>wfl.
     bindp (if isGroup then wf_ProvisionMulticastFlow wfl subs else provision_unicast wfl subs) (\<lambda>err.
     (case err of
        Some e \<Rightarrow> Ret (subs\<lparr>SubsReason := Error e\<rparr>)
      | None \<Rightarrow>
          (case ReasonCodeToReasonString SUBSCRIBER_PROVISION_SUCCESS of
             Done s \<Rightarrow> Ret (subs\<lparr>SubsReason := s\<rparr>)
           | Crashed p \<Rightarrow> Panic p))))"

definition ProvisionNniTrapFlow ::
  "OpenOltScaleTesterConfig \<Rightarrow> OpenOltResourceMgr \<Rightarrow> go_error option prog" where
  "ProvisionNniTrapFlow config rsrMgr =
     (if WorkflowName config = ''ATT'' then ProvisionAttNniTrapFlow config rsrMgr
      else if WorkflowName config = ''DT'' then ProvisionDtNniTrapFlow config rsrMgr
      else if WorkflowName config = ''TT'' then ProvisionTtNniTrapFlow config rsrMgr
      else Ret (Some (ErrorString ''workflow-not-supported'')))"

section \<open>The contract of an implementation\<close>

definition with_reason :: "Subscriber \<Rightarrow> go_error option \<Rightarrow> Subscriber" where
  "with_reason subs err =
     subs\<lparr>SubsReason := (case err of None \<Rightarrow> ''SUBSCRIBER_PROVISION_SUCCESS'' | Some e \<Rightarrow> Error e)\<rparr>"

locale workflow =
  fixes wfl :: WorkFlow
    and plan :: "env \<Rightarrow> Subscriber \<Rightarrow> uint64 \<Rightarrow> nat \<Rightarrow> plan"
    and flow_count :: "Subscriber \<Rightarrow> nat"
    and draw_count :: "Subscriber \<Rightarrow> nat"
  assumes ops_safe:
      "ready subs \<Longrightarrow> safe_for subs (wf_ProvisionScheds wfl subs)"
      "ready subs \<Longrightarrow> safe_for subs (wf_ProvisionQueues wfl subs)"
      "ready subs \<Longrightarrow> safe_for subs (wf_ProvisionEapFlow wfl subs)"
      "ready subs \<Longrightarrow> safe_for subs (wf_ProvisionDhcpIPV4Flow wfl subs)"
      "ready subs \<Longrightarrow> safe_for subs (wf_ProvisionDhcpIPV6Flow wfl subs)"
      "ready subs \<Longrightarrow> safe_for subs (wf_ProvisionIgmpFlow wfl subs)"
      "ready subs \<Longrightarrow> safe_for subs (wf_ProvisionHsiaFlow wfl subs)"
      "ready subs \<Longrightarrow> safe_for subs (wf_ProvisionVoipFlow wfl subs)"
      "ready subs \<Longrightarrow> safe_for subs (wf_ProvisionVodFlow wfl subs)"
      "ready subs \<Longrightarrow> safe_for subs (wf_ProvisionMgmtFlow wfl subs)"
    and multicast_safe: "ready subs \<Longrightarrow> di_PonPorts (rm_deviceInfo (RsrMgr subs)) \<noteq> 0 \<Longrightarrow>
      safe (for_subscriber subs) any (wf_ProvisionMulticastFlow wfl subs)"
    and unicast_plan: "ready subs \<Longrightarrow> rm_intfID (RsrMgr subs) = m \<Longrightarrow>
      follows E m (provision_unicast wfl subs) (plan E subs) (flow_count subs) (draw_count subs)"
begin

lemma unicast_safe: "ready subs \<Longrightarrow> safe_for subs (provision_unicast wfl subs)"
  unfolding provision_unicast_def by (intro safe_and_then ops_safe)

lemma deploy_eq:
  assumes "getWorkFlow subs = Some wfl"
  shows "DeployWorkflow subs isGroup =
     bindp (if isGroup then wf_ProvisionMulticastFlow wfl subs else provision_unicast wfl subs)
       (\<lambda>err. Ret (with_reason subs err))"
proof -
  have "(\<lambda>err. case err of Some e \<Rightarrow> Ret (subs\<lparr>SubsReason := Error e\<rparr>)
      | None \<Rightarrow> (case ReasonCodeToReasonString SUBSCRIBER_PROVISION_SUCCESS of
          Done s \<Rightarrow> Ret (subs\<lparr>SubsReason := s\<rparr>) | Crashed p \<Rightarrow> Panic p)) =
    (\<lambda>err. Ret (with_reason subs err))"
    by (simp add: with_reason_def fun_eq_iff split: option.split)
  then show ?thesis by (simp add: DeployWorkflow_def assms)
qed

lemma deploy_safe:
  assumes "ready subs" "getWorkFlow subs = Some wfl" "isGroup \<longrightarrow> di_PonPorts (rm_deviceInfo (RsrMgr subs)) \<noteq> 0"
  shows "safe (for_subscriber subs) (\<lambda>s. \<exists>err. s = with_reason subs err \<and> (\<not> isGroup \<longrightarrow> reason_error err))
     (DeployWorkflow subs isGroup)"
  unfolding deploy_eq [OF assms(2)]
  by (rule safe_bindp [where R = "\<lambda>err. \<not> isGroup \<longrightarrow> reason_error err"])
    (use assms in \<open>auto intro: safe_mono [OF multicast_safe] safe_mono [OF unicast_safe]\<close>)

lemma deploy_run:
  assumes "ready subs" "getWorkFlow subs = Some wfl"
  shows "fst (run E (DeployWorkflow subs False) w) =
       Done (with_reason subs (fst (play E (sent w) (plan E subs (flow_id w (rm_intfID (RsrMgr subs))) (draws w)))))"
    and "sent (snd (run E (DeployWorkflow subs False) w)) =
       snd (play E (sent w) (plan E subs (flow_id w (rm_intfID (RsrMgr subs))) (draws w)))"
  using unicast_plan [OF assms(1) HOL.refl, of E, unfolded follows_def, rule_format, of w]
  by (auto simp: deploy_eq [OF assms(2)] run_bindp split: prod.split outcome.split)

end

section \<open>The implementations meet the contract\<close>

lemma follows_skip: "follows E m q pl n d \<Longrightarrow> follows E m (and_then (Ret None) q) pl n d"
  by simp

lemma follows_skip_end: "follows E m p pl n d \<Longrightarrow> follows E m (and_then p (Ret None)) pl n d"
  by (rule follows_cong [OF follows_and_then [OF _ follows_Ret]]) simp_all

lemma att_plan_follows:
  assumes "ready subs" "rm_intfID (RsrMgr subs) = m"
  shows "follows E m (provision_unicast AttWorkFlow subs) (\<lambda>f r. att_plan subs f) 4 0"
  by (rule follows_cong [OF follows_and_then [OF follows_provision_scheds [OF assms(1)]
        follows_and_then [OF follows_provision_queues [OF assms(1)]
        follows_and_then [OF follows_att_trap(1) [OF assms]
        follows_and_then [OF follows_att_trap(2) [OF assms] follows_skip_end [OF follows_hsia [OF assms]]]]]]])
    (simp_all add: provision_unicast_def AttWorkFlow_def att_ProvisionScheds_def att_ProvisionQueues_def
      att_noop_defs att_plan_def hsia_plan_def add.commute)

lemma dt_plan_follows:
  assumes "ready subs" "rm_intfID (RsrMgr subs) = m"
  shows "follows E m (provision_unicast DtWorkFlow subs) (\<lambda>f r. dt_plan subs f) 2 0"
  by (rule follows_cong [OF follows_and_then [OF follows_provision_scheds [OF assms(1)]
        follows_and_then [OF follows_provision_queues [OF assms(1)] follows_skip_end [OF follows_hsia [OF assms]]]]])
    (simp_all add: provision_unicast_def DtWorkFlow_def dt_ProvisionScheds_def dt_ProvisionQueues_def
      dt_noop_defs dt_plan_def dt_hsia_is_att_hsia)

lemma tt_plan_follows:
  assumes "ready subs" "rm_intfID (RsrMgr subs) = m"
  shows "follows E m (provision_unicast TtWorkFlow subs) (tt_plan E subs)
    (12 * length (gem_pbits (the_gems subs))) (18 * length (gem_pbits (the_gems subs)))"
  by (rule follows_cong [OF follows_and_then [OF follows_provision_scheds [OF assms(1)]
        follows_and_then [OF follows_provision_queues [OF assms(1)]
        follows_and_then [OF follows_tt_hsia [OF assms]
        follows_and_then [OF follows_tt_voip [OF assms]
        follows_and_then [OF follows_tt_vod [OF assms] follows_tt_mgmt [OF assms]]]]]]])
    (simp_all add: provision_unicast_def TtWorkFlow_def tt_ProvisionScheds_def tt_ProvisionQueues_def
      tt_noop_defs tt_plan_def Let_def algebra_simps)

interpretation att: workflow AttWorkFlow "\<lambda>E subs f r. att_plan subs f" "\<lambda>subs. 4" "\<lambda>subs. 0"
proof unfold_locales
  show "follows E m (provision_unicast AttWorkFlow subs) (\<lambda>f r. att_plan subs f) 4 0"
    if "ready subs" "rm_intfID (RsrMgr subs) = m" for E m subs
    using that by (rule att_plan_follows)
qed (simp_all add: AttWorkFlow_def att_ProvisionScheds_def att_ProvisionQueues_def att_noop_defs
    safe_att safe_provision_scheds safe_provision_queues any_def)

interpretation dt: workflow DtWorkFlow "\<lambda>E subs f r. dt_plan subs f" "\<lambda>subs. 2" "\<lambda>subs. 0"
proof unfold_locales
  show "follows E m (provision_unicast DtWorkFlow subs) (\<lambda>f r. dt_plan subs f) 2 0"
    if "ready subs" "rm_intfID (RsrMgr subs) = m" for E m subs
    using that by (rule dt_plan_follows)
qed (simp_all add: DtWorkFlow_def dt_ProvisionScheds_def dt_ProvisionQueues_def dt_noop_defs
    safe_dt safe_provision_scheds safe_provision_queues any_def)

interpretation tt: workflow TtWorkFlow tt_plan
  "\<lambda>subs. 12 * length (gem_pbits (the_gems subs))" "\<lambda>subs. 18 * length (gem_pbits (the_gems subs))"
proof unfold_locales
  show "follows E m (provision_unicast TtWorkFlow subs) (tt_plan E subs)
      (12 * length (gem_pbits (the_gems subs))) (18 * length (gem_pbits (the_gems subs)))"
    if "ready subs" "rm_intfID (RsrMgr subs) = m" for E m subs
    using that by (rule tt_plan_follows)
qed (simp_all add: TtWorkFlow_def tt_ProvisionScheds_def tt_ProvisionQueues_def tt_noop_defs
    safe_tt safe_tt_multicast safe_provision_scheds safe_provision_queues)

lemma getWorkFlow_cases:
  "getWorkFlow subs = None \<or> getWorkFlow subs = Some AttWorkFlow \<or> getWorkFlow subs = Some DtWorkFlow \<or>
   getWorkFlow subs = Some TtWorkFlow"
  by (simp add: getWorkFlow_def)

lemma getWorkFlow_name [simp]:
  "WorkflowName (TestConfig subs) = ''ATT'' \<Longrightarrow> getWorkFlow subs = Some AttWorkFlow"
  "WorkflowName (TestConfig subs) = ''DT'' \<Longrightarrow> getWorkFlow subs = Some DtWorkFlow"
  "WorkflowName (TestConfig subs) = ''TT'' \<Longrightarrow> getWorkFlow subs = Some TtWorkFlow"
  by (simp_all add: getWorkFlow_def)

text \<open>A subscriber whose deployment cannot crash.\<close>

definition deployable :: "bool \<Rightarrow> Subscriber \<Rightarrow> bool" where
  "deployable isGroup subs \<longleftrightarrow> ready subs \<and> getWorkFlow subs \<noteq> None \<and>
     (isGroup \<longrightarrow> di_PonPorts (rm_deviceInfo (RsrMgr subs)) \<noteq> 0)"

lemma safe_DeployWorkflow [go_safe]:
  assumes "deployable isGroup subs"
  shows "safe (for_subscriber subs) (\<lambda>s. \<exists>err. s = with_reason subs err \<and> (\<not> isGroup \<longrightarrow> reason_error err))
     (DeployWorkflow subs isGroup)"
  using assms getWorkFlow_cases [of subs] att.deploy_safe [of subs isGroup] dt.deploy_safe [of subs isGroup]
    tt.deploy_safe [of subs isGroup]
  by (auto simp: deployable_def)

lemma deploy_quiet:
  assumes "deployable isGroup subs"
  shows "\<not> is_panic (DeployWorkflow subs isGroup)"
    and "\<exists>err. fst (run E (DeployWorkflow subs isGroup) w) = Done (with_reason subs err)"
  using safe_not_panic [OF safe_DeployWorkflow [OF assms]] safe_run [OF safe_DeployWorkflow [OF assms], of E w] by auto

text \<open>Two deployments, one after the other.\<close>

lemma deploy_two:
  assumes "deployable g a" "deployable g b"
    and "run E (DeployWorkflow a g) w = (x, w1)" "run E (DeployWorkflow b g) w1 = (y, w2)"
  shows "\<exists>cs ds. pool_runs E (map (\<lambda>subs. DeployWorkflow subs g) [a, b], w) (map (Pair 0) cs @ map (Pair 1) ds)
       ([result_prog x, result_prog y], w2) \<and> sent w1 = sent w @ map fst cs \<and> sent w2 = sent w1 @ map fst ds"
proof -
  obtain err where "x = Done (with_reason a err)" using deploy_quiet(2) [OF assms(1), of E w] assms(3) by auto
  with pool_runs_two [OF deploy_quiet(1) [OF assms(1)] deploy_quiet(1) [OF assms(2)], of E w "with_reason a err"] assms(3,4)
  show ?thesis by (simp add: result_prog_def)
qed

text \<open>
  In the group test an error is a reason code or what the device answered to a call of the deployment itself.
\<close>

definition own_error :: "call list \<Rightarrow> go_error option \<Rightarrow> bool" where
  "own_error l err \<longleftrightarrow> reason_error err \<or> (\<exists>r. (r, err) \<in> set l)"

lemma traces_quiet: "(\<And>l. Q l x) \<Longrightarrow> traces (Ret x) Q"
  by simp

lemma own_error_and_then:
  "traces m own_error \<Longrightarrow> traces n own_error \<Longrightarrow> traces (and_then m n) own_error"
  by (rule traces_and_then) (auto simp: own_error_def)

lemma own_error_blocks:
  assumes "ready (gd_Subs grp)"
  shows "traces (CreateGroup grp) own_error" "traces (OpMulticastTrafficQueue grp b) own_error"
    "traces (OpMemberToGroup grp b) own_error" "traces (AddMulticastFlow grp) own_error" "traces (AddMulticastSched grp) own_error"
proof -
  obtain us ds where "tp_UsScheduler (the_tp (gd_Subs grp)) = Some us" "tp_DsScheduler (the_tp (gd_Subs grp)) = Some ds"
    using assms by (rule ready_schedulers)
  then show "traces (AddMulticastSched grp) own_error"
    by (simp add: AddMulticastSched_def Let_def ready_pointer [OF assms] GetTrafficScheduler_Some own_error_def)
qed (auto simp: CreateGroup_def OpMulticastTrafficQueue_def OpMemberToGroup_def PerformGroupOperation_def AddMulticastFlow_def
    GetFlowID_def GenerateMulticastMac_def send_raw_flow_def Let_def own_error_def)

lemma traces_DeployWorkflow:
  assumes "deployable isGroup subs"
  shows "traces (DeployWorkflow subs isGroup) (\<lambda>l s. \<exists>err. s = with_reason subs err \<and> (isGroup \<longrightarrow> own_error l err))"
proof -
  have grp: "traces (AddMulticastQueueFlow (multicast_group subs b)) own_error" for b
    using own_error_blocks [of "multicast_group subs b"] assms
    by (auto simp: AddMulticastQueueFlow_def when_p_def multicast_group_def own_error_def deployable_def intro!: own_error_and_then)
  obtain wfl where wfl: "getWorkFlow subs = Some wfl"
    "DeployWorkflow subs isGroup = bindp (if isGroup then wf_ProvisionMulticastFlow wfl subs else provision_unicast wfl subs)
       (\<lambda>err. Ret (with_reason subs err))"
    using assms getWorkFlow_cases [of subs] att.deploy_eq [of subs isGroup] dt.deploy_eq [of subs isGroup]
      tt.deploy_eq [of subs isGroup] by (auto simp: deployable_def)
  have "isGroup \<Longrightarrow> traces (wf_ProvisionMulticastFlow wfl subs) own_error"
    using assms wfl(1) getWorkFlow_cases [of subs] grp
    by (auto simp: AttWorkFlow_def DtWorkFlow_def TtWorkFlow_def att_noop_defs dt_noop_defs tt_ProvisionMulticastFlow_def
        deployable_def own_error_def)
  then have "traces (if isGroup then wf_ProvisionMulticastFlow wfl subs else provision_unicast wfl subs)
      (\<lambda>l err. isGroup \<longrightarrow> own_error l err)"
    by (cases isGroup) (auto intro: traces_mono traces_True)
  then show ?thesis unfolding wfl(2)
    by (rule traces_bindp) (auto simp: own_error_def)
qed

section \<open>Properties\<close>

text \<open>
  C3: deploying an ATT subscriber on its own plays the ATT plan, for every behaviour of the device: the
  scheduler requests (downstream, upstream), the queue requests, the EAPOL, DHCPv4 and the two data flows
  with four consecutive flow IDs, in this order and up to the first one refused, and the
  reason recorded is that of the refused request, or success.
\<close>

theorem att_deploy_plays_plan:
  assumes "ready subs" "WorkflowName (TestConfig subs) = ''ATT''"
  shows "let pl = play E (sent w) (att_plan subs (flow_id w (rm_intfID (RsrMgr subs))));
             res = run E (DeployWorkflow subs False) w
         in fst res = Done (with_reason subs (fst pl)) \<and> sent (snd res) = snd pl"
  using assms by (simp add: Let_def att.deploy_run)

theorem att_deploy_plays_plan_witness:
  "fst (run no_queues (DeployWorkflow (sample_subscriber ''ATT'' 0 1) False) world_init) =
     Done ((sample_subscriber ''ATT'' 0 1)\<lparr>SubsReason := ''QUEUE_CREATION_FAILED''\<rparr>) \<and>
   length (sent (snd (run no_queues (DeployWorkflow (sample_subscriber ''ATT'' 0 1) False) world_init))) = 3"
  using att_deploy_plays_plan [of "sample_subscriber ''ATT'' 0 1" no_queues world_init]
  by (simp add: Let_def att_plan_def sched_plan_def queue_plan_def sched_request_def queue_request_def
      no_queues_def accepted_def with_reason_def world_init_def)

text \<open>
  C5: deploying a DT subscriber plays the DT plan: schedulers, queues and the two data flows with
  two consecutive flow IDs, with the same rule for refusals.
\<close>

theorem dt_deploy_plays_plan:
  assumes "ready subs" "WorkflowName (TestConfig subs) = ''DT''"
  shows "let pl = play E (sent w) (dt_plan subs (flow_id w (rm_intfID (RsrMgr subs))));
             res = run E (DeployWorkflow subs False) w
         in fst res = Done (with_reason subs (fst pl)) \<and> sent (snd res) = snd pl"
  using assms by (simp add: Let_def dt.deploy_run)

theorem dt_deploy_plays_plan_witness:
  "fst (run accepting (DeployWorkflow (sample_subscriber ''DT'' 0 1) False) world_init) =
     Done ((sample_subscriber ''DT'' 0 1)\<lparr>SubsReason := ''SUBSCRIBER_PROVISION_SUCCESS''\<rparr>) \<and>
   length (sent (snd (run accepting (DeployWorkflow (sample_subscriber ''DT'' 0 1) False) world_init))) = 6"
  using dt_deploy_plays_plan [of "sample_subscriber ''DT'' 0 1" accepting world_init]
  by (simp add: Let_def dt_plan_def sched_plan_def queue_plan_def hsia_plan_def
      accepted_def with_reason_def world_init_def)

text \<open>
  C4: deploying a TT subscriber plays the TT plan: schedulers, queues, then for the HSIA, VoIP, VoD and
  management services in turn one group of two, three, four and three flows for every priority bit of
  every upstream GEM port; all flows of a group are sent before its first refusal ends the deployment.
\<close>

theorem tt_deploy_plays_plan:
  assumes "ready subs" "WorkflowName (TestConfig subs) = ''TT''"
  shows "let pl = play E (sent w) (tt_plan E subs (flow_id w (rm_intfID (RsrMgr subs))) (draws w));
             res = run E (DeployWorkflow subs False) w
         in fst res = Done (with_reason subs (fst pl)) \<and> sent (snd res) = snd pl"
  using assms by (simp add: Let_def tt.deploy_run)

lemma sample_gems: "gem_pbits (the_gems (sample_subscriber name pon onu)) = [(0, 1024), (1, 1025)]"
  by (simp add: the_gems_def sample_instance_def gem_pbits_def sample_gem_def set_pbits_def TrimPrefix_def)

theorem tt_deploy_plays_plan_witness:
  "fst (run accepting (DeployWorkflow (sample_subscriber ''TT'' 0 1) False) world_init) =
     Done ((sample_subscriber ''TT'' 0 1)\<lparr>SubsReason := ''SUBSCRIBER_PROVISION_SUCCESS''\<rparr>) \<and>
   length (sent (snd (run accepting (DeployWorkflow (sample_subscriber ''TT'' 0 1) False) world_init))) = 4 + 2 * 12"
proof -
  have all: "play accepting h gs = (None, h @ concat (map (map fst) gs))" for h gs
    by (rule play_accepting) (simp add: accepted_def)
  show ?thesis
    using tt_deploy_plays_plan [of "sample_subscriber ''TT'' 0 1" accepting world_init]
    by (simp add: Let_def all tt_plan_def sample_gems sched_plan_def queue_plan_def hsia_group_def dhcp_group_def
        igmp_group_def with_reason_def world_init_def del: play.simps)
qed

text \<open>
  C6: whatever the schedule of the goroutines and the answers of the device, the deployments of any list of
  deployable subscribers never panic, and the log of the schedule has all requests sent, each by the goroutine of the subscriber
  it is about: a goroutine never sends a request with the identifiers of another's subscriber (the request that creates
  the multicast group carries none). A deployment that has finished left its subscriber unchanged but for the reason. That is success, the text of a
  reason code or, in the group test only, where errors of the device are recorded as they are, an error the device
  answered to a request of this very goroutine.
\<close>

theorem deployments_isolated:
  assumes "\<forall>subs \<in> set ss. deployable isGroup subs"
    and "pool_runs E (map (\<lambda>subs. DeployWorkflow subs isGroup) ss, w) log (ps', w')"
  shows "(\<forall>p \<in> set ps'. \<not> is_panic p) \<and> sent w' = sent w @ requests log \<and>
     (\<forall>(i, r, a) \<in> set log. i < length ss \<and> for_subscriber (ss ! i) r) \<and>
     (\<forall>i < length ss. \<forall>s. ps' ! i = Ret s \<longrightarrow>
        (\<exists>err. s = with_reason (ss ! i) err \<and> (reason_error err \<or> isGroup \<and> (\<exists>r. (i, r, err) \<in> set log))))"
proof -
  let ?ps = "map (\<lambda>subs. DeployWorkflow subs isGroup) ss"
  let ?P = "\<lambda>i. for_subscriber (ss ! i)"
  let ?Q = "\<lambda>i s. \<exists>err. s = with_reason (ss ! i) err \<and> (\<not> isGroup \<longrightarrow> reason_error err)"
  let ?T = "\<lambda>i l s. \<exists>err. s = with_reason (ss ! i) err \<and> (isGroup \<longrightarrow> own_error l err)"
  have start: "pool_safe ?P ?Q ?ps"
    using assms(1) by (simp add: pool_safe_def safe_DeployWorkflow)
  from pool_runs_safe [OF assms(2) this] pool_runs_requests [OF assms(2)]
  have r: "pool_safe ?P ?Q ps'" "\<forall>(i, r, a) \<in> set log. i < length ss \<and> ?P i r"
    "sent w' = sent w @ requests log" "length ps' = length ss" by simp_all
  have "traces (?ps ! i) (?T i)" if "i < length ?ps" for i
    using assms(1) that by (simp add: traces_DeployWorkflow)
  note t = pool_runs_traces [where Q = ?T, OF assms(2) this]
  have "\<exists>err. s = with_reason (ss ! i) err \<and> (reason_error err \<or> isGroup \<and> (\<exists>r. (i, r, err) \<in> set log))"
    if "i < length ss" "ps' ! i = Ret s" for i s
    using t [of i] r(1,4) that by (cases isGroup) (auto simp: pool_safe_def own_error_def own_calls_iff)
  with r pool_safe_not_panic [OF r(1)] show ?thesis by blast
qed

lemma run_no_groups:
  assumes "pon = 0 \<or> pon \<noteq> lastPonIntf w"
  shows "\<exists>w'. run no_groups (DeployWorkflow (sample_subscriber ''TT'' pon onu) True) w =
       (Done (with_reason (sample_subscriber ''TT'' pon onu) (Some (StatusError Internal ''no groups''))), w') \<and>
     lastPonIntf w' = lastPonIntf w + (if pon = lastPonIntf w then 1 else 0)"
  using assms
  by (auto simp: tt.deploy_eq run_bindp run_and_then tt_noop_defs TtWorkFlow_def tt_ProvisionMulticastFlow_def AddMulticastQueueFlow_def
      when_p_def multicast_group_def CreateGroup_def OpMemberToGroup_def PerformGroupOperation_def Let_def no_groups_def)

text \<open>A device that refuses the group operations: the two subscribers end with its error, each from its own request.\<close>

theorem deployments_isolated_witness:
  "let ss = [sample_subscriber ''TT'' 0 1, sample_subscriber ''TT'' 3 2];
       e = StatusError Internal ''no groups''
   in \<exists>log w'. pool_runs no_groups (map (\<lambda>subs. DeployWorkflow subs True) ss, world_init) log
        (map (\<lambda>subs. Ret (with_reason subs (Some e))) ss, w') \<and>
      sent w' = requests log \<and> list_all (\<lambda>(i, r, a). for_subscriber (ss ! i) r) log \<and>
      (\<exists>r a. (0, r, Some a) \<in> set log \<and> Error a = Error e) \<and> (\<exists>r a. (1, r, Some a) \<in> set log \<and> Error a = Error e)"
proof -
  let ?s = "[sample_subscriber ''TT'' 0 1, sample_subscriber ''TT'' 3 2]"
  let ?e = "Some (StatusError Internal ''no groups'')"
  obtain w1 where 1: "run no_groups (DeployWorkflow (?s ! 0) True) world_init = (Done (with_reason (?s ! 0) ?e), w1)"
    "lastPonIntf w1 = 1"
    using run_no_groups [of 0 world_init 1] by (auto simp: world_init_def)
  obtain w2 where 2: "run no_groups (DeployWorkflow (?s ! 1) True) w1 = (Done (with_reason (?s ! 1) ?e), w2)"
    using run_no_groups [of 3 w1 2] 1(2) by auto
  let ?ps = "map (\<lambda>subs. DeployWorkflow subs True) ?s"
  let ?ps2 = "[Ret (with_reason (?s ! 0) ?e), Ret (with_reason (?s ! 1) ?e)]"
  have "deployable True (?s ! 0)" "deployable True (?s ! 1)" by (simp_all add: deployable_def)
  from deploy_two [OF this 1(1) 2]
  obtain log where all: "pool_runs no_groups (?ps, world_init) log (?ps2, w2)" by (auto simp: result_prog_def)
  have "\<forall>subs \<in> set ?s. deployable True subs" by (simp add: deployable_def)
  note iso = deployments_isolated [OF this all]
  have logged: "\<exists>r a. (i, r, Some a) \<in> set log \<and> Error a = Error (the ?e)"
    if i: "i < length ?s" "?ps2 ! i = Ret (with_reason (?s ! i) ?e)" for i
  proof -
    obtain err where "with_reason (?s ! i) ?e = with_reason (?s ! i) err"
      "reason_error err \<or> (\<exists>r. (i, r, err) \<in> set log)" using iso i by blast
    moreover from this(1) obtain a where "err = Some a" "Error a = Error (the ?e)"
      by (cases err) (auto simp: with_reason_def dest!: arg_cong [where f = SubsReason])
    ultimately show ?thesis by (auto simp: reason_error_def Reason_def)
  qed
  have "\<forall>e \<in> set log. case e of (i, r, a) \<Rightarrow> i < length ?s \<and> for_subscriber (?s ! i) r" using iso by blast
  then have "list_all (\<lambda>(i, r, a). for_subscriber (?s ! i) r) log"
    unfolding list_all_iff by fastforce
  moreover have "sent w2 = requests log" using iso by (simp add: world_init_def)
  ultimately show ?thesis using all logged [of 0] logged [of 1]
    unfolding Let_def by (intro exI [of _ log] exI [of _ w2] conjI) simp_all
qed

text \<open>
  For a workflow name the program does not know, \<open>getWorkFlow\<close> logs and returns nil, and the deployment
  panics on it at once, in both modes and before any request.
\<close>

lemma deploy_unknown_workflow:
  "run E (DeployWorkflow subs isGroup) w = (Crashed NilDereference, w) \<and> getWorkFlow subs = None \<longleftrightarrow>
     WorkflowName (TestConfig subs) \<notin> {''ATT'', ''DT'', ''TT''}"
  by (auto simp: getWorkFlow_def DeployWorkflow_def)

text \<open>
  Installing the trap flows on the NNI is best effort: for a known workflow it sends the flows of that
  workflow (DHCPv4 and LLDP for ATT, LLDP for DT, DHCPv4 for TT), each with a fresh ID of the manager it is given,
  and reports success whatever the device answers; for an unknown name it sends nothing and
  reports an error.
\<close>

lemma nni_trap_flows_best_effort:
  "run E (ProvisionNniTrapFlow config mgr) w =
     (let m = rm_intfID mgr;
          lldp = Classifier_zero\<lparr>cl_EthType := 35020, cl_PktTagType := ''untagged''\<rparr>;
          trap = (\<lambda>c i. FlowAdd (nni_trap_flow config c (flow_id w m + i)))
      in if WorkflowName config = ''ATT'' then
           (Done None, w\<lparr>flow_id := (flow_id w)(m := flow_id w m + 2),
              sent := sent w @ [trap dhcp_trap_classifier 1, trap lldp 2]\<rparr>)
         else if WorkflowName config = ''DT'' then
           (Done None, w\<lparr>flow_id := (flow_id w)(m := flow_id w m + 1), sent := sent w @ [trap lldp 1]\<rparr>)
         else if WorkflowName config = ''TT'' then
           (Done None, w\<lparr>flow_id := (flow_id w)(m := flow_id w m + 1),
              sent := sent w @ [trap dhcp_trap_classifier 1]\<rparr>)
         else (Done (Some (ErrorString ''workflow-not-supported'')), w))"
proof -
  have raw: "\<exists>e. run E (send_raw_flow f) w = (Done e, w\<lparr>sent := sent w @ [FlowAdd f]\<rparr>)" for f w
    by (simp add: send_raw_flow_def)
  have ign: "run E (ignoring (send_raw_flow f) n) w = run E n (w\<lparr>sent := sent w @ [FlowAdd f]\<rparr>)"
    for f w and n :: "go_error option prog"
    using raw [of f w] by (auto simp: ignoring_def run_bindp)
  have lldp: "run E (ignoring (AddLldpFlow config mgr) n) w =
      (let f = nni_trap_flow config (Classifier_zero\<lparr>cl_EthType := 35020, cl_PktTagType := ''untagged''\<rparr>)
             (flow_id w (rm_intfID mgr) + 1)
       in run E n (w\<lparr>flow_id := (flow_id w)(rm_intfID mgr := flow_id w (rm_intfID mgr) + 1),
            sent := sent w @ [FlowAdd f]\<rparr>))" for w and n :: "go_error option prog"
    using ign by (simp add: AddLldpFlow_def ignoring_def run_bindp run_GetFlowID Let_def)
  have dhcp: "run E (ignoring (dhcp_trap config mgr i) n) w =
      (let f = nni_trap_flow config dhcp_trap_classifier (flow_id w (rm_intfID mgr) + 1)
       in run E n (w\<lparr>flow_id := (flow_id w)(rm_intfID mgr := flow_id w (rm_intfID mgr) + 1),
            sent := sent w @ [FlowAdd f]\<rparr>))" for w i and n :: "go_error option prog"
    using ign by (simp add: dhcp_trap_def ignoring_def run_bindp run_GetFlowID Let_def)
  have v6: "ignoring (AddDhcpIPV6Flow config mgr) n = n" for n :: "go_error option prog"
    by (simp add: ignoring_def AddDhcpIPV6Flow_def)
  show ?thesis
    by (simp add: ProvisionNniTrapFlow_def ProvisionAttNniTrapFlow_def ProvisionDtNniTrapFlow_def
        ProvisionTtNniTrapFlow_def AddDhcpIPV4Flow_def AddTtDhcpIPV4Flow_def v6 lldp dhcp Let_def add.commute)
qed

end
