(* ===== verification/Onu_Manager.thy ===== *)
theory Onu_Manager
  imports Workflow_Manager
begin

text \<open>
  Model of \<open>core/onu\_manager.go\<close> and of \<open>Subscriber.Start\<close> in \<open>core/subscriber\_manager.go\<close>: an ONU that has
  been activated creates its subscribers one after the other, taking their tags from the shared allocators,
  and starts a goroutine for each; the goroutine asks the technology profile library for the instance of
  every configured profile and then deploys the workflow.

  The wait group of an ONU is signalled by the deferred call in \<open>DeployWorkflow\<close>; a subscriber goroutine
  therefore returns, beside the subscriber, whether it got that far.
\<close>

section \<open>State\<close>

record OnuDevice =
  od_SerialNum :: string
  od_OnuID :: uint32
  od_PonIntf :: uint32
  od_OnuProvisionStartTime :: int
  od_OnuProvisionEndTime :: "int option"
  od_OnuProvisionDurationInMs :: int
  od_Reason :: string
  od_SubscriberMap :: "string \<rightharpoonup> Subscriber"
  od_testConfig :: OpenOltScaleTesterConfig
  od_rsrMgr :: OpenOltResourceMgr

section \<open>Operations\<close>

text \<open>\<open>fmt.Sprintf("olt-\{1\}/pon-\{%d\}/onu-\{%d\}/uni-\{%d\}", ...)\<close>.\<close>

definition UniPortName :: "uint32 \<Rightarrow> uint32 \<Rightarrow> uint32 \<Rightarrow> string" where
  "UniPortName pon onu uni =
     ''olt-{1}/pon-{'' @ FormatUint (unat pon) @ ''}/onu-{'' @ FormatUint (unat onu) @
     ''}/uni-{'' @ FormatUint (unat uni) @ ''}''"

text \<open>The loop over the technology profiles; the flag says whether the deployment is started.\<close>

fun create_tp_instances :: "int list \<Rightarrow> Subscriber \<Rightarrow> (Subscriber \<times> bool) prog" where
  "create_tp_instances [] subs = Ret (subs, True)"
| "create_tp_instances (tpID # rest) subs =
     TpCreate \<lparr>tr_tpID = of_int tpID, tr_uniPortName = UniPortName (PonIntf subs) (OnuID subs) (UniID subs),
               tr_intfID = PonIntf subs\<rparr> (\<lambda>(tpInstInterface, err).
     bindp (deref TypeAssertion tpInstInterface) (\<lambda>inst.
     let subs' = subs\<lparr>TpInstance := (TpInstance subs)(tpID \<mapsto> inst)\<rparr>
     in case err of
          Some e \<Rightarrow>
            (case ReasonCodeToReasonString TP_INSTANCE_CREATION_FAILED of
               Done s \<Rightarrow> Ret (subs'\<lparr>SubsReason := s\<rparr>, False)
             | Crashed p \<Rightarrow> Panic p)
        | None \<Rightarrow> create_tp_instances rest subs'))"

definition Subscriber_Start :: "Subscriber \<Rightarrow> (Subscriber \<times> bool) prog" where
  "Subscriber_Start subs =
     create_tp_instances (TpIDList (TestConfig subs)) (subs\<lparr>TpInstance := Map.empty\<rparr>)"

text \<open>A subscriber's goroutine and the deployment it forks; the flag is \<open>subWg.Done()\<close>.\<close>

definition subscriber_life :: "Subscriber \<Rightarrow> bool \<Rightarrow> (Subscriber \<times> bool) prog" where
  "subscriber_life subs isGroup =
     bindp (Subscriber_Start subs) (\<lambda>(s, deploy).
     if deploy then bindp (DeployWorkflow s isGroup) (\<lambda>s. Ret (s, True)) else Ret (s, False))"

definition make_subscriber :: "OnuDevice \<Rightarrow> nat \<Rightarrow> Subscriber prog" where
  "make_subscriber onu k =
     (let cfg = od_testConfig onu; uni = (of_nat k :: uint32)
      in Tag (ReqCtag (WorkflowName cfg) (od_PonIntf onu)) (\<lambda>ctag.
         Tag (ReqStag (WorkflowName cfg) (od_PonIntf onu) (od_OnuID onu) uni) (\<lambda>stag.
         Ret \<lparr>SubscriberName = od_SerialNum onu @ ''-'' @ Itoa (sint (of_nat k :: uint64)),
              OnuID = od_OnuID onu, UniID = uni, PonIntf = od_PonIntf onu,
              UniPortNo = MkUniPortNum (od_PonIntf onu) (od_OnuID onu) uni,
              Ctag = ctag, Stag = stag, SubsReason = [], TpInstance = Map.empty,
              TestConfig = cfg, RsrMgr = od_rsrMgr onu\<rparr>)))"

text \<open>The loop of \<open>OnuDevice.Start\<close> from index \<open>k\<close> on, with \<open>n\<close> iterations left.\<close>

fun start_subscribers :: "OnuDevice \<Rightarrow> nat \<Rightarrow> nat \<Rightarrow> (OnuDevice \<times> Subscriber list) prog" where
  "start_subscribers onu k 0 = Ret (onu, [])"
| "start_subscribers onu k (Suc n) =
     bindp (make_subscriber onu k) (\<lambda>subs.
     bindp (start_subscribers
         (onu\<lparr>od_SubscriberMap := (od_SubscriberMap onu)(SubscriberName subs \<mapsto> subs)\<rparr>) (Suc k) n) (\<lambda>(onu', ss).
     Ret (onu', subs # ss)))"

definition OnuDevice_Start :: "OnuDevice \<Rightarrow> (OnuDevice \<times> Subscriber list) prog" where
  "OnuDevice_Start onu =
     start_subscribers (onu\<lparr>od_SubscriberMap := Map.empty\<rparr>) 0 (unat (SubscribersPerOnu (od_testConfig onu)))"

section \<open>Lemmas\<close>

lemma make_subscriber_run:
  "run E (make_subscriber onu k) w =
     (let cfg = od_testConfig onu; uni = (of_nat k :: uint32);
          c = GetCtag (WorkflowName cfg) (od_PonIntf onu) (tags w);
          s = GetStag (WorkflowName cfg) (od_PonIntf onu) (od_OnuID onu) uni (snd c)
      in (Done \<lparr>SubscriberName = od_SerialNum onu @ ''-'' @ Itoa (sint (of_nat k :: uint64)),
              OnuID = od_OnuID onu, UniID = uni, PonIntf = od_PonIntf onu,
              UniPortNo = MkUniPortNum (od_PonIntf onu) (od_OnuID onu) uni,
              Ctag = fst c, Stag = fst s, SubsReason = [], TpInstance = Map.empty,
              TestConfig = cfg, RsrMgr = od_rsrMgr onu\<rparr>, w\<lparr>tags := snd s\<rparr>))"
  by (simp add: make_subscriber_def Let_def)

lemma digit_char_not_brace: "d < 10 \<Longrightarrow> digit_char d \<noteq> CHR ''}''"
  by (auto dest: arg_cong [where f = "of_char :: char \<Rightarrow> nat"])

lemma digits_no_brace: "CHR ''}'' \<notin> set (FormatUint n)"
  using FormatUint_digits digit_char_not_brace by metis

lemma append_sep_eq:
  assumes "c \<notin> set xs" "c \<notin> set ys" "xs @ c # zs = ys @ c # vs"
  shows "xs = ys \<and> zs = vs"
  using assms by (induction xs arbitrary: ys) (case_tac [!] ys, auto)

lemma UniPortName_inj:
  assumes "UniPortName p o' u = UniPortName p' o'' u'"
  shows "p = p' \<and> o' = o'' \<and> u = u'"
proof -
  have "FormatUint (unat p) @ CHR ''}'' # ''/onu-{'' @ FormatUint (unat o') @ CHR ''}'' # ''/uni-{'' @ FormatUint (unat u) @ ''}'' =
    FormatUint (unat p') @ CHR ''}'' # ''/onu-{'' @ FormatUint (unat o'') @ CHR ''}'' # ''/uni-{'' @ FormatUint (unat u') @ ''}''"
    using assms by (simp add: UniPortName_def)
  from append_sep_eq [OF digits_no_brace digits_no_brace this]
  have p: "unat p = unat p'" and r: "FormatUint (unat o') @ CHR ''}'' # ''/uni-{'' @ FormatUint (unat u) @ ''}'' =
    FormatUint (unat o'') @ CHR ''}'' # ''/uni-{'' @ FormatUint (unat u') @ ''}''" by simp_all
  from append_sep_eq [OF digits_no_brace digits_no_brace r]
  show ?thesis using p by (simp add: word_unat_eq_iff)
qed

lemma name_index_inj:
  assumes "i < 2 ^ 64" "j < 2 ^ 64"
    "s @ ''-'' @ Itoa (sint (of_nat i :: uint64)) = s @ ''-'' @ Itoa (sint (of_nat j :: uint64))"
  shows "i = j"
proof -
  let ?i = "of_nat i :: uint64" and ?j = "of_nat j :: uint64"
  have b: "- (2 ^ 63) \<le> sint w" "sint w < 2 ^ 63" for w :: uint64
    using sint_greater_eq [of w] sint_less [of w] by simp_all
  have "Itoa (sint ?i) = Itoa (sint ?j)" using assms(3) by simp
  moreover have "Atoi (Itoa (sint ?i)) = Some (sint ?i)" "Atoi (Itoa (sint ?j)) = Some (sint ?j)"
    using b by (auto intro: Atoi_Itoa)
  ultimately have "sint ?i = sint ?j" by (metis option.inject)
  then have "?i = ?j" by (rule signed_word_eqI)
  with assms(1,2) show ?thesis by (simp add: word_of_nat_eq_iff take_bit_nat_eq_self)
qed

lemma start_subscribers_run:
  "\<exists>onu' ss w'. run E (start_subscribers onu k n) w = (Done (onu', ss), w') \<and>
     map SubscriberName ss = map (\<lambda>i. od_SerialNum onu @ ''-'' @ Itoa (sint (of_nat i :: uint64))) [k..<k + n] \<and>
     map UniID ss = map of_nat [k..<k + n] \<and>
     map UniPortNo ss = map (\<lambda>i. MkUniPortNum (od_PonIntf onu) (od_OnuID onu) (of_nat i)) [k..<k + n] \<and>
     (\<forall>s \<in> set ss. OnuID s = od_OnuID onu \<and> PonIntf s = od_PonIntf onu \<and>
        TestConfig s = od_testConfig onu \<and> RsrMgr s = od_rsrMgr onu) \<and>
     onu' = onu\<lparr>od_SubscriberMap := od_SubscriberMap onu ++ map_of (rev (zip (map SubscriberName ss) ss))\<rparr> \<and>
     sent w' = sent w \<and> flow_id w' = flow_id w"
proof (induction n arbitrary: onu k w)
  case (Suc n)
  obtain s w1 where s: "run E (make_subscriber onu k) w = (Done s, w1)"
    "SubscriberName s = od_SerialNum onu @ ''-'' @ Itoa (sint (of_nat k :: uint64))" "UniID s = of_nat k"
    "UniPortNo s = MkUniPortNum (od_PonIntf onu) (od_OnuID onu) (of_nat k)"
    "OnuID s = od_OnuID onu" "PonIntf s = od_PonIntf onu" "TestConfig s = od_testConfig onu"
    "RsrMgr s = od_rsrMgr onu" "sent w1 = sent w" "flow_id w1 = flow_id w"
    by (simp add: make_subscriber_run Let_def)
  have up: "[k..<k + Suc n] = k # [Suc k..<Suc k + n]" by (simp add: upt_conv_Cons)
  have one: "m ++ (\<lambda>x. if x = a then Some s else None) = (\<lambda>x. if x = a then Some s else m x)"
    for m :: "string \<rightharpoonup> Subscriber" and a
    by (auto simp: map_add_def)
  show ?case
    using Suc.IH [of "onu\<lparr>od_SubscriberMap := (od_SubscriberMap onu)(SubscriberName s \<mapsto> s)\<rparr>" "Suc k" w1]
    unfolding up by (auto simp: run_bindp s fun_upd_def one simp del: upt_Suc)
qed simp

lemma create_tp_instances_run:
  assumes "\<And>h r. tp_store E h r = (Some (I r), None)"
  shows "run E (create_tp_instances ids subs) w =
     (let req = (\<lambda>tpID. \<lparr>tr_tpID = of_int tpID, tr_uniPortName = UniPortName (PonIntf subs) (OnuID subs) (UniID subs),
                    tr_intfID = PonIntf subs\<rparr>)
      in (Done (subs\<lparr>TpInstance := (\<lambda>k. if k \<in> set ids then Some (I (req k)) else TpInstance subs k)\<rparr>, True),
          w\<lparr>tp_calls := tp_calls w @ map req ids\<rparr>))"
proof (induction ids arbitrary: subs w)
  case (Cons tpID ids)
  show ?case by (simp add: assms Cons Let_def fun_eq_iff)
qed simp

lemma create_tp_instances_flag:
  assumes "run E (create_tp_instances ids subs) w = (Done (s, flag), w')"
  shows "(\<not> flag \<longrightarrow> SubsReason s = ''TP_INSTANCE_CREATION_FAILED'') \<and> sent w' = sent w"
  using assms
proof (induction ids arbitrary: subs w)
  case (Cons tpID ids)
  show ?case
  proof (cases "tp_store E (tp_calls w) \<lparr>tr_tpID = of_int tpID,
      tr_uniPortName = UniPortName (PonIntf subs) (OnuID subs) (UniID subs), tr_intfID = PonIntf subs\<rparr>")
    case (Pair inst err)
    with Cons.prems Cons.IH show ?thesis
      by (cases inst; cases err) (fastforce simp: Let_def)+
  qed
qed simp

lemma map_of_zip_rev:
  assumes "distinct ks"
  shows "map_of (rev (zip ks vs)) = map_of (zip ks vs)"
proof -
  have "distinct (map fst (zip ks vs))"
    using assms by (simp add: map_fst_zip_take)
  then show ?thesis
    by (subst map_of_inject_set) (simp_all add: rev_map [symmetric])
qed

lemma onu_update_simps:
  "od_SerialNum (onu\<lparr>od_SubscriberMap := m\<rparr>) = od_SerialNum onu"
  "od_OnuID (onu\<lparr>od_SubscriberMap := m\<rparr>) = od_OnuID onu"
  "od_PonIntf (onu\<lparr>od_SubscriberMap := m\<rparr>) = od_PonIntf onu"
  "od_testConfig (onu\<lparr>od_SubscriberMap := m\<rparr>) = od_testConfig onu"
  "od_rsrMgr (onu\<lparr>od_SubscriberMap := m\<rparr>) = od_rsrMgr onu"
  "od_SubscriberMap (onu\<lparr>od_SubscriberMap := m\<rparr>) = m"
  "onu\<lparr>od_SubscriberMap := m, od_SubscriberMap := m'\<rparr> = onu\<lparr>od_SubscriberMap := m'\<rparr>"
  "Map.empty ++ m'' = m''"
  by simp_all

section \<open>Properties\<close>

text \<open>
  C25: starting an ONU creates exactly the configured number of subscribers, numbered from 0 in order, each
  with the identifiers, configuration and resource manager of the ONU and the port number built from
  them; their names are all different, so the subscriber map of the ONU holds every one of them; and
  no request is sent and no flow ID taken by the loop itself.
\<close>

theorem onu_start_subscribers:
  "\<exists>onu' ss w'. run E (OnuDevice_Start onu) w = (Done (onu', ss), w') \<and>
     length ss = unat (SubscribersPerOnu (od_testConfig onu)) \<and>
     map UniID ss = map of_nat [0..<length ss] \<and>
     map UniPortNo ss = map (\<lambda>i. MkUniPortNum (od_PonIntf onu) (od_OnuID onu) (of_nat i)) [0..<length ss] \<and>
     list_all (\<lambda>s. OnuID s = od_OnuID onu \<and> PonIntf s = od_PonIntf onu \<and>
        TestConfig s = od_testConfig onu \<and> RsrMgr s = od_rsrMgr onu) ss \<and>
     distinct (map SubscriberName ss) \<and>
     od_SubscriberMap onu' = map_of (zip (map SubscriberName ss) ss) \<and>
     sent w' = sent w \<and> flow_id w' = flow_id w"
proof -
  let ?n = "unat (SubscribersPerOnu (od_testConfig onu))"
  obtain onu' ss w' where r: "run E (OnuDevice_Start onu) w = (Done (onu', ss), w')"
    "map SubscriberName ss = map (\<lambda>i. od_SerialNum onu @ ''-'' @ Itoa (sint (of_nat i :: uint64))) [0..<?n]"
    "map UniID ss = map of_nat [0..<?n]"
    "map UniPortNo ss = map (\<lambda>i. MkUniPortNum (od_PonIntf onu) (od_OnuID onu) (of_nat i)) [0..<?n]"
    "\<forall>s \<in> set ss. OnuID s = od_OnuID onu \<and> PonIntf s = od_PonIntf onu \<and>
        TestConfig s = od_testConfig onu \<and> RsrMgr s = od_rsrMgr onu"
    "onu' = onu\<lparr>od_SubscriberMap := map_of (rev (zip (map SubscriberName ss) ss))\<rparr>"
    "sent w' = sent w" "flow_id w' = flow_id w"
    using start_subscribers_run [of E "onu\<lparr>od_SubscriberMap := Map.empty\<rparr>" 0 ?n w, unfolded add_0 onu_update_simps]
    by (elim exE conjE) (rule that, subst OnuDevice_Start_def, assumption)
  have len: "length ss = ?n" using arg_cong [OF r(3), of length] by simp
  have "inj_on (\<lambda>i. od_SerialNum onu @ ''-'' @ Itoa (sint (of_nat i :: uint64))) {0..<?n}"
  proof (rule inj_onI)
    fix i j assume i: "i \<in> {0..<?n}" and j: "j \<in> {0..<?n}"
      and e: "od_SerialNum onu @ ''-'' @ Itoa (sint (of_nat i :: uint64)) =
        od_SerialNum onu @ ''-'' @ Itoa (sint (of_nat j :: uint64))"
    have "?n < 2 ^ 64" using unsigned_less [of "SubscribersPerOnu (od_testConfig onu)"] by simp
    with i j show "i = j" by (intro name_index_inj [OF _ _ e]) auto
  qed
  then have d: "distinct (map SubscriberName ss)"
    unfolding r(2) by (simp add: distinct_map)
  then have "map_of (rev (zip (map SubscriberName ss) ss)) = map_of (zip (map SubscriberName ss) ss)"
    by (simp add: map_of_zip_rev)
  with r len d show ?thesis by (auto simp: list_all_iff)
qed

text \<open>
  With a profile library that delivers, starting a subscriber asks once per configured profile, in order,
  for the instance of the subscriber's own port name, stores all of them, and goes on to the deployment; if
  the instances have both schedulers the subscriber is then ready.
\<close>

lemma subscriber_start_establishes_ready:
  assumes "\<And>h r. tp_store E h r = (Some (I r), None)"
    and "TpIDList (TestConfig subs) \<noteq> []"
    and "\<And>r. tp_UsScheduler (I r) \<noteq> None \<and> tp_DsScheduler (I r) \<noteq> None"
  shows "\<exists>s w'. run E (Subscriber_Start subs) w = (Done (s, True), w') \<and> ready s \<and>
     dom (TpInstance s) = set (TpIDList (TestConfig subs)) \<and> s = subs\<lparr>TpInstance := TpInstance s\<rparr> \<and>
     tp_calls w' = tp_calls w @ map (\<lambda>tpID. \<lparr>tr_tpID = of_int tpID,
       tr_uniPortName = UniPortName (PonIntf subs) (OnuID subs) (UniID subs), tr_intfID = PonIntf subs\<rparr>)
       (TpIDList (TestConfig subs)) \<and> sent w' = sent w"
  using assms(2,3)
  by (simp add: Subscriber_Start_def create_tp_instances_run [OF assms(1)] Let_def ready_def dom_def
      option.case_eq_if)

lemma subscriber_start_establishes_ready_witness:
  "\<exists>s w'. run accepting (Subscriber_Start (sample_subscriber ''TT'' 2 5)) world_init = (Done (s, True), w') \<and> ready s"
  using subscriber_start_establishes_ready [of accepting "\<lambda>r. sample_instance" "sample_subscriber ''TT'' 2 5" world_init]
  by (auto simp: sample_instance_def [of, THEN arg_cong [of _ _ tp_UsScheduler]]
      sample_instance_def [of, THEN arg_cong [of _ _ tp_DsScheduler]])

text \<open>
  When the profile library fails the way Go functions do, with a nil interface and an error, the
  process dies: the type assertion comes before the test of the error, so the failure code that the
  test would record is never reached.
\<close>

lemma subscriber_start_nil_instance:
  assumes "TpIDList (TestConfig subs) = tpID # rest"
    and "tp_store E (tp_calls w) \<lparr>tr_tpID = of_int tpID,
      tr_uniPortName = UniPortName (PonIntf subs) (OnuID subs) (UniID subs), tr_intfID = PonIntf subs\<rparr> = (None, err)"
  shows "fst (run E (subscriber_life subs isGroup) w) = Crashed TypeAssertion"
  using assms by (simp add: subscriber_life_def Subscriber_Start_def run_bindp)

lemma subscriber_start_nil_instance_witness:
  "fst (run (accepting\<lparr>tp_store := (\<lambda>h r. (None, Some (ErrorString ''etcd down'')))\<rparr>)
     (subscriber_life (sample_subscriber ''ATT'' 0 1) False) world_init) = Crashed TypeAssertion"
  using subscriber_start_nil_instance [of "sample_subscriber ''ATT'' 0 1" 64 "[]"
      "accepting\<lparr>tp_store := (\<lambda>h r. (None, Some (ErrorString ''etcd down'')))\<rparr>" world_init
      "Some (ErrorString ''etcd down'')" False]
  by simp

text \<open>
  A subscriber goroutine that ends without signalling its wait group has recorded the profile failure and
  sent nothing to the device: this is the one exit that leaves the ONU waiting.
\<close>

lemma subscriber_unsignalled_exit:
  assumes "run E (subscriber_life subs isGroup) w = (Done (s, False), w')"
  shows "SubsReason s = ''TP_INSTANCE_CREATION_FAILED'' \<and> sent w' = sent w"
  using assms
  by (auto simp: subscriber_life_def Subscriber_Start_def run_bindp split: prod.splits outcome.splits if_splits
      dest!: create_tp_instances_flag)

lemma subscriber_unsignalled_exit_witness:
  "SubsReason (fst (case fst (run (accepting\<lparr>tp_store := (\<lambda>h r. (Some sample_instance, Some (ErrorString ''kv'')))\<rparr>)
     (subscriber_life (sample_subscriber ''ATT'' 0 1) False) world_init) of Done r \<Rightarrow> r)) = ''TP_INSTANCE_CREATION_FAILED''"
proof -
  let ?E = "accepting\<lparr>tp_store := (\<lambda>h r. (Some sample_instance, Some (ErrorString ''kv'')))\<rparr>"
  obtain s w' where r: "run ?E (subscriber_life (sample_subscriber ''ATT'' 0 1) False) world_init = (Done (s, False), w')"
    by (simp add: subscriber_life_def Subscriber_Start_def run_bindp Let_def)
  from subscriber_unsignalled_exit [OF r] r show ?thesis by simp
qed

text \<open>
  the port name given to the profile library identifies the UNI: different triples of PON port, ONU and UNI have
  different names.
\<close>

lemma uni_port_name_identifies:
  "UniPortName p onu u = UniPortName p' onu' u' \<longleftrightarrow> p = p' \<and> onu = onu' \<and> u = u'"
  by (auto dest: UniPortName_inj)

end
