(* ===== verification/Batching.thy ===== *)
theory Batching
  imports Onu_Manager
begin

text \<open>
  The arithmetic of \<open>provisionONUs\<close> in \<open>core/olt\_manager.go\<close>: the checks on the number of ONUs, the number of
  ONUs per PON port, the size of a batch, the number of batches, and the order in which the three nested
  loops visit them. All of it is machine arithmetic: \<open>uint\<close> is 64 bits and the per-port count is narrowed
  to \<open>uint32\<close> for the batch computation.
\<close>

section \<open>Definitions\<close>

definition isPowerOfTwo :: "uint64 \<Rightarrow> bool" where
  "isPowerOfTwo numOfOnus \<longleftrightarrow> numOfOnus AND (numOfOnus - 1) = 0"

text \<open>\<open>for n < size \<open> size /= 2 \<close>\<close>.\<close>

function halve_batch :: "uint32 \<Rightarrow> uint32 \<Rightarrow> uint32" where
  "halve_batch n per = (if n < per then halve_batch n (per div 2) else per)"
  by pat_completeness auto
termination
proof (relation "measure (\<lambda>(n, s). unat s)")
  fix n s :: uint32
  assume "n < s"
  then have "0 < unat s" by (simp add: word_less_nat_alt)
  then show "((n, s div 2), (n, s)) \<in> measure (\<lambda>(n, s). unat s)" by (simp add: unat_div)
qed simp

declare halve_batch.simps [simp del]

record batch_plan =
  bp_perPon :: uint64
  bp_total :: uint64
  bp_perBatch :: uint32
  bp_batches :: uint32

datatype plan_result = Rejected string | Planned batch_plan

text \<open>The divisions panic on a zero divisor: no PON ports, or a batch size halved to nothing.\<close>

definition plan_batches :: "uint64 \<Rightarrow> uint32 \<Rightarrow> plan_result outcome" where
  "plan_batches numOfOnu ponPorts =
     (if \<not> isPowerOfTwo numOfOnu then Done (Rejected ''num-of-onus-to-provision-is-not-a-power-of-2'')
      else if numOfOnu < uint_of_uint32 ponPorts then Done (Rejected ''num-of-onu-is-less-than-num-of-pon-port'')
      else if uint_of_uint32 ponPorts = 0 then Crashed DivideByZero
      else
        (let numOfONUsPerPon = numOfOnu div uint_of_uint32 ponPorts;
             totalOnusToProvision = numOfONUsPerPon * uint_of_uint32 ponPorts;
             onusPerIterationPerPonPort = halve_batch (uint32_of_uint numOfONUsPerPon) 4
         in if onusPerIterationPerPonPort = 0 then Crashed DivideByZero
            else Done (Planned
              \<lparr>bp_perPon = numOfONUsPerPon, bp_total = totalOnusToProvision,
               bp_perBatch = onusPerIterationPerPonPort,
               bp_batches = uint32_of_uint numOfONUsPerPon div onusPerIterationPerPonPort\<rparr>)))"

text \<open>The PON ports that the two inner loops visit in one batch, in order.\<close>

definition batch_ports :: "uint32 \<Rightarrow> batch_plan \<Rightarrow> uint32 list" where
  "batch_ports ponPorts bp =
     concat (map (\<lambda>j. replicate (unat (bp_perBatch bp)) (of_nat j)) [0..<unat ponPorts])"

section \<open>Powers of two\<close>

lemma u64_bound: "unat (w :: uint64) < 2 ^ 64"
proof -
  have "unat w < 2 ^ LENGTH(64)" by (rule unsigned_less)
  then show ?thesis by simp
qed

lemma u32_bound: "unat (w :: uint32) < 2 ^ 32"
proof -
  have "unat w < 2 ^ LENGTH(32)" by (rule unsigned_less)
  then show ?thesis by simp
qed

lemma and_pred_power:
  "(2 ^ k :: 'a::len word) AND (2 ^ k - 1) = 0"
proof -
  have "(2 ^ k :: 'a word) AND mask k = take_bit k (2 ^ k)" by (simp add: take_bit_eq_mask)
  also have "\<dots> = 0" by (simp add: take_bit_eq_mod)
  finally show ?thesis by (simp add: mask_eq_decr_exp)
qed

lemma highest_bit:
  fixes n :: nat
  assumes "2 ^ k \<le> n" "n < 2 ^ Suc k"
  shows "bit n k"
proof -
  have "n div 2 ^ k = 1" using assms by (intro div_nat_eqI) simp_all
  then show ?thesis by (simp add: bit_iff_odd)
qed

lemma power_bounds:
  fixes n :: nat
  assumes "0 < n"
  obtains k where "2 ^ k \<le> n" "n < 2 ^ Suc k"
proof -
  have "\<exists>k. 2 ^ k \<le> n \<and> n < 2 ^ Suc k"
    using assms ex_power_ivl1 [of 2 n] by auto
  then show ?thesis using that by blast
qed

lemma isPowerOfTwo_iff: "isPowerOfTwo n \<longleftrightarrow> n = 0 \<or> (\<exists>k<64. unat n = 2 ^ k)"
proof
  assume p: "isPowerOfTwo n"
  show "n = 0 \<or> (\<exists>k<64. unat n = 2 ^ k)"
  proof (rule disjCI)
    assume no: "\<not> (\<exists>k<64. unat n = 2 ^ k)"
    show "n = 0"
    proof (rule ccontr)
      assume "n \<noteq> 0"
      then have pos: "0 < unat n" by (simp add: unat_gt_0)
      then obtain k where k: "2 ^ k \<le> unat n" "unat n < 2 ^ Suc k" by (rule power_bounds)
      have "(2::nat) ^ k < 2 ^ 64" using k(1) u64_bound [of n] by simp
      then have "k < 64" by (rule power_less_imp_less_exp [rotated]) simp
      with no have "unat n \<noteq> 2 ^ k" by blast
      with k(1) have "2 ^ k \<le> unat n - 1" by simp
      moreover have "unat (n - 1) = unat n - 1" using \<open>n \<noteq> 0\<close> by (rule unat_minus_one)
      ultimately have "bit (unat (n - 1)) k" using k(2) by (intro highest_bit) simp_all
      moreover have "bit (unat n) k" using k by (rule highest_bit)
      ultimately have "bit (n AND (n - 1)) k" by (simp add: bit_and_iff bit_unsigned_iff)
      with p show False by (simp add: isPowerOfTwo_def)
    qed
  qed
next
  assume "n = 0 \<or> (\<exists>k<64. unat n = 2 ^ k)"
  moreover have "isPowerOfTwo n" if "unat n = 2 ^ k" "k < 64" for k
  proof -
    have "n = of_nat (unat n)" by simp
    also have "\<dots> = 2 ^ k" unfolding that(1) by simp
    finally have "n = 2 ^ k" .
    then show ?thesis by (simp add: isPowerOfTwo_def and_pred_power)
  qed
  ultimately show "isPowerOfTwo n" by (auto simp: isPowerOfTwo_def)
qed

section \<open>Batches\<close>

lemma halve_batch_4:
  "halve_batch n 4 = (if 4 \<le> n then 4 else if 2 \<le> n then 2 else if n = 1 then 1 else 0)"
proof -
  have d: "(4::uint32) div 2 = 2" "(2::uint32) div 2 = 1" "(1::uint32) div 2 = 0" by simp_all
  have zero: "halve_batch n 0 = 0" for n by (simp add: halve_batch.simps [of n 0])
  have one: "halve_batch n 1 = (if n < 1 then 0 else 1)" by (simp add: halve_batch.simps [of n 1] d zero)
  have two: "halve_batch n 2 = (if n < 2 then if n < 1 then 0 else 1 else 2)"
    by (simp only: halve_batch.simps [of n 2] d one)
  have four: "halve_batch n 4 = (if n < 4 then if n < 2 then if n < 1 then 0 else 1 else 2 else 4)"
    by (simp only: halve_batch.simps [of n 4] d two)
  have "n < 2 \<Longrightarrow> \<not> n < 1 \<Longrightarrow> n = 1"
    by (simp add: word_less_nat_alt word_unat_eq_iff)
  moreover have "n < 1 \<Longrightarrow> n \<noteq> 1" by simp
  ultimately show ?thesis unfolding four by (auto simp: not_less [symmetric])
qed

text \<open>The plan, read as natural numbers, when the per-port count fits 32 bits.\<close>

lemma plan_batches_nat:
  assumes "plan_batches numOfOnu ponPorts = Done (Planned bp)" "unat numOfOnu div unat ponPorts < 2 ^ 32"
  shows "unat (bp_perPon bp) = unat numOfOnu div unat ponPorts"
    and "unat (bp_total bp) = unat numOfOnu div unat ponPorts * unat ponPorts"
    and "unat (bp_perBatch bp) = (let n = unat numOfOnu div unat ponPorts in if 4 \<le> n then 4 else if 2 \<le> n then 2 else 1)"
    and "unat (bp_batches bp) = unat (bp_perPon bp) div unat (bp_perBatch bp)"
    and "0 < unat ponPorts" "unat ponPorts \<le> unat numOfOnu" "isPowerOfTwo numOfOnu"
proof -
  let ?p = "uint_of_uint32 ponPorts"
  let ?n = "numOfOnu div ?p"
  have bp: "isPowerOfTwo numOfOnu" "\<not> numOfOnu < ?p" "?p \<noteq> 0"
    "halve_batch (uint32_of_uint ?n) 4 \<noteq> 0"
    "bp = \<lparr>bp_perPon = ?n, bp_total = ?n * ?p, bp_perBatch = halve_batch (uint32_of_uint ?n) 4,
       bp_batches = uint32_of_uint ?n div halve_batch (uint32_of_uint ?n) 4\<rparr>"
    using assms(1) by (auto simp: plan_batches_def Let_def split: if_splits)
  have p: "unat ?p = unat ponPorts" by (rule unat_uint_of_uint32)
  have n: "unat ?n = unat numOfOnu div unat ponPorts" by (simp add: unat_div p)
  have n32: "unat (uint32_of_uint ?n) = unat numOfOnu div unat ponPorts"
    using assms(2) by (simp add: unat_uint32_of_uint n)
  show "isPowerOfTwo numOfOnu" by (rule bp(1))
  show "0 < unat ponPorts" using bp(3) p by (metis gr0I unat_eq_zero)
  show "unat ponPorts \<le> unat numOfOnu" using bp(2) p by (simp add: word_less_nat_alt)
  show pp: "unat (bp_perPon bp) = unat numOfOnu div unat ponPorts" by (simp add: bp(5) n)
  show "unat (bp_total bp) = unat numOfOnu div unat ponPorts * unat ponPorts"
  proof -
    have "unat ?n * unat ?p \<le> unat numOfOnu" by (simp add: n p)
    then have "unat ?n * unat ?p < 2 ^ 64" using u64_bound [of numOfOnu] by simp
    then have "unat (?n * ?p) = unat ?n * unat ?p" using unat_mult_lem [of ?n ?p] by simp
    then show ?thesis by (simp add: bp(5) n p)
  qed
  show "unat (bp_perBatch bp) = (let n = unat numOfOnu div unat ponPorts in if 4 \<le> n then 4 else if 2 \<le> n then 2 else 1)"
    using bp(4) n32
    by (auto simp: bp(5) halve_batch_4 Let_def word_le_nat_alt split: if_splits)
  show "unat (bp_batches bp) = unat (bp_perPon bp) div unat (bp_perBatch bp)"
    using n32 pp by (simp add: bp(5) unat_div)
qed

lemma length_batch_ports: "length (batch_ports ponPorts bp) = unat ponPorts * unat (bp_perBatch bp)"
  by (simp add: batch_ports_def length_concat comp_def sum_list_triv)

lemma filter_index: "i < n \<Longrightarrow> filter (\<lambda>j. j = i) [0..<n] = [i :: nat]"
proof (induction n)
  case (Suc n)
  show ?case
  proof (cases "i = n")
    case True
    then have "filter (\<lambda>j. j = i) [0..<n] = []" by (auto simp: filter_empty_conv)
    with True show ?thesis by simp
  qed (use Suc in auto)
qed simp

lemma count_batch_ports:
  assumes "unat p < unat ponPorts"
  shows "count_list (batch_ports ponPorts bp) p = unat (bp_perBatch bp)"
proof -
  have "count_list (concat (map (\<lambda>j. replicate c (of_nat j)) js)) p = c * length (filter (\<lambda>j. of_nat j = p) js)"
    for c and js :: "nat list"
  proof (induction js)
    case (Cons j js)
    have "count_list (replicate c x) y = (if x = y then c else 0)" for x y :: uint32
      by (induction c) auto
    with Cons show ?case by simp
  qed simp
  moreover have "filter (\<lambda>j. of_nat j = p) [0..<unat ponPorts] = [unat p]"
  proof -
    have "unat ponPorts < 2 ^ 32" using u32_bound [of ponPorts] by simp
    then have "j < unat ponPorts \<Longrightarrow> (of_nat j = p) = (j = unat p)" for j
      by (auto simp: word_unat_eq_iff unsigned_of_nat take_bit_nat_eq_self)
    then have "filter (\<lambda>j. of_nat j = p) [0..<unat ponPorts] = filter (\<lambda>j. j = unat p) [0..<unat ponPorts]"
      by (intro filter_cong) auto
    also have "\<dots> = [unat p]" 
      using assms filter_index [of "unat p" "unat ponPorts"] by simp
    finally show ?thesis .
  qed
  ultimately show ?thesis by (simp add: batch_ports_def)
qed

lemma plan_bounds:
  assumes "plan_batches numOfOnu ponPorts = Done (Planned bp)" "unat numOfOnu div unat ponPorts < 2 ^ 32"
  shows "unat (bp_perBatch bp) \<in> {1, 2, 4} \<and> 1 \<le> unat (bp_batches bp) \<and>
     (\<forall>p. unat p < unat ponPorts \<longrightarrow> count_list (batch_ports ponPorts bp) p = unat (bp_perBatch bp)) \<and>
     unat (bp_batches bp) * unat (bp_perBatch bp) \<le> unat (bp_perPon bp) \<and>
     unat (bp_perPon bp) < (unat (bp_batches bp) + 1) * unat (bp_perBatch bp) \<and>
     unat (bp_batches bp) * length (batch_ports ponPorts bp) \<le> unat (bp_total bp)"
proof -
  note n = plan_batches_nat [OF assms]
  let ?n = "unat numOfOnu div unat ponPorts" and ?b = "unat (bp_perBatch bp)" and ?k = "unat (bp_batches bp)"
  have n1: "1 \<le> ?n" using n(5,6) by (simp add: div_greater_zero_iff Suc_le_eq)
  have b: "?b \<in> {1, 2, 4}" "?b \<le> ?n" using n(3) n1 by (auto simp: Let_def split: if_splits)
  have k: "?k = ?n div ?b" using n(1,4) by simp
  have k1: "1 \<le> ?k" using b k by (auto simp: div_greater_zero_iff Suc_le_eq)
  have lo: "?k * ?b \<le> ?n" by (simp add: k)
  have hi: "?n < (?k + 1) * ?b" using b(1) unfolding k by (auto simp: algebra_simps dividend_less_div_times)
  have "?k * length (batch_ports ponPorts bp) \<le> unat (bp_total bp)"
    using lo n(2) by (simp add: length_batch_ports mult.commute mult.left_commute)
  with b k1 lo hi n(1) show ?thesis by (simp add: count_batch_ports)
qed

section \<open>Properties\<close>

text \<open>the bit trick of \<open>isPowerOfTwo\<close> accepts the powers of two that fit a \<open>uint\<close>, and 0.\<close>

lemma isPowerOfTwo_correct: "isPowerOfTwo n \<longleftrightarrow> n = 0 \<or> (\<exists>k<64. unat n = 2 ^ k)"
  by (rule isPowerOfTwo_iff)

text \<open>
  C35: when a plan is made and the per-port count fits 32 bits, a batch puts one, two or four ONUs on a port,
  never more than the port is to get, on every port the same number; there is at least one batch; and the
  batches leave less than one batch per port out.
\<close>

theorem batch_plan_bounds:
  assumes "plan_batches numOfOnu ponPorts = Done (Planned bp)" "unat numOfOnu div unat ponPorts < 2 ^ 32"
  shows "unat (bp_perBatch bp) \<in> {1, 2, 4} \<and> 1 \<le> unat (bp_batches bp) \<and>
     (\<forall>p. unat p < unat ponPorts \<longrightarrow> count_list (batch_ports ponPorts bp) p = unat (bp_perBatch bp)) \<and>
     unat (bp_batches bp) * unat (bp_perBatch bp) \<le> unat (bp_perPon bp) \<and>
     unat (bp_perPon bp) < (unat (bp_batches bp) + 1) * unat (bp_perBatch bp) \<and>
     unat (bp_batches bp) * length (batch_ports ponPorts bp) \<le> unat (bp_total bp)"
  by (rule plan_bounds [OF assms])

lemma sample_plan:
  "plan_batches 16 3 = Done (Planned \<lparr>bp_perPon = 5, bp_total = 15, bp_perBatch = 4, bp_batches = 1\<rparr>)"
  by (simp add: plan_batches_def isPowerOfTwo_def uint_of_uint32_def uint32_of_uint_def halve_batch_4)

text \<open>Sixteen ONUs on three ports: one batch of four ONUs per port, and the fifth of each port is left out.\<close>

theorem batch_plan_bounds_witness:
  "\<exists>bp. plan_batches 16 3 = Done (Planned bp) \<and> unat (16 :: uint64) div unat (3 :: uint32) < 2 ^ 32 \<and>
     unat (bp_perBatch bp) = 4 \<and> unat (bp_perBatch bp) \<in> {1, 2, 4} \<and> 1 \<le> unat (bp_batches bp) \<and>
     map (count_list (batch_ports 3 bp)) [0, 1, 2] = [4, 4, 4] \<and>
     unat (bp_batches bp) * unat (bp_perBatch bp) \<le> unat (bp_perPon bp) \<and>
     unat (bp_perPon bp) < (unat (bp_batches bp) + 1) * unat (bp_perBatch bp) \<and>
     unat (bp_batches bp) * length (batch_ports 3 bp) \<le> unat (bp_total bp)"
  using batch_plan_bounds [OF sample_plan]
  by (intro exI [of _ "\<lparr>bp_perPon = 5, bp_total = 15, bp_perBatch = 4, bp_batches = 1\<rparr>"] conjI sample_plan) simp_all

lemma pick_dvd: "(4::nat) dvd x \<Longrightarrow> 2 dvd x \<Longrightarrow> (if a then 4 else if b then 2 else 1) dvd x"
  by simp

text \<open>
  On a device whose number of PON ports is a power of two too, the batches are exact: every port gets
  the same number of ONUs and all the requested ONUs are provisioned.
\<close>

lemma batches_exact:
  assumes "plan_batches numOfOnu ponPorts = Done (Planned bp)" "unat numOfOnu div unat ponPorts < 2 ^ 32"
    and "numOfOnu \<noteq> 0" "unat ponPorts = 2 ^ m"
  shows "unat (bp_batches bp) * unat (bp_perBatch bp) = unat (bp_perPon bp) \<and>
     unat (bp_batches bp) * length (batch_ports ponPorts bp) = unat numOfOnu"
proof -
  note n = plan_batches_nat [OF assms(1,2)]
  obtain k where k: "unat numOfOnu = 2 ^ k" using n(7) assms(3) by (auto simp: isPowerOfTwo_iff)
  have mk: "m \<le> k" using n(6) k assms(4) power_le_imp_le_exp [of 2 m k] by simp
  then have d: "unat numOfOnu div unat ponPorts = 2 ^ (k - m)" by (simp add: k assms(4) power_diff)
  have "unat (bp_perBatch bp) dvd 2 ^ (k - m)"
  proof -
    consider "k - m = 0" | "k - m = 1" | "2 \<le> k - m" by linarith
    then show ?thesis
    proof cases
      case 3
      then have "(2::nat) ^ 2 dvd 2 ^ (k - m)" by (rule le_imp_power_dvd)
      then have "(4::nat) dvd 2 ^ (k - m)" by simp
      moreover have "(2::nat) dvd 2 ^ (k - m)" using 3 by simp
      ultimately show ?thesis unfolding n(3) d Let_def by (rule pick_dvd)
    qed (simp_all add: n(3) d)
  qed
  then have e: "unat (bp_batches bp) * unat (bp_perBatch bp) = 2 ^ (k - m)" using n(1,4) d by simp
  moreover have "2 ^ (k - m) * unat ponPorts = unat numOfOnu"
    using mk by (simp add: assms(4) k power_add [symmetric])
  ultimately show ?thesis using n(1) d
    by (simp add: length_batch_ports mult.commute mult.left_commute)
qed

lemma batches_exact_witness:
  "1 * length (batch_ports 16 \<lparr>bp_perPon = 4, bp_total = 64, bp_perBatch = 4, bp_batches = 1\<rparr>) = 64"
proof -
  have "plan_batches 64 16 = Done (Planned \<lparr>bp_perPon = 4, bp_total = 64, bp_perBatch = 4, bp_batches = 1\<rparr>)"
    by (simp add: plan_batches_def isPowerOfTwo_def uint_of_uint32_def uint32_of_uint_def halve_batch_4)
  from batches_exact [OF this, of 4] show ?thesis by simp
qed

text \<open>
  on other devices the plan falls short of the number it announces: with 16 ONUs on 3 ports, 15 are logged
  as the total to provision and 12 are provisioned.
\<close>

lemma batches_shortfall:
  "\<exists>bp. plan_batches 16 3 = Done (Planned bp) \<and> bp_total bp = 15 \<and>
     unat (bp_batches bp) * length (batch_ports 3 bp) = 12"
  by (simp add: sample_plan length_batch_ports)

text \<open>
  The batch computation divides by zero, and the process panics, exactly when the number of ONUs is
  accepted and the device has no PON port, or the per-port count is a multiple of 2 to the 32 (the batch size
  is then halved to zero, against the comment that 1 is its least value).
\<close>

lemma plan_batches_crash:
  "plan_batches numOfOnu ponPorts = Crashed e \<longleftrightarrow> e = DivideByZero \<and> isPowerOfTwo numOfOnu \<and>
     unat ponPorts \<le> unat numOfOnu \<and>
     (ponPorts = 0 \<or> (unat numOfOnu div unat ponPorts) mod 2 ^ 32 = 0)"
proof -
  let ?p = "uint_of_uint32 ponPorts"
  have p: "unat ?p = unat ponPorts" by (rule unat_uint_of_uint32)
  have le: "numOfOnu < ?p \<longleftrightarrow> \<not> unat ponPorts \<le> unat numOfOnu" by (simp add: word_less_nat_alt p not_le)
  have z: "?p = 0 \<longleftrightarrow> ponPorts = 0" using p by (metis unat_eq_zero)
  have h: "halve_batch n 4 = 0 \<longleftrightarrow> n = 0" for n
    by (auto simp: halve_batch_4 word_le_nat_alt word_unat_eq_iff)
  have "unat (uint32_of_uint (numOfOnu div ?p)) = (unat numOfOnu div unat ponPorts) mod 2 ^ 32"
    by (simp add: unat_uint32_of_uint unat_div p)
  then have d: "uint32_of_uint (numOfOnu div ?p) = 0 \<longleftrightarrow> (unat numOfOnu div unat ponPorts) mod 2 ^ 32 = 0"
    by (metis unat_eq_zero)
  show ?thesis by (auto simp: plan_batches_def Let_def le z h d)
qed

end
