(* ===== verification/Olt_Manager.thy ===== *)
theory Olt_Manager
  imports Batching
begin

text \<open>
  Model of the provisioning half of \<open>core/olt\_manager.go\<close>: the activation of one ONU, the serial number strings,
  and the loops of \<open>provisionONUs\<close> that decide which ONUs are activated, on which port and under which
  identity. Pointers to resource managers are non-nil here; \<open>Olt\_Start\<close> shows when that is so.

  The ONU IDs come from the resource pools of voltha-lib-go, here a parameter: what a call returns may depend on the
  calls made before. The wait group between the batches is the subject of \<open>Wait\_Groups\<close>.
\<close>

section \<open>Serial numbers\<close>

definition hex_nibbles :: "uint8 \<Rightarrow> string" where
  "hex_nibbles b =
     Sprintf_x (unat (drop_bit 4 (ucast b :: uint32) AND 0x0f)) @
     Sprintf_x (unat ((ucast b :: uint32) AND 0x0f))"

definition stringifyVendorSpecific :: "uint8 list \<Rightarrow> string outcome" where
  "stringifyVendorSpecific vendorSpecific =
     (case vendorSpecific of
        b0 # b1 # b2 # b3 # _ \<Rightarrow> Done (hex_nibbles b0 @ hex_nibbles b1 @ hex_nibbles b2 @ hex_nibbles b3)
      | _ \<Rightarrow> Crashed IndexOutOfRange)"

definition stringifySerialNumber :: "SerialNumber option \<Rightarrow> string outcome" where
  "stringifySerialNumber serialNum =
     (case serialNum of
        None \<Rightarrow> Done []
      | Some sn \<Rightarrow>
          (case stringifyVendorSpecific (sn_VendorSpecific sn) of
             Crashed p \<Rightarrow> Crashed p
           | Done s \<Rightarrow> Done (string_of (sn_VendorId sn) @ s)))"

section \<open>Activating an ONU\<close>

definition ReasonOk :: string where "ReasonOk = ''OK''"

text \<open>
  The clock is read once, into \<open>now\<close> (in nanoseconds). The flag says that the ONU's goroutine is started, which is
  also what will signal the wait group of the batch.
\<close>

definition activateONU ::
  "OpenOltScaleTesterConfig \<Rightarrow> OpenOltResourceMgr list \<Rightarrow> uint32 \<Rightarrow> uint32 \<Rightarrow> SerialNumber \<Rightarrow> string \<Rightarrow> int \<Rightarrow>
   (OnuDevice \<times> bool) prog" where
  "activateONU cfg mgrs intfID onuID serialNum serialNumber now =
     (if length mgrs \<le> unat intfID then Panic IndexOutOfRange
      else
        (let milliStart = now div 1000000;
             onuDevice = \<lparr>od_SerialNum = serialNumber, od_OnuID = onuID, od_PonIntf = intfID,
               od_OnuProvisionStartTime = now, od_OnuProvisionEndTime = None,
               od_OnuProvisionDurationInMs = 0, od_Reason = [], od_SubscriberMap = Map.empty,
               od_testConfig = cfg, od_rsrMgr = mgrs ! unat intfID\<rparr>;
             onu = \<lparr>onu_IntfId = intfID, onu_OnuId = onuID, onu_SerialNumber = Some serialNum,
               onu_Pir = 1000000, onu_OmccEncryption = False\<rparr>
         in Call (ActivateOnu onu) (\<lambda>err.
              case err of
                None \<Rightarrow>
                  (let milliEnd = now div 1000000
                   in Ret (onuDevice\<lparr>od_OnuProvisionEndTime := Some now,
                        od_OnuProvisionDurationInMs := milliEnd - milliStart, od_Reason := ReasonOk\<rparr>, True))
              | Some e \<Rightarrow>
                  if status_code err = AlreadyExists then Ret (onuDevice, False)
                  else
                    (let milliEnd = now div 1000000
                     in Ret (onuDevice\<lparr>od_OnuProvisionEndTime := Some now,
                          od_OnuProvisionDurationInMs := milliEnd - milliStart, od_Reason := Error e\<rparr>, False)))))"

text \<open>The map entry the activation leaves behind, under the ONU's key.\<close>

type_synonym onu_map = "uint32 \<times> uint32 \<rightharpoonup> OnuDevice"

definition store_onu :: "OnuDevice \<Rightarrow> onu_map \<Rightarrow> onu_map" where
  "store_onu dev m = m((od_OnuID dev, od_PonIntf dev) \<mapsto> dev)"

section \<open>The provisioning loops\<close>

record spawned =
  sp_intfID :: uint32
  sp_onuID :: uint32
  sp_serial :: SerialNumber
  sp_serialNumber :: string

record prov_state =
  pv_vendorSpecificId :: uint64
  pv_calls :: "(uint32 \<times> uint32) list"

text \<open>
  What manager \<open>i\<close> answers, after the given calls, to a request for one ONU ID of port \<open>j\<close>. Any answers are allowed here;
  \<open>Onu_Ids\<close> puts the pools of the key-value store in their place.
\<close>

type_synonym onu_pools =
  "(uint32 \<times> uint32) list \<Rightarrow> uint32 \<Rightarrow> uint32 \<Rightarrow> (uint32 list \<times> go_error option) outcome"

text \<open>
  The body of the innermost loop: the serial number is taken first, an error of the pool skips the ONU. The
  manager is the one at the index of the batch.
\<close>

definition provision_one ::
  "onu_pools \<Rightarrow> OpenOltResourceMgr list \<Rightarrow> uint32 \<Rightarrow> uint32 \<Rightarrow> prov_state \<Rightarrow> spawned option outcome \<times> prov_state" where
  "provision_one pools mgrs i j st =
     (let r = GenerateNextONUSerialNumber (pv_vendorSpecificId st);
          sn = fst r;
          st = st\<lparr>pv_vendorSpecificId := snd r\<rparr>
      in if length mgrs \<le> unat i then (Crashed IndexOutOfRange, st)
         else
           (let st' = st\<lparr>pv_calls := pv_calls st @ [(i, j)]\<rparr>
            in case pools (pv_calls st) i j of
                 Crashed p \<Rightarrow> (Crashed p, st')
               | Done (_, Some err) \<Rightarrow> (Done None, st')
               | Done (onuIDSl, None) \<Rightarrow>
                   (case onuIDSl of
                      [] \<Rightarrow> (Crashed IndexOutOfRange, st')
                    | onuID # _ \<Rightarrow>
                        (case stringifySerialNumber (Some sn) of
                           Crashed p \<Rightarrow> (Crashed p, st')
                         | Done s \<Rightarrow> (Done (Some \<lparr>sp_intfID = j, sp_onuID = onuID, sp_serial = sn,
                             sp_serialNumber = s\<rparr>), st')))))"

text \<open>One batch: the two inner loops, as the list of ports they visit.\<close>

fun provision_batch ::
  "onu_pools \<Rightarrow> OpenOltResourceMgr list \<Rightarrow> uint32 \<Rightarrow> uint32 list \<Rightarrow> prov_state \<Rightarrow>
   go_panic option \<times> spawned list \<times> prov_state" where
  "provision_batch pools mgrs i [] st = (None, [], st)"
| "provision_batch pools mgrs i (j # js) st =
     (case provision_one pools mgrs i j st of
        (Crashed p, st') \<Rightarrow> (Some p, [], st')
      | (Done s, st') \<Rightarrow>
          (case provision_batch pools mgrs i js st' of
             (p, ss, st'') \<Rightarrow> (p, (case s of None \<Rightarrow> ss | Some x \<Rightarrow> x # ss), st'')))"

text \<open>The outer loop from batch \<open>i\<close> on, with \<open>n\<close> batches left.\<close>

fun provision_batches ::
  "onu_pools \<Rightarrow> OpenOltResourceMgr list \<Rightarrow> uint32 list \<Rightarrow> nat \<Rightarrow> nat \<Rightarrow> prov_state \<Rightarrow>
   go_panic option \<times> spawned list list \<times> prov_state" where
  "provision_batches pools mgrs ports i 0 st = (None, [], st)"
| "provision_batches pools mgrs ports i (Suc n) st =
     (case provision_batch pools mgrs (of_nat i) ports st of
        (Some p, ss, st') \<Rightarrow> (Some p, [ss], st')
      | (None, ss, st') \<Rightarrow>
          (case provision_batches pools mgrs ports (Suc i) n st' of
             (p, sss, st'') \<Rightarrow> (p, ss # sss, st'')))"

datatype prov_end =
    NotStarted string
  | AllBatches "spawned list list"
  | ProvisionPanic go_panic "spawned list list"

definition provisionONUs ::
  "onu_pools \<Rightarrow> OpenOltScaleTesterConfig \<Rightarrow> DeviceInfo \<Rightarrow> OpenOltResourceMgr list \<Rightarrow> uint64 \<Rightarrow> prov_end" where
  "provisionONUs pools cfg deviceInfo mgrs vendorId =
     (case plan_batches (NumOfOnu cfg) (di_PonPorts deviceInfo) of
        Crashed p \<Rightarrow> ProvisionPanic p []
      | Done (Rejected msg) \<Rightarrow> NotStarted msg
      | Done (Planned bp) \<Rightarrow>
          (case provision_batches pools mgrs (batch_ports (di_PonPorts deviceInfo) bp) 0 (unat (bp_batches bp))
                  \<lparr>pv_vendorSpecificId = vendorId, pv_calls = []\<rparr> of
             (Some p, sss, _) \<Rightarrow> ProvisionPanic p sss
           | (None, sss, _) \<Rightarrow> AllBatches sss))"

section \<open>Lemmas on serial numbers\<close>

definition serial_string :: "nat \<Rightarrow> string" where
  "serial_string n = concat (map (\<lambda>c. hex_nibbles (of_nat (of_char c))) (take 4 (FormatUint n)))"

lemma unat_low_nibble: "unat (x AND 0x0f :: uint32) = unat x mod 16"
proof -
  have "x AND 0x0f = take_bit 4 x" by (simp add: take_bit_eq_mask mask_eq_exp_minus_1)
  then have "x AND 0x0f = x mod 16" by (simp add: take_bit_eq_mod)
  then show ?thesis by (simp add: unat_mod)
qed

lemma hex_nibbles_digits: "hex_nibbles b = [digit_char (unat b div 16), digit_char (unat b mod 16)]"
proof -
  have u: "unat (ucast b :: uint32) = unat b"
    by (simp add: unsigned_ucast_eq) (rule take_bit_nat_eq_self, rule less_le_trans [OF unsigned_less], simp)
  have "unat b < 2 ^ LENGTH(8)" by (rule unsigned_less)
  then have h: "unat b div 16 < 16" by simp
  have "unat (drop_bit 4 (ucast b :: uint32)) = unat b div 16"
    using u by (simp add: drop_bit_eq_div unat_div)
  with u h show ?thesis
    by (simp add: hex_nibbles_def unat_low_nibble Sprintf_x_def fmt_base_small)
qed

lemma length_hex_nibbles [simp]: "length (hex_nibbles b) = 2"
  by (simp add: hex_nibbles_digits)

lemma hex_nibbles_inj: "hex_nibbles b = hex_nibbles c \<longleftrightarrow> b = c"
proof
  assume e: "hex_nibbles b = hex_nibbles c"
  have l: "unat x < 256" for x :: uint8
  proof -
    have "unat x < 2 ^ LENGTH(8)" by (rule unsigned_less)
    then show ?thesis by simp
  qed
  have "unat x div 16 < 16" for x :: uint8 using l [of x] by simp
  with e have "unat b div 16 = unat c div 16" "unat b mod 16 = unat c mod 16"
    by (auto simp: hex_nibbles_digits intro!: digit_char_inj)
  then have "unat b = unat c" by (metis div_mult_mod_eq)
  then show "b = c" by (simp add: word_unat_eq_iff)
qed simp

lemma digits_below: "n < 10 ^ k \<Longrightarrow> 0 < k \<Longrightarrow> length (FormatUint n) \<le> k"
proof (induction k arbitrary: n)
  case (Suc k)
  show ?case
  proof (cases "n < 10")
    case False
    then have "k \<noteq> 0" using Suc.prems by (cases k) auto
    moreover have "n div 10 < 10 ^ k" using Suc.prems by simp
    ultimately have "length (FormatUint (n div 10)) \<le> k" using Suc.IH by simp
    with False show ?thesis by (simp add: FormatUint_def fmt_base_step)
  qed (simp add: FormatUint_def fmt_base_small)
qed simp

lemma digits_above: "10 ^ k \<le> n \<Longrightarrow> k < length (FormatUint n)"
proof (induction k arbitrary: n)
  case (Suc k)
  then have "10 ^ k \<le> n div 10" by (simp add: less_eq_div_iff_mult_less_eq mult.commute)
  moreover have "10 \<le> n"
  proof -
    have "(1::nat) \<le> 10 ^ k" by simp
    moreover have "10 * 10 ^ k \<le> n" using Suc.prems by simp
    ultimately show ?thesis by linarith
  qed
  ultimately
  show ?case using Suc.IH [of "n div 10"] by (simp add: FormatUint_def fmt_base_step)
qed (simp add: FormatUint_def)

lemma stringify_bytes:
  assumes "4 \<le> length s"
  shows "stringifyVendorSpecific (bytes_of s) =
     Done (concat (map (\<lambda>c. hex_nibbles (of_nat (of_char c))) (take 4 s)))"
proof -
  obtain a b c d r where "s = a # b # c # d # r"
    using assms by (auto simp: numeral_eq_Suc Suc_le_length_iff)
  then show ?thesis by (simp add: stringifyVendorSpecific_def bytes_of_def)
qed

text \<open>The string of the ONU that gets the next serial number after \<open>v\<close>.\<close>

lemma Itoa_next:
  assumes "unat v + 1 < 2 ^ 63"
  shows "Itoa (sint (v + 1 :: uint64)) = FormatUint (unat v + 1)"
proof -
  have v: "unat (v + 1) = unat v + 1" using assms by (intro unat_Suc_word) simp
  have "int (unat (v + 1)) < int (2 ^ 63)" using assms unfolding v by (simp only: of_nat_less_iff)
  then have "uint (v + 1) < 2 ^ 63" by simp
  moreover have "- (2 ^ 63) \<le> uint (v + 1)" by (rule order_trans [of _ 0]) simp_all
  ultimately have "signed_take_bit 63 (uint (v + 1)) = uint (v + 1)" by (intro signed_take_bit_int_eq_self)
  then have "sint (v + 1) = int (unat (v + 1))" by (simp add: sint_uint)
  then show ?thesis unfolding Itoa_def by (simp only: v nat_int of_nat_less_0_iff if_False)
qed

lemma stringify_next:
  assumes "1000 \<le> unat v" "unat v + 1 < 2 ^ 63"
  shows "stringifySerialNumber (Some (fst (GenerateNextONUSerialNumber v))) =
     Done (''ABCD'' @ serial_string (unat v + 1))"
proof -
  note i = Itoa_next [OF assms(2)]
  have "4 \<le> length (FormatUint (unat v + 1))" using digits_above [of 3 "unat v + 1"] assms(1) by simp
  then show ?thesis
    by (simp add: stringifySerialNumber_def GenerateNextONUSerialNumber_def Let_def i stringify_bytes
        serial_string_def vendorName_def)
qed

lemma concat_hex_inj:
  assumes "length xs = length ys"
    "concat (map (\<lambda>c. hex_nibbles (of_nat (of_char c))) xs) = concat (map (\<lambda>c. hex_nibbles (of_nat (of_char c))) ys)"
  shows "xs = ys"
  using assms
proof (induction xs ys rule: list_induct2)
  case (Cons x xs y ys)
  then have "hex_nibbles (of_nat (of_char x)) = hex_nibbles (of_nat (of_char y)) \<and>
     concat (map (\<lambda>c. hex_nibbles (of_nat (of_char c))) xs) = concat (map (\<lambda>c. hex_nibbles (of_nat (of_char c))) ys)"
    by (intro append_eq_append_conv [THEN iffD1]) simp_all
  moreover have "of_nat (of_char x) = (of_nat (of_char y) :: uint8) \<Longrightarrow> x = y"
    by (metis char_of_char unat_of_char)
  ultimately show ?case using Cons.IH by (simp add: hex_nibbles_inj)
qed simp

lemma serial_string_eq:
  assumes "1000 \<le> a" "1000 \<le> b"
  shows "serial_string a = serial_string b \<longleftrightarrow> take 4 (FormatUint a) = take 4 (FormatUint b)"
proof -
  have "4 \<le> length (FormatUint a)" "4 \<le> length (FormatUint b)"
    using assms digits_above [of 3 a] digits_above [of 3 b] by simp_all
  then show ?thesis by (auto simp: serial_string_def dest!: concat_hex_inj [rotated])
qed

lemma serial_of_next:
  assumes "unat v + 1 < 2 ^ 63"
  shows "fst (GenerateNextONUSerialNumber v) =
     \<lparr>sn_VendorId = bytes_of ''ABCD'', sn_VendorSpecific = bytes_of (FormatUint (unat v + 1))\<rparr>"
  by (simp add: GenerateNextONUSerialNumber_def Let_def vendorName_def Itoa_next [OF assms])

lemma bytes_of_inj: "bytes_of s = bytes_of t \<longleftrightarrow> s = t"
  by (metis string_of_bytes_of)

section \<open>Lemmas on the loops\<close>

text \<open>A pool that always has an ID to give.\<close>

definition generous :: "onu_pools \<Rightarrow> bool" where
  "generous pools \<longleftrightarrow> (\<forall>h i j. \<exists>onuID rest. pools h i j = Done (onuID # rest, None))"

text \<open>The serial numbers of the next \<open>n\<close> ONUs.\<close>

definition serials :: "uint64 \<Rightarrow> nat \<Rightarrow> SerialNumber list" where
  "serials v n = map (\<lambda>k. fst (GenerateNextONUSerialNumber (v + of_nat k))) [0..<n]"

lemma serials_0 [simp]: "serials v 0 = []"
  by (simp add: serials_def)

lemma serials_Suc: "serials v (Suc n) = fst (GenerateNextONUSerialNumber v) # serials (v + 1) n"
proof -
  have "[0..<Suc n] = 0 # map Suc [0..<n]" by (simp add: map_Suc_upt upt_conv_Cons)
  then show ?thesis by (simp add: serials_def comp_def add.assoc del: upt_Suc)
qed

lemma serials_add: "serials v (a + b) = serials v a @ serials (v + of_nat a) b"
  by (induction a arbitrary: v) (simp_all add: serials_Suc add.assoc)

lemma provision_one_ok:
  assumes "generous pools" "unat i < length mgrs" "1000 \<le> unat (pv_vendorSpecificId st)"
    "unat (pv_vendorSpecificId st) + 1 < 2 ^ 63"
  shows "\<exists>s st'. provision_one pools mgrs i j st = (Done (Some s), st') \<and> sp_intfID s = j \<and>
     sp_serial s = fst (GenerateNextONUSerialNumber (pv_vendorSpecificId st)) \<and>
     pv_vendorSpecificId st' = pv_vendorSpecificId st + 1"
proof -
  let ?v = "pv_vendorSpecificId st"
  obtain onuID rest where "pools (pv_calls st) i j = Done (onuID # rest, None)"
    using assms(1) unfolding generous_def by blast
  moreover have "snd (GenerateNextONUSerialNumber ?v) = ?v + 1"
    by (simp add: GenerateNextONUSerialNumber_def Let_def)
  ultimately show ?thesis
    using assms(2) stringify_next [OF assms(3,4)] by (simp add: provision_one_def Let_def)
qed

lemma provision_batch_ok:
  assumes "generous pools" "unat i < length mgrs" "1000 \<le> unat (pv_vendorSpecificId st)"
    "unat (pv_vendorSpecificId st) + length js < 2 ^ 63"
  shows "\<exists>ss st'. provision_batch pools mgrs i js st = (None, ss, st') \<and> map sp_intfID ss = js \<and>
     map sp_serial ss = serials (pv_vendorSpecificId st) (length js) \<and>
     pv_vendorSpecificId st' = pv_vendorSpecificId st + of_nat (length js) \<and>
     unat (pv_vendorSpecificId st') = unat (pv_vendorSpecificId st) + length js"
  using assms(3,4)
proof (induction js arbitrary: st)
  case (Cons j js)
  let ?v = "pv_vendorSpecificId st"
  obtain s st1 where 1: "provision_one pools mgrs i j st = (Done (Some s), st1)" "sp_intfID s = j"
    "sp_serial s = fst (GenerateNextONUSerialNumber ?v)" "pv_vendorSpecificId st1 = ?v + 1"
    using provision_one_ok [OF assms(1,2) Cons.prems(1), of j] Cons.prems(2) by auto
  have v1: "unat (pv_vendorSpecificId st1) = unat ?v + 1"
    unfolding 1(4) using Cons.prems(2) by (intro unat_Suc_word) simp
  obtain ss st2 where 2: "provision_batch pools mgrs i js st1 = (None, ss, st2)" "map sp_intfID ss = js"
    "map sp_serial ss = serials (?v + 1) (length js)"
    "pv_vendorSpecificId st2 = ?v + 1 + of_nat (length js)"
    "unat (pv_vendorSpecificId st2) = unat ?v + 1 + length js"
    using Cons.IH [of st1] Cons.prems v1 1(4) by auto
  with 1 show ?case by (simp add: serials_Suc add.assoc)
qed simp

lemma provision_batch_crash:
  assumes "length mgrs \<le> unat i" "js \<noteq> []"
  shows "\<exists>st'. provision_batch pools mgrs i js st = (Some IndexOutOfRange, [], st')"
  using assms by (cases js) (simp_all add: provision_one_def Let_def)

text \<open>The batches up to the number of managers succeed; the first one beyond panics.\<close>

lemma provision_batches_run:
  assumes "generous pools" "ports \<noteq> []" "i + n < 2 ^ 32" "i \<le> length mgrs"
    "1000 \<le> unat (pv_vendorSpecificId st)" "unat (pv_vendorSpecificId st) + n * length ports < 2 ^ 63"
  shows "\<exists>sss st'. provision_batches pools mgrs ports i n st =
       (if i + n \<le> length mgrs then None else Some IndexOutOfRange,
        sss @ (if i + n \<le> length mgrs then [] else [[]]), st') \<and>
     length sss = min n (length mgrs - i) \<and> list_all (\<lambda>ss. map sp_intfID ss = ports) sss \<and>
     map sp_serial (concat sss) = serials (pv_vendorSpecificId st) (length sss * length ports)"
  using assms(3-6)
proof (induction n arbitrary: i st)
  case (Suc n)
  have i32: "unat (of_nat i :: uint32) = i"
    using Suc.prems(1) by (simp add: unsigned_of_nat take_bit_nat_eq_self)
  let ?v = "pv_vendorSpecificId st"
  show ?case
  proof (cases "i < length mgrs")
    case False
    with Suc.prems(2) have "i = length mgrs" by simp
    then obtain st' where "provision_batch pools mgrs (of_nat i) ports st = (Some IndexOutOfRange, [], st')"
      using provision_batch_crash [of mgrs "of_nat i" ports pools st] i32 assms(2) by auto
    with \<open>i = length mgrs\<close> show ?thesis by (intro exI [of _ "[]"]) simp
  next
    case True
    then obtain ss st1 where 1: "provision_batch pools mgrs (of_nat i) ports st = (None, ss, st1)"
      "map sp_intfID ss = ports"
      "map sp_serial ss = serials ?v (length ports)"
      "pv_vendorSpecificId st1 = ?v + of_nat (length ports)"
      "unat (pv_vendorSpecificId st1) = unat ?v + length ports"
      using provision_batch_ok [OF assms(1), of "of_nat i" mgrs st ports] i32 Suc.prems(3,4) by auto
    obtain sss st2 where 2: "provision_batches pools mgrs ports (Suc i) n st1 =
         (if Suc i + n \<le> length mgrs then None else Some IndexOutOfRange,
          sss @ (if Suc i + n \<le> length mgrs then [] else [[]]), st2)"
      "length sss = min n (length mgrs - Suc i)" "list_all (\<lambda>ss. map sp_intfID ss = ports) sss"
      "map sp_serial (concat sss) = serials (pv_vendorSpecificId st1) (length sss * length ports)"
      using Suc.IH [of "Suc i" st1] Suc.prems 1(5) True by auto
    have "min (Suc n) (length mgrs - i) = Suc (min n (length mgrs - Suc i))" using True by simp
    with 1 2 show ?thesis
      by (intro exI [of _ "ss # sss"] exI [of _ st2]) (simp add: serials_add add.commute)
  qed
qed simp

lemma distinct_serials:
  assumes "unat v + n < 2 ^ 63"
  shows "distinct (serials v n)"
proof -
  have "inj_on (\<lambda>k. fst (GenerateNextONUSerialNumber (v + of_nat k))) {0..<n}"
  proof (rule inj_onI)
    fix i j assume ij: "i \<in> {0..<n}" "j \<in> {0..<n}"
      and e: "fst (GenerateNextONUSerialNumber (v + of_nat i)) = fst (GenerateNextONUSerialNumber (v + of_nat j))"
    have u: "unat (v + of_nat k) = unat v + k" if "k < n" for k
    proof -
      have k: "unat (of_nat k :: uint64) = k" using that assms by (simp add: unsigned_of_nat take_bit_nat_eq_self)
      then have "unat v + unat (of_nat k :: uint64) < 2 ^ LENGTH(64)" using that assms by simp
      then show ?thesis using unat_add_lem [of v "of_nat k"] k by simp
    qed
    have f: "fst (GenerateNextONUSerialNumber (v + of_nat k)) =
        \<lparr>sn_VendorId = bytes_of ''ABCD'', sn_VendorSpecific = bytes_of (FormatUint (unat v + k + 1))\<rparr>" if "k < n" for k
    proof -
      have "unat (v + of_nat k) + 1 < 2 ^ 63" using u [OF that] that assms by linarith
      then show ?thesis using serial_of_next [of "v + of_nat k"] u [OF that] by simp
    qed
    have "bytes_of (FormatUint (unat v + i + 1)) = bytes_of (FormatUint (unat v + j + 1))"
      using e f [of i] f [of j] ij by (metis SerialNumber.select_convs(2) atLeastLessThan_iff)
    then have "FormatUint (unat v + i + 1) = FormatUint (unat v + j + 1)" by (simp only: bytes_of_inj)
    then show "i = j" by simp
  qed
  then show ?thesis by (simp add: serials_def distinct_map)
qed

section \<open>Properties\<close>

text \<open>
  C24: once a plan is made and the pools have IDs to give, the provisioning loops take the resource manager
  at the index of the batch, not of the PON port: they run to the end exactly when there are no more batches than
  ports, and then every batch activates its ONUs on the ports in order, under serial numbers that are all
  different; with more batches than ports the process panics on the index in the batch
  after the last port, having started one batch per port.
\<close>

theorem provision_panics_iff:
  assumes "generous pools"
    and "plan_batches (NumOfOnu cfg) (di_PonPorts dev) = Done (Planned bp)"
    and "length mgrs = unat (di_PonPorts dev)"
    and "unat (NumOfOnu cfg) \<le> 2 ^ 62" "unat (NumOfOnu cfg) div unat (di_PonPorts dev) < 2 ^ 32"
  shows "if unat (bp_batches bp) \<le> unat (di_PonPorts dev)
     then \<exists>sss. provisionONUs pools cfg dev mgrs vendorSpecificId_init = AllBatches sss \<and>
       length sss = unat (bp_batches bp) \<and>
       list_all (\<lambda>ss. map sp_intfID ss = batch_ports (di_PonPorts dev) bp) sss \<and>
       distinct (map sp_serial (concat sss))
     else \<exists>sss. provisionONUs pools cfg dev mgrs vendorSpecificId_init =
         ProvisionPanic IndexOutOfRange (sss @ [[]]) \<and>
       length sss = unat (di_PonPorts dev) \<and>
       list_all (\<lambda>ss. map sp_intfID ss = batch_ports (di_PonPorts dev) bp) sss"
proof -
  note n = plan_batches_nat [OF assms(2,5)]
  note b = plan_bounds [OF assms(2,5)]
  let ?ports = "batch_ports (di_PonPorts dev) bp"
  have total: "unat (bp_batches bp) * length ?ports \<le> 2 ^ 62"
  proof -
    have "unat (bp_total bp) \<le> unat (NumOfOnu cfg)" unfolding n(2) by simp
    with b assms(4) show ?thesis by linarith
  qed
  have ports: "?ports \<noteq> []"
  proof -
    have "length ?ports \<noteq> 0" using n(5) b by (auto simp: length_batch_ports)
    then show ?thesis by auto
  qed
  have v: "unat vendorSpecificId_init = 1000" by (simp add: vendorSpecificId_init_def)
  obtain sss st' where r: "provision_batches pools mgrs ?ports 0 (unat (bp_batches bp))
       \<lparr>pv_vendorSpecificId = vendorSpecificId_init, pv_calls = []\<rparr> =
       (if unat (bp_batches bp) \<le> length mgrs then None else Some IndexOutOfRange,
        sss @ (if unat (bp_batches bp) \<le> length mgrs then [] else [[]]), st')"
    "length sss = min (unat (bp_batches bp)) (length mgrs)"
    "list_all (\<lambda>ss. map sp_intfID ss = ?ports) sss"
    "map sp_serial (concat sss) = serials vendorSpecificId_init (length sss * length ?ports)"
    using provision_batches_run [OF assms(1) ports, of 0 "unat (bp_batches bp)" mgrs
        "\<lparr>pv_vendorSpecificId = vendorSpecificId_init, pv_calls = []\<rparr>"]
      u32_bound [of "bp_batches bp"] total v by auto
  have "length sss * length ?ports \<le> 2 ^ 62"
  proof -
    have "length sss \<le> unat (bp_batches bp)" using r(2) by simp
    then have "length sss * length ?ports \<le> unat (bp_batches bp) * length ?ports" by (rule mult_le_mono1)
    with total show ?thesis by linarith
  qed
  then have "distinct (map sp_serial (concat sss))"
    unfolding r(4) by (intro distinct_serials) (simp add: v)
  with r assms(2,3) show ?thesis by (auto simp: provisionONUs_def)
qed

lemma small_plan:
  "plan_batches 8 1 = Done (Planned \<lparr>bp_perPon = 8, bp_total = 8, bp_perBatch = 4, bp_batches = 2\<rparr>)"
  by (simp add: plan_batches_def isPowerOfTwo_def uint_of_uint32_def uint32_of_uint_def halve_batch_4)

theorem provision_panics_iff_witness:
  "\<exists>sss. provisionONUs (\<lambda>h i j. Done ([1], None)) (sample_config ''ATT''\<lparr>NumOfOnu := 8\<rparr>)
       (sample_device\<lparr>di_PonPorts := 1\<rparr>) [sample_manager 0] vendorSpecificId_init =
     ProvisionPanic IndexOutOfRange (sss @ [[]]) \<and> length sss = 1"
  using provision_panics_iff [of "\<lambda>h i j. Done ([1], None)" "sample_config ''ATT''\<lparr>NumOfOnu := 8\<rparr>"
      "sample_device\<lparr>di_PonPorts := 1\<rparr>" "\<lparr>bp_perPon = 8, bp_total = 8, bp_perBatch = 4, bp_batches = 2\<rparr>"
      "[sample_manager 0]"]
  by (auto simp: generous_def small_plan)

text \<open>
  The serial number string under which an ONU and its subscribers are named keeps only the first four digits
  of the vendor specific counter: it tells two ONUs apart exactly when those digits differ, which they do for
  all numbers of up to four digits.
\<close>

lemma serial_number_strings:
  assumes "1000 \<le> unat v" "unat v + 1 < 2 ^ 63" "1000 \<le> unat v'" "unat v' + 1 < 2 ^ 63"
  shows "(stringifySerialNumber (Some (fst (GenerateNextONUSerialNumber v))) =
          stringifySerialNumber (Some (fst (GenerateNextONUSerialNumber v'))) \<longleftrightarrow>
          take 4 (FormatUint (unat v + 1)) = take 4 (FormatUint (unat v' + 1))) \<and>
     (unat v < 9999 \<and> unat v' < 9999 \<and>
      stringifySerialNumber (Some (fst (GenerateNextONUSerialNumber v))) =
        stringifySerialNumber (Some (fst (GenerateNextONUSerialNumber v'))) \<longrightarrow> v = v')"
proof -
  have e: "stringifySerialNumber (Some (fst (GenerateNextONUSerialNumber v))) =
        stringifySerialNumber (Some (fst (GenerateNextONUSerialNumber v'))) \<longleftrightarrow>
      take 4 (FormatUint (unat v + 1)) = take 4 (FormatUint (unat v' + 1))"
    using assms by (simp add: stringify_next serial_string_eq)
  have "take 4 (FormatUint (unat x + 1)) = FormatUint (unat x + 1)" if "unat x < 9999" for x :: uint64
    using digits_below [of "unat x + 1" 4] that by simp
  then show ?thesis using e by (auto simp: word_unat_eq_iff)
qed

lemma serial_number_strings_witness:
  "stringifySerialNumber (Some (fst (GenerateNextONUSerialNumber 1000))) \<noteq>
   stringifySerialNumber (Some (fst (GenerateNextONUSerialNumber 1001)))"
  using serial_number_strings [of 1000 1001] by auto

text \<open>
  from the 9000th ONU on names repeat: the ONUs numbered 10000 and 10001 have different serial numbers and the same
  string, so the subscribers of the one are named as those of the other.
\<close>

lemma serial_number_string_collision:
  "fst (GenerateNextONUSerialNumber 9999) \<noteq> fst (GenerateNextONUSerialNumber 10000) \<and>
   stringifySerialNumber (Some (fst (GenerateNextONUSerialNumber 9999))) =
   stringifySerialNumber (Some (fst (GenerateNextONUSerialNumber 10000)))"
proof -
  have ne: "fst (GenerateNextONUSerialNumber 9999) \<noteq> fst (GenerateNextONUSerialNumber 10000)"
    using serial_of_next [of 9999] serial_of_next [of 10000] by (simp add: bytes_of_inj)
  have "take 4 (FormatUint 10000) = take 4 (FormatUint 10001)"
    by (simp add: FormatUint_def fmt_base_step fmt_base_small)
  then have "serial_string (unat (9999 :: uint64) + 1) = serial_string (unat (10000 :: uint64) + 1)"
    by (simp add: serial_string_eq)
  then show ?thesis using ne stringify_next [of 9999] stringify_next [of 10000] by simp
qed

text \<open>
  Activating an ONU on a port of the device makes one request, for that port, ONU ID and serial number, and starts
  the ONU's goroutine exactly when the device reports no error; the reason says OK, the device's error, or nothing
  when the device says that the ONU exists; and the duration it records is always zero, since both
  of its time stamps are the same reading of the clock.
\<close>

lemma activate_onu_outcome:
  assumes "unat intfID < length mgrs"
  shows "let onu = \<lparr>onu_IntfId = intfID, onu_OnuId = onuID, onu_SerialNumber = Some sn, onu_Pir = 1000000,
             onu_OmccEncryption = False\<rparr>;
           err = reply E (sent w) (ActivateOnu onu)
     in \<exists>dev. run E (activateONU cfg mgrs intfID onuID sn name now) w =
           (Done (dev, err = None), w\<lparr>sent := sent w @ [ActivateOnu onu]\<rparr>) \<and>
         od_SerialNum dev = name \<and> od_OnuID dev = onuID \<and> od_PonIntf dev = intfID \<and>
         od_rsrMgr dev = mgrs ! unat intfID \<and> od_testConfig dev = cfg \<and>
         od_OnuProvisionDurationInMs dev = 0 \<and>
         od_Reason dev = (case err of None \<Rightarrow> ''OK''
           | Some e \<Rightarrow> if status_code err = AlreadyExists then [] else Error e)"
proof (cases "reply E (sent w) (ActivateOnu \<lparr>onu_IntfId = intfID, onu_OnuId = onuID, onu_SerialNumber = Some sn,
    onu_Pir = 1000000, onu_OmccEncryption = False\<rparr>)")
  case None
  with assms show ?thesis by (simp add: activateONU_def Let_def ReasonOk_def)
next
  case (Some e)
  with assms show ?thesis by (simp add: activateONU_def Let_def)
qed

lemma activate_onu_outcome_witness:
  "\<exists>dev. fst (run accepting (activateONU (sample_config ''ATT'') [sample_manager 0] 0 1
      \<lparr>sn_VendorId = [], sn_VendorSpecific = []\<rparr> ''ABCD31303031'' 1500000) world_init) = Done (dev, True) \<and>
     od_Reason dev = ''OK'' \<and> od_OnuProvisionDurationInMs dev = 0"
  using activate_onu_outcome [of 0 "[sample_manager 0]" 1 "\<lparr>sn_VendorId = [], sn_VendorSpecific = []\<rparr>" accepting
      world_init "sample_config ''ATT''" "''ABCD31303031''" 1500000]
  by (auto simp: Let_def)

end
