(* ===== verification/Olt_Start.thy ===== *)
theory Olt_Start
  imports Olt_Manager
begin

text \<open>
  Model of the start of the OLT manager (\<open>core/olt\_manager.go\<close>): \<open>Start\<close> connects to the device, reads its
  information, loads the technology profiles into the key-value store, builds one resource manager per PON port, installs the
  NNI trap flows and then provisions the ONUs; \<open>readIndications\<close> runs beside it and consumes
  the device's indications.

  The network, the file system, the JSON codecs and the key-value store are parameters, collected in \<open>start_env\<close>. A manager that
  could not be built is a nil pointer, \<open>None\<close>. \<open>logger.Fatal\<close> ends the process.
\<close>

section \<open>State\<close>

record OpenOltManager =
  om_ipPort :: string
  om_deviceInfo :: "DeviceInfo option"
  om_OnuDeviceMap :: onu_map
  om_testConfig :: "OpenOltScaleTesterConfig option"
  om_rsrMgr :: "OpenOltResourceMgr option list"

text \<open>
  The type variables are the states of the store, open profile files, profiles, and the values of the store.
\<close>

record ('kv, 'file, 'tp, 'val) start_env =
  se_dial :: "string \<Rightarrow> go_error option"
  se_info :: "DeviceInfo option \<times> go_error option"
  se_etcd :: "string \<Rightarrow> bool"
  se_open :: "string \<Rightarrow> 'file option"
  se_parse :: "'file \<Rightarrow> 'tp option"
  se_marshal :: "'tp \<Rightarrow> uint8 list"
  se_put :: "'kv \<Rightarrow> string \<Rightarrow> uint8 list \<Rightarrow> 'kv \<times> go_error option"
  se_get :: "'kv \<Rightarrow> string \<Rightarrow> 'val option"
  se_bytes :: "'val \<Rightarrow> uint8 list option"
  se_unmarshal :: "uint8 list \<Rightarrow> 'tp option"
  se_rm :: rm_deps

datatype start_end =
    StartReturns "go_error option"
  | StartExits string

section \<open>Operations\<close>

definition NewOpenOltManager :: "string \<Rightarrow> OpenOltManager" where
  "NewOpenOltManager ipPort =
     \<lparr>om_ipPort = ipPort, om_deviceInfo = None, om_OnuDeviceMap = Map.empty, om_testConfig = None,
      om_rsrMgr = []\<rparr>"

definition populateDeviceInfo ::
  "DeviceInfo option \<times> go_error option \<Rightarrow> OpenOltManager \<Rightarrow> OpenOltManager \<times> go_error option" where
  "populateDeviceInfo resp om =
     (let om = om\<lparr>om_deviceInfo := fst resp\<rparr>
      in case snd resp of
           Some err \<Rightarrow> (om, Some err)
         | None \<Rightarrow> (if om_deviceInfo om = None then (om, Some (ErrorString ''failed to get device info from OLT''))
                    else (om, None)))"

definition tpFilePath :: "string \<Rightarrow> int \<Rightarrow> string" where
  "tpFilePath wfName tpID = ''/app/'' @ wfName @ ''-'' @ Itoa tpID @ ''.json''"

definition TechProfileKVPath :: "string \<Rightarrow> int \<Rightarrow> string" where
  "TechProfileKVPath technology tpID = ''service/voltha/technology_profiles/'' @ technology @ ''/'' @ Itoa tpID"

text \<open>
  The loop over the profile IDs; \<open>Some\<close> is the message of a fatal log entry. A stored value that is no byte string is passed
  over in silence.
\<close>

fun load_profiles ::
  "('kv, 'file, 'tp, 'val) start_env \<Rightarrow> string \<Rightarrow> string \<Rightarrow> int list \<Rightarrow> 'kv \<Rightarrow> string option \<times> 'kv" where
  "load_profiles S wfName technology [] kv = (None, kv)"
| "load_profiles S wfName technology (tpID # rest) kv =
     (case se_open S (tpFilePath wfName tpID) of
        None \<Rightarrow> (Some ''could-not-find-tech-profile'', kv)
      | Some jsonFile \<Rightarrow>
          (case se_parse S jsonFile of
             None \<Rightarrow> (Some ''could-not-unmarshal-tp'', kv)
           | Some tp \<Rightarrow>
               (let kvPath = TechProfileKVPath technology tpID
                in case se_put S kv kvPath (se_marshal S tp) of
                     (kv', Some err) \<Rightarrow> (Some ''tp-put-to-etcd-failed'', kv')
                   | (kv', None) \<Rightarrow>
                       (case se_get S kv' kvPath of
                          None \<Rightarrow> (Some ''tp-not-found-on-kv-after-load'', kv')
                        | Some kvResult \<Rightarrow>
                            (case se_bytes S kvResult of
                               None \<Rightarrow> load_profiles S wfName technology rest kv'
                             | Some value \<Rightarrow>
                                 (case se_unmarshal S value of
                                    None \<Rightarrow> (Some ''error-unmarshal-kv-result'', kv')
                                  | Some KvTp \<Rightarrow> load_profiles S wfName technology rest kv'))))))"

definition readAndLoadTPsToEtcd ::
  "('kv, 'file, 'tp, 'val) start_env \<Rightarrow> OpenOltScaleTesterConfig \<Rightarrow> DeviceInfo \<Rightarrow> 'kv \<Rightarrow> string option \<times> 'kv" where
  "readAndLoadTPsToEtcd S testConfig deviceInfo kv =
     (if \<not> se_etcd S (''http://'' @ KVStoreHost testConfig @ '':'' @ Itoa (KVStorePort testConfig))
      then (Some ''error-initializing-etcd-client'', kv)
      else load_profiles S (WorkflowName testConfig) (di_Technology deviceInfo) (TpIDList testConfig) kv)"

text \<open>
  The loop that builds the managers. A nil manager is stored like any other: the check after the constructor looks at the slice, which is never
  nil.
\<close>

fun new_managers ::
  "rm_deps \<Rightarrow> DeviceInfo \<Rightarrow> uint32 list \<Rightarrow> kv \<Rightarrow> (string + OpenOltResourceMgr option list) outcome \<times> kv" where
  "new_managers D deviceInfo [] st = (Done (Inr []), st)"
| "new_managers D deviceInfo (ponIdx # rest) st =
     (case NewResourceMgr D ''ABCD'' ponIdx deviceInfo st of
        (RmPanic p, st') \<Rightarrow> (Crashed p, st')
      | (RmExit msg, st') \<Rightarrow> (Done (Inl msg), st')
      | (RmNil, st') \<Rightarrow>
          (case new_managers D deviceInfo rest st' of
             (Done (Inr ms), st'') \<Rightarrow> (Done (Inr (None # ms)), st'') | r \<Rightarrow> r)
      | (RmOk m, st') \<Rightarrow>
          (case new_managers D deviceInfo rest st' of
             (Done (Inr ms), st'') \<Rightarrow> (Done (Inr (Some m # ms)), st'') | r \<Rightarrow> r))"

definition pon_indices :: "uint32 \<Rightarrow> uint32 list" where
  "pon_indices ponPorts = map of_nat [0..<unat ponPorts]"

text \<open>The NNI trap flows through a pointer to the manager: each supported workflow draws a flow ID first.\<close>

definition nni_trap_through ::
  "OpenOltScaleTesterConfig \<Rightarrow> OpenOltResourceMgr option \<Rightarrow> go_error option prog" where
  "nni_trap_through config rsrMgr =
     (case rsrMgr of
        Some m \<Rightarrow> ProvisionNniTrapFlow config m
      | None \<Rightarrow>
          if WorkflowName config \<in> {''ATT'', ''DT'', ''TT''} then Panic NilDereference
          else Ret (Some (ErrorString ''workflow-not-supported'')))"

text \<open>
  \<open>Start\<close>. When it returns no error, the ONUs are provisioned next, with the state that is left; an error of the
  trap flows is only logged. \<open>kv\<close> is the part of the key-value store with the profiles, \<open>st\<close> the part with the pools,
  under another prefix.
\<close>

definition Start ::
  "('kv, 'file, 'tp, 'val) start_env \<Rightarrow> 'kv \<Rightarrow> kv \<Rightarrow> OpenOltScaleTesterConfig \<Rightarrow> OpenOltManager \<Rightarrow>
   (start_end \<times> OpenOltManager \<times> kv) prog" where
  "Start S kv st testConfig om =
     (let om = om\<lparr>om_testConfig := Some testConfig\<rparr>
      in case se_dial S (om_ipPort om) of
           Some err \<Rightarrow> Ret (StartReturns (Some err), om, st)
         | None \<Rightarrow>
             (case populateDeviceInfo (se_info S) om of
                (om, Some err) \<Rightarrow> Ret (StartReturns (Some err), om, st)
              | (om, None) \<Rightarrow>
                  bindp (deref NilDereference (om_deviceInfo om)) (\<lambda>deviceInfo.
                  case readAndLoadTPsToEtcd S testConfig deviceInfo kv of
                    (Some msg, kv') \<Rightarrow> Ret (StartExits msg, om, st)
                  | (None, kv') \<Rightarrow>
                      (case new_managers (se_rm S) deviceInfo (pon_indices (di_PonPorts deviceInfo)) st of
                         (Crashed p, st') \<Rightarrow> Panic p
                       | (Done (Inl msg), st') \<Rightarrow> Ret (StartExits msg, om, st')
                       | (Done (Inr ms), st') \<Rightarrow>
                           (let om = om\<lparr>om_rsrMgr := ms\<rparr>
                            in case ms of
                                 [] \<Rightarrow> Panic IndexOutOfRange
                               | m0 # _ \<Rightarrow>
                                   bindp (nni_trap_through testConfig m0) (\<lambda>err.
                                   Ret (StartReturns None, om, st')))))))"

section \<open>Indications\<close>

datatype Indication =
    Indication_OltInd
  | Indication_IntfInd
  | Indication_IntfOperInd string
  | Indication_OnuInd
  | Indication_OmciInd "(uint32 \<times> uint32 \<times> uint8 list) option"
  | Indication_PktInd
  | Indication_AlarmInd
  | Indication_Other

text \<open>The log entry an indication leads to.\<close>

definition handleIndication :: "Indication \<Rightarrow> string option outcome" where
  "handleIndication indication =
     (case indication of
        Indication_OltInd \<Rightarrow> Done (Some ''received olt indication'')
      | Indication_IntfInd \<Rightarrow> Done (Some ''Received interface indication '')
      | Indication_IntfOperInd t \<Rightarrow>
          Done (if t = ''nni'' then Some ''received interface oper indication for nni port''
                else if t = ''pon'' then Some ''received interface oper indication for pon port''
                else None)
      | Indication_OnuInd \<Rightarrow> Done (Some ''Received Onu indication '')
      | Indication_OmciInd omciInd \<Rightarrow>
          (case omciInd of None \<Rightarrow> Crashed NilDereference | Some _ \<Rightarrow> Done (Some ''Received Omci indication ''))
      | Indication_PktInd \<Rightarrow> Done (Some ''Received packet indication '')
      | Indication_AlarmInd \<Rightarrow> Done (Some ''Received alarm indication '')
      | Indication_Other \<Rightarrow> Done None)"

text \<open>
  What \<open>Recv\<close> returns. The end of a stream comes with the answer to the next \<open>EnableIndication\<close>: whether
  there is a new stream, and the error.
\<close>

datatype recv =
    RecvInd Indication
  | RecvEof bool "go_error option"
  | RecvErr go_error

datatype ind_action =
    Handled "string option"
  | Slept nat

datatype ind_end =
    Waiting
  | Ended
  | IndPanic go_panic

text \<open>
  The receive loop on the events that arrive. \<open>n\<close> counts the calls of \<open>NextBackOff\<close> since the last reset, \<open>stop\<close> says which of
  them return \<open>Stop\<close>; \<open>Slept n\<close> is a sleep for the interval of that call. \<open>stream\<close> is false for a nil
  stream.
\<close>

fun receive_loop :: "(nat \<Rightarrow> bool) \<Rightarrow> nat \<Rightarrow> bool \<Rightarrow> recv list \<Rightarrow> ind_action list \<times> ind_end" where
  "receive_loop stop n False evs = ([], IndPanic NilDereference)"
| "receive_loop stop n True [] = ([], Waiting)"
| "receive_loop stop n True (RecvInd indication # evs) =
     (case handleIndication indication of
        Crashed p \<Rightarrow> ([], IndPanic p)
      | Done msg \<Rightarrow> apfst (Cons (Handled msg)) (receive_loop stop 0 True evs))"
| "receive_loop stop n True (RecvEof stream err # evs) =
     (let n' = (if stop n then 0 else Suc n)
      in case err of
           Some e \<Rightarrow> ([Slept n'], Ended)
         | None \<Rightarrow> apfst (Cons (Slept n')) (receive_loop stop (Suc n') stream evs))"
| "receive_loop stop n True (RecvErr e # evs) = ([], Ended)"

definition readIndications ::
  "(nat \<Rightarrow> bool) \<Rightarrow> bool \<times> go_error option \<Rightarrow> recv list \<Rightarrow> ind_action list \<times> ind_end" where
  "readIndications stop enable evs =
     (case enable of
        (stream, Some err) \<Rightarrow> ([], Ended)
      | (stream, None) \<Rightarrow> if \<not> stream then ([], Ended) else receive_loop stop 0 stream evs)"

section \<open>Lemmas\<close>

lemma nth_pon_indices [simp]:
  "length (pon_indices n) = unat n"
  "i < unat n \<Longrightarrow> pon_indices n ! i = of_nat i"
  by (simp_all add: pon_indices_def)

lemma pon_index_less: "j \<in> set (pon_indices n) \<Longrightarrow> j < n"
  by (auto simp: pon_indices_def word_less_nat_alt unsigned_of_nat intro: le_less_trans [OF take_bit_nat_less_eq_self])

text \<open>The managers of a healthy start: for each port the manager of its last range.\<close>

definition port_manager :: "DeviceInfo \<Rightarrow> uint32 \<Rightarrow> OpenOltResourceMgr" where
  "port_manager dev j = \<lparr>rm_deviceInfo = dev, rm_intfID = j,
     rm_PonRsrMgr = Some (range_manager ''ABCD'' dev (last (port_ranges dev j)))\<rparr>"

text \<open>Every port is listed in some range, and every range that lists one of them is complete.\<close>

definition covered :: "DeviceInfo \<Rightarrow> bool" where
  "covered dev \<longleftrightarrow> (\<forall>j < di_PonPorts dev. port_ranges dev j \<noteq> [] \<and>
     list_all (\<lambda>r. ranges_complete (device_ranges r dev)) (port_ranges dev j))"

lemma new_managers_healthy:
  assumes "\<forall>t. new_pon_ok D t" "\<forall>n. kv_answers D n = KvOk" "healthy_store st"
    and "\<And>j. j \<in> set js \<Longrightarrow> port_ranges dev j \<noteq> [] \<and>
      list_all (\<lambda>r. ranges_complete (device_ranges r dev)) (port_ranges dev j)"
  shows "\<exists>st'. healthy_store st' \<and> new_managers D dev js st =
     (Done (Inr (map (\<lambda>j. if new_tp_ok D then Some (port_manager dev j) else None) js)), st')"
  using assms(3,4)
proof (induction js arbitrary: st)
  case (Cons j js)
  obtain st1 where st1: "healthy_store st1" "NewResourceMgr D ''ABCD'' j dev st =
      (if new_tp_ok D then RmOk (port_manager dev j) else RmNil, st1)"
    using NewResourceMgr_healthy [OF assms(1,2) Cons.prems(1), of "''ABCD''" j dev] Cons.prems(2) [of j]
    by (auto simp: Let_def port_manager_def)
  obtain st2 where "healthy_store st2" "new_managers D dev js st1 =
     (Done (Inr (map (\<lambda>j. if new_tp_ok D then Some (port_manager dev j) else None) js)), st2)"
    using Cons.IH [OF st1(1)] Cons.prems(2) by auto
  with st1 show ?case by simp
qed auto

lemma new_managers_covered:
  assumes "\<forall>t. new_pon_ok D t" "\<forall>n. kv_answers D n = KvOk" "healthy_store st" "covered dev"
  obtains st' where "healthy_store st'" "new_managers D dev (pon_indices (di_PonPorts dev)) st =
     (Done (Inr (map (\<lambda>j. if new_tp_ok D then Some (port_manager dev j) else None) (pon_indices (di_PonPorts dev)))), st')"
  using new_managers_healthy [OF assms(1-3), of "pon_indices (di_PonPorts dev)" dev] assms(4) pon_index_less
  unfolding covered_def by blast

text \<open>The trap flows never end the start with a proper manager.\<close>

lemma run_trap_through:
  "\<exists>err w'. run E (nni_trap_through cfg (Some m)) w = (Done err, w') \<and>
     (\<exists>rs. sent w' = sent w @ rs \<and> length rs \<le> 2) \<and> tp_calls w' = tp_calls w"
proof -
  have raw: "\<exists>e. run E (send_raw_flow f) w = (Done e, w\<lparr>sent := sent w @ [FlowAdd f]\<rparr>)" for f w
    by (simp add: send_raw_flow_def)
  show ?thesis
    by (auto simp: nni_trap_through_def ProvisionNniTrapFlow_def ProvisionAttNniTrapFlow_def
        ProvisionDtNniTrapFlow_def ProvisionTtNniTrapFlow_def AddDhcpIPV4Flow_def AddTtDhcpIPV4Flow_def
        AddDhcpIPV6Flow_def AddLldpFlow_def dhcp_trap_def ignoring_def run_bindp run_GetFlowID send_raw_flow_def)
qed

lemma digits_no_minus: "CHR ''-'' \<notin> set (FormatUint n)"
proof -
  have "digit_char d \<noteq> CHR ''-''" if "d < 10" for d
    using that by (auto dest: arg_cong [where f = "of_char :: char \<Rightarrow> nat"])
  then show ?thesis using FormatUint_digits by metis
qed

lemma Itoa_inj: "Itoa a = Itoa b \<longleftrightarrow> a = b"
proof -
  have "CHR ''-'' # xs \<noteq> FormatUint n" for xs n using digits_no_minus [of n] by (metis list.set_intros(1))
  then show ?thesis by (auto simp: Itoa_def eq_nat_nat_iff dest: sym)
qed

lemma KVPath_inj: "TechProfileKVPath t a = TechProfileKVPath t b \<longleftrightarrow> a = b"
  by (simp add: TechProfileKVPath_def Itoa_inj)

text \<open>The profile in the file of an ID.\<close>

definition profile_of :: "('kv, 'file, 'tp, 'val) start_env \<Rightarrow> string \<Rightarrow> int \<Rightarrow> 'tp option" where
  "profile_of S wfName tpID = Option.bind (se_open S (tpFilePath wfName tpID)) (se_parse S)"

text \<open>What the property on the receive loop speaks of.\<close>

fun healthy :: "recv \<Rightarrow> bool" where
  "healthy (RecvInd i) = (\<exists>msg. handleIndication i = Done msg)"
| "healthy (RecvEof stream err) = (stream \<and> err = None)"
| "healthy (RecvErr e) = False"

fun entries :: "ind_action list \<Rightarrow> string option list" where
  "entries [] = []"
| "entries (Handled msg # as) = msg # entries as"
| "entries (Slept n # as) = entries as"

fun indications :: "recv list \<Rightarrow> Indication list" where
  "indications [] = []"
| "indications (RecvInd i # evs) = i # indications evs"
| "indications (_ # evs) = indications evs"

text \<open>A store that is a map, one profile file, and two ports in one range, for the evaluations.\<close>

definition two_ports :: DeviceInfo where
  "two_ports =
     \<lparr>di_PonPorts = 2, di_Technology = ''XGS-PON'',
      di_Ranges = [\<lparr>rr_IntfIds = [0, 1], rr_Technology = ''XGS-PON'', rr_Pools =
        [\<lparr>pl_Type = Pool_ONU_ID, pl_Sharing = DEDICATED_PER_INTF, pl_Start = 1, pl_End = 127\<rparr>,
         \<lparr>pl_Type = Pool_ALLOC_ID, pl_Sharing = DEDICATED_PER_INTF, pl_Start = 1024, pl_End = 16383\<rparr>,
         \<lparr>pl_Type = Pool_GEMPORT_ID, pl_Sharing = DEDICATED_PER_INTF, pl_Start = 1024, pl_End = 65535\<rparr>]\<rparr>]\<rparr>"

definition sample_start ::
  "bool \<Rightarrow> (string \<rightharpoonup> uint8 list, uint8 list, uint8 list, uint8 list) start_env" where
  "sample_start tp_ok =
     \<lparr>se_dial = (\<lambda>ip. None),
      se_info = (Some two_ports, None),
      se_etcd = (\<lambda>address. True),
      se_open = (\<lambda>path. if path = tpFilePath ''ATT'' 64 then Some [1, 2] else None),
      se_parse = Some, se_marshal = id,
      se_put = (\<lambda>kv path value. (kv(path \<mapsto> value), None)), se_get = (\<lambda>kv path. kv path),
      se_bytes = Some, se_unmarshal = Some,
      se_rm = \<lparr>new_pon_ok = (\<lambda>t. True), kv_answers = (\<lambda>n. KvOk), new_tp_ok = tp_ok\<rparr>\<rparr>"

text \<open>A start whose managers are built, and the start of a working environment.\<close>

lemma run_Start:
  assumes "se_dial S (om_ipPort om) = None" "se_info S = (Some dev, None)"
    and "fst (readAndLoadTPsToEtcd S cfg dev kv) = None"
    and "new_managers (se_rm S) dev (pon_indices (di_PonPorts dev)) st = (Done (Inr (map Some ms)), st')" "ms \<noteq> []"
  shows "\<exists>w'. run E (Start S kv st cfg om) w =
       (Done (StartReturns None,
          om\<lparr>om_testConfig := Some cfg, om_deviceInfo := Some dev, om_rsrMgr := map Some ms\<rparr>, st'), w') \<and>
     (\<exists>rs. sent w' = sent w @ rs \<and> length rs \<le> 2) \<and> tp_calls w' = tp_calls w"
proof -
  obtain m0 rest where m0: "ms = m0 # rest" using assms(5) by (cases ms) auto
  obtain err w' where t: "run E (nni_trap_through cfg (Some m0)) w = (Done err, w')"
    "\<exists>rs. sent w' = sent w @ rs \<and> length rs \<le> 2" "tp_calls w' = tp_calls w" using run_trap_through by blast
  obtain kv' where kv: "readAndLoadTPsToEtcd S cfg dev kv = (None, kv')" using assms(3) by (metis prod.collapse)
  have "run E (Start S kv st cfg om) w =
       (Done (StartReturns None,
          om\<lparr>om_testConfig := Some cfg, om_deviceInfo := Some dev, om_rsrMgr := map Some ms\<rparr>, st'), w')"
    using assms(1,2,4) kv t(1) unfolding m0
    by (simp add: Start_def populateDeviceInfo_def Let_def run_bindp)
  with t(2,3) show ?thesis by blast
qed

section \<open>Properties\<close>

text \<open>
  Against a store that keeps what is put and codecs that undo each other, loading the technology profiles
  succeeds exactly when the file of every configured profile exists and parses, and then the store holds the profile
  of each ID under the path of the device's technology, whatever it held before.
\<close>

lemma load_profiles_ok:
  assumes put: "\<forall>kv p b. snd (se_put S kv p b) = None"
    and get: "\<forall>kv p b q. se_get S (fst (se_put S kv p b)) q = (if q = p then Some (v b) else se_get S kv q)"
    and codec: "\<forall>b. se_bytes S (v b) = Some b" "\<forall>tp. se_unmarshal S (se_marshal S tp) = Some tp"
  shows "(fst (load_profiles S wfName tech ids kv) = None \<longleftrightarrow> list_all (\<lambda>i. profile_of S wfName i \<noteq> None) ids) \<and>
     (fst (load_profiles S wfName tech ids kv) = None \<longrightarrow>
        (\<forall>i \<in> set ids. se_get S (snd (load_profiles S wfName tech ids kv)) (TechProfileKVPath tech i) =
           map_option (\<lambda>tp. v (se_marshal S tp)) (profile_of S wfName i)) \<and>
        (\<forall>p. p \<notin> TechProfileKVPath tech ` set ids \<longrightarrow>
           se_get S (snd (load_profiles S wfName tech ids kv)) p = se_get S kv p))"
proof (induction ids arbitrary: kv)
  case (Cons i ids)
  show ?case
  proof (cases "profile_of S wfName i")
    case None
    then show ?thesis by (auto simp: profile_of_def Option.bind_eq_None_conv split: option.split)
  next
    case (Some tp)
    then obtain f where f: "se_open S (tpFilePath wfName i) = Some f" "se_parse S f = Some tp"
      by (auto simp: profile_of_def Option.bind_eq_Some_conv)
    obtain kv' where p: "se_put S kv (TechProfileKVPath tech i) (se_marshal S tp) = (kv', None)"
      using put by (metis prod.collapse)
    have g: "se_get S kv' q = (if q = TechProfileKVPath tech i then Some (v (se_marshal S tp)) else se_get S kv q)" for q
      using get [rule_format, of kv "TechProfileKVPath tech i" "se_marshal S tp" q] p by simp
    have L: "load_profiles S wfName tech (i # ids) kv = load_profiles S wfName tech ids kv'"
      using f p g codec by (simp add: Let_def)
    have "se_get S (snd (load_profiles S wfName tech ids kv')) (TechProfileKVPath tech i) = Some (v (se_marshal S tp))"
      if "fst (load_profiles S wfName tech ids kv') = None" "i \<notin> set ids"
    proof -
      have "TechProfileKVPath tech i \<notin> TechProfileKVPath tech ` set ids" using that(2) by (auto simp: KVPath_inj)
      with Cons.IH [of kv'] that(1) show ?thesis using g by metis
    qed
    then show ?thesis
      unfolding L using Cons.IH [of kv'] Some g
      by (cases "i \<in> set ids") (auto simp: KVPath_inj simp del: load_profiles.simps)
  qed
qed simp

lemma load_profiles_ok_witness:
  "fst (load_profiles (sample_start True) ''ATT'' ''XGS-PON'' [64] Map.empty) = None \<and>
   snd (load_profiles (sample_start True) ''ATT'' ''XGS-PON'' [64] Map.empty) (TechProfileKVPath ''XGS-PON'' 64) = Some [1, 2] \<and>
   fst (load_profiles (sample_start True) ''DT'' ''XGS-PON'' [64] Map.empty) \<noteq> None"
  using load_profiles_ok [of "sample_start True" id "''ATT''" "''XGS-PON''" "[64]" Map.empty]
    load_profiles_ok [of "sample_start True" id "''DT''" "''XGS-PON''" "[64]" Map.empty]
  by (simp add: sample_start_def profile_of_def tpFilePath_def del: load_profiles.simps)

lemma sample_start_loads:
  "fst (readAndLoadTPsToEtcd (sample_start b) (sample_config ''ATT'') dev Map.empty) = None"
  by (simp add: readAndLoadTPsToEtcd_def sample_start_def)

lemma two_ports_ranges:
  "j < 2 \<Longrightarrow> port_ranges two_ports j = di_Ranges two_ports" "j < 2 \<longleftrightarrow> j = 0 \<or> j = (1 :: uint32)"
proof -
  show e: "j < 2 \<longleftrightarrow> j = 0 \<or> j = 1" for j :: uint32 by (auto simp: word_less_nat_alt word_unat_eq_iff)
  show "j < 2 \<Longrightarrow> port_ranges two_ports j = di_Ranges two_ports"
    unfolding e by (auto simp: port_ranges_def range_visits_def two_ports_def)
qed

lemma two_ports_covered: "covered two_ports"
proof -
  have "list_all (\<lambda>r. ranges_complete (device_ranges r two_ports)) (di_Ranges two_ports)" "di_Ranges two_ports \<noteq> []"
    by (simp_all add: two_ports_def device_ranges_def ranges_complete_def)
  moreover have "di_PonPorts two_ports = 2" by (simp add: two_ports_def)
  ultimately show ?thesis by (simp add: covered_def two_ports_ranges)
qed

definition empty_kv :: kv where
  "empty_kv = \<lparr>kv_data = Map.empty, kv_ops = 0\<rparr>"

lemma healthy_empty: "healthy_store empty_kv"
  by (simp add: healthy_store_def empty_kv_def)

text \<open>
  C23: when the device answers, the profiles load, the store works, and every port of the device is listed in some range and only in ranges
  with all pools, the start gets to the provisioning of the ONUs for every workflow and whatever the device says to the trap
  flows, having sent at most two of them; it then has one resource manager for each PON port, at the port's index,
  with the port's number and the ranges of the last range that lists it.
\<close>

theorem start_provisions:
  assumes "se_dial S (om_ipPort om) = None" "se_info S = (Some dev, None)"
    and "fst (readAndLoadTPsToEtcd S cfg dev kv) = None"
    and "\<forall>t. new_pon_ok (se_rm S) t" "\<forall>n. kv_answers (se_rm S) n = KvOk" "new_tp_ok (se_rm S)" "healthy_store st"
    and "covered dev" "0 < di_PonPorts dev"
  shows "\<exists>ms w' st'. run E (Start S kv st cfg om) w =
       (Done (StartReturns None,
          om\<lparr>om_testConfig := Some cfg, om_deviceInfo := Some dev, om_rsrMgr := map Some ms\<rparr>, st'), w') \<and>
     ms = map (port_manager dev) (pon_indices (di_PonPorts dev)) \<and> healthy_store st' \<and>
     (\<exists>rs. sent w' = sent w @ rs \<and> length rs \<le> 2)"
proof -
  let ?ms = "map (port_manager dev) (pon_indices (di_PonPorts dev))"
  obtain st' where st': "healthy_store st'"
    "new_managers (se_rm S) dev (pon_indices (di_PonPorts dev)) st = (Done (Inr (map Some ?ms)), st')"
    using new_managers_covered [OF assms(4,5,7,8)] assms(6) by (auto simp: comp_def)
  have "0 < unat (di_PonPorts dev)" using assms(9) by (simp add: word_less_nat_alt)
  then have "length ?ms \<noteq> 0" by simp
  then have "?ms \<noteq> []" by blast
  from run_Start [OF assms(1-3) st'(2) this, of E w] st'(1) show ?thesis by blast
qed

theorem start_provisions_witness:
  "\<exists>om w' st'. run accepting (Start (sample_start True) Map.empty empty_kv (sample_config ''ATT'')
       (NewOpenOltManager ''127.0.0.1:50060'')) world_init = (Done (StartReturns None, om, st'), w') \<and>
     length (om_rsrMgr om) = 2"
  using start_provisions [of "sample_start True" "NewOpenOltManager ''127.0.0.1:50060''" two_ports
      "sample_config ''ATT''" Map.empty empty_kv accepting world_init] sample_start_loads [of True two_ports]
    two_ports_covered healthy_empty
  by (auto simp: sample_start_def two_ports_def)

text \<open>
  A resource manager that could not be built is not noticed: when the technology profile manager of the library fails for every port,
  the start of a supported workflow dereferences nil in the first trap flow, and with any other workflow name it reports
  success with nothing but nil managers. A device without PON ports makes it index an empty slice.
\<close>

lemma start_ignores_failed_managers:
  assumes "se_dial S (om_ipPort om) = None" "se_info S = (Some dev, None)"
    and "fst (readAndLoadTPsToEtcd S cfg dev kv) = None"
    and "\<forall>t. new_pon_ok (se_rm S) t" "\<forall>n. kv_answers (se_rm S) n = KvOk" "\<not> new_tp_ok (se_rm S)" "healthy_store st"
    and "covered dev"
  shows "\<exists>st'. run E (Start S kv st cfg om) w =
    (if di_PonPorts dev = 0 then (Crashed IndexOutOfRange, w)
     else if WorkflowName cfg \<in> {''ATT'', ''DT'', ''TT''} then (Crashed NilDereference, w)
     else (Done (StartReturns None, om\<lparr>om_testConfig := Some cfg, om_deviceInfo := Some dev,
             om_rsrMgr := replicate (unat (di_PonPorts dev)) None\<rparr>, st'), w))"
proof -
  have nones: "map (\<lambda>j. None) js = replicate (length js) None" for js :: "uint32 list"
    by (induction js) simp_all
  obtain st' where ms: "new_managers (se_rm S) dev (pon_indices (di_PonPorts dev)) st =
      (Done (Inr (replicate (unat (di_PonPorts dev)) None)), st')"
    using new_managers_covered [OF assms(4,5,7,8)] assms(6) by (auto simp: nones)
  obtain kv' where kv: "readAndLoadTPsToEtcd S cfg dev kv = (None, kv')" using assms(3) by (metis prod.collapse)
  show ?thesis
    using assms(1,2) kv ms
    by (cases "unat (di_PonPorts dev)")
      (auto simp: Start_def populateDeviceInfo_def Let_def run_bindp nni_trap_through_def unat_eq_0)
qed

lemma start_ignores_failed_managers_witness:
  "run accepting (Start (sample_start False) Map.empty empty_kv (sample_config ''ATT'')
       (NewOpenOltManager ''127.0.0.1:50060'')) world_init = (Crashed NilDereference, world_init)"
  using start_ignores_failed_managers [of "sample_start False" "NewOpenOltManager ''127.0.0.1:50060''" two_ports
      "sample_config ''ATT''" Map.empty empty_kv accepting world_init] sample_start_loads [of False two_ports]
    two_ports_covered healthy_empty
  by (auto simp: sample_start_def two_ports_def)

text \<open>
  The receive loop handles every indication that arrives on a healthy connection, in order, and goes on over the end of a stream as
  long as indications can be enabled again; it ends at the first other error, and only a nil stream or an OMCI indication without a body
  makes it panic.
\<close>

lemma receive_loop_handles:
  "map Done (entries (fst (receive_loop stop n True evs))) =
     map handleIndication (indications (takeWhile healthy evs)) \<and>
   snd (receive_loop stop n True evs) =
     (case dropWhile healthy evs of
        [] \<Rightarrow> Waiting
      | RecvErr e # _ \<Rightarrow> Ended
      | RecvEof stream (Some e) # _ \<Rightarrow> Ended
      | _ \<Rightarrow> IndPanic NilDereference)"
proof (induction evs arbitrary: n)
  case (Cons ev evs)
  show ?case
  proof (cases ev)
    case (RecvInd i)
    then show ?thesis
      using Cons.IH [of 0] by (cases i) (auto simp: handleIndication_def split: option.split)
  next
    case (RecvEof stream err)
    then show ?thesis
      using Cons.IH by (cases stream; cases err) (auto simp: Let_def)
  qed simp
qed simp

end
