(* ===== verification/Onu_Ids.thy ===== *)
theory Onu_Ids
  imports Olt_Start
begin

text \<open>
  The provisioning loops of \<open>core/olt\_manager.go\<close> over the pools of the key-value store: the manager of batch \<open>i\<close>
  asks its technology profile manager, and this its PON resource manager, for one ONU ID of port \<open>j\<close>. The
  lemmas follow the identifiers taken from the store through the loops; the properties say which ONU IDs the
  ONUs get.
\<close>

section \<open>The pools behind the provisioning loops\<close>

text \<open>The store after a sequence of calls, and the answer to the next one.\<close>

fun replay :: "(nat \<Rightarrow> kv_answer) \<Rightarrow> OpenOltResourceMgr list \<Rightarrow> (uint32 \<times> uint32) list \<Rightarrow> kv \<Rightarrow> kv" where
  "replay F mgrs [] st = st"
| "replay F mgrs ((i, j) # calls) st =
     replay F mgrs calls (snd (TechprofileRef_GetResourceID F (mgrs ! unat i) j ''ONU_ID'' 1 st))"

definition store_pools :: "(nat \<Rightarrow> kv_answer) \<Rightarrow> OpenOltResourceMgr list \<Rightarrow> kv \<Rightarrow> onu_pools" where
  "store_pools F mgrs st calls i j =
     fst (TechprofileRef_GetResourceID F (mgrs ! unat i) j ''ONU_ID'' 1 (replay F mgrs calls st))"

fun spawned_by :: "prov_end \<Rightarrow> spawned list" where
  "spawned_by (NotStarted msg) = []"
| "spawned_by (AllBatches sss) = concat sss"
| "spawned_by (ProvisionPanic p sss) = concat sss"

section \<open>Lemmas\<close>

lemma replay_snoc:
  "replay F mgrs (calls @ [(i, j)]) st =
     snd (TechprofileRef_GetResourceID F (mgrs ! unat i) j ''ONU_ID'' 1 (replay F mgrs calls st))"
  by (induction F mgrs calls st rule: replay.induct) auto

text \<open>
  The managers agree on the pool of a port: \<open>key\<close> gives its key in the store.
\<close>

definition agree :: "OpenOltResourceMgr list \<Rightarrow> (uint32 \<Rightarrow> string) \<Rightarrow> bool" where
  "agree mgrs key \<longleftrightarrow>
     (\<forall>m \<in> set mgrs. \<exists>prm. rm_PonRsrMgr m = Some prm \<and> mgr_ready prm \<and> (\<forall>j. pool_key prm j ''ONU_ID'' = key j))"

lemma ask_manager:
  assumes "agree mgrs key" "m \<in> set mgrs" "store_inv st"
  shows "\<exists>ids err st'. TechprofileRef_GetResourceID F m j ''ONU_ID'' 1 st = (Done (ids, err), st') \<and> store_inv st' \<and>
     (\<forall>k. taken_at st k \<subseteq> taken_at st' k) \<and>
     (err = None \<longrightarrow> (\<exists>uid. ids = [uid] \<and> uid \<notin> taken_at st (key j) \<and> uid \<in> taken_at st' (key j)))"
proof -
  obtain prm where prm: "rm_PonRsrMgr m = Some prm" "mgr_ready prm" "pool_key prm j ''ONU_ID'' = key j"
    using assms(1,2) unfolding agree_def by blast
  have rt: "''ONU_ID'' \<in> resource_types" by (simp add: resource_types_def)
  obtain ids err st' where s: "GetResourceID F prm j ''ONU_ID'' 1 st = (Done (ids, err), st')" "store_inv st'"
    "\<forall>k. taken_at st k \<subseteq> taken_at st' k"
    "err = None \<longrightarrow> distinct ids \<and> set ids \<inter> taken_at st (key j) = {} \<and> set ids \<subseteq> taken_at st' (key j) \<and> length ids = 1"
    using GetResourceID_step [OF prm(2) rt assms(3), of F j 1] prm(3) by auto
  have "TechprofileRef_GetResourceID F m j ''ONU_ID'' 1 st = (Done (if err = None then ids else [], err), st')"
    using prm(1) s(1) by (auto simp: TechprofileRef_GetResourceID_def tp_GetResourceID_def kvm_defs)
  moreover have "\<exists>uid. ids = [uid]" if "err = None"
    using s(4) that by (cases ids) auto
  ultimately show ?thesis using s by (cases "err = None") auto
qed

text \<open>The part of the store's state that the loops carry along in the history of their calls.\<close>

definition store_at :: "(nat \<Rightarrow> kv_answer) \<Rightarrow> OpenOltResourceMgr list \<Rightarrow> kv \<Rightarrow> prov_state \<Rightarrow> kv" where
  "store_at F mgrs st0 pv = replay F mgrs (pv_calls pv) st0"

text \<open>The ONUs of a stretch of the loops: their identifiers were free before it and are taken after it.\<close>

definition fresh_ids :: "(uint32 \<Rightarrow> string) \<Rightarrow> kv \<Rightarrow> spawned list \<Rightarrow> kv \<Rightarrow> bool" where
  "fresh_ids key st ss st' \<longleftrightarrow>
     store_inv st' \<and> (\<forall>k. taken_at st k \<subseteq> taken_at st' k) \<and>
     distinct (map (\<lambda>s. (sp_intfID s, sp_onuID s)) ss) \<and>
     (\<forall>s \<in> set ss. sp_onuID s \<notin> taken_at st (key (sp_intfID s)) \<and> sp_onuID s \<in> taken_at st' (key (sp_intfID s)))"

lemma fresh_ids_append:
  assumes "fresh_ids key st ss st'" "fresh_ids key st' ss' st''"
  shows "fresh_ids key st (ss @ ss') st''"
proof -
  have "taken_at st k \<subseteq> taken_at st'' k" for k using assms unfolding fresh_ids_def by blast
  moreover have "(sp_intfID s, sp_onuID s) \<noteq> (sp_intfID s', sp_onuID s')" if "s \<in> set ss" "s' \<in> set ss'" for s s'
    using assms that unfolding fresh_ids_def by (metis prod.inject)
  moreover have "sp_onuID s \<notin> taken_at st (key (sp_intfID s)) \<and> sp_onuID s \<in> taken_at st'' (key (sp_intfID s))"
    if "s \<in> set ss \<union> set ss'" for s using assms that unfolding fresh_ids_def by blast
  ultimately show ?thesis
    using assms unfolding fresh_ids_def by (auto simp: image_iff)
qed

lemma fresh_ids_none: "store_inv st' \<Longrightarrow> (\<And>k. taken_at st k \<subseteq> taken_at st' k) \<Longrightarrow> fresh_ids key st [] st'"
  by (simp add: fresh_ids_def)

lemma provision_one_fresh:
  assumes "agree mgrs key" "store_inv (store_at F mgrs st0 pv)"
    and "provision_one (store_pools F mgrs st0) mgrs i j pv = (r, pv')"
  shows "fresh_ids key (store_at F mgrs st0 pv) (case r of Done (Some s) \<Rightarrow> [s] | _ \<Rightarrow> []) (store_at F mgrs st0 pv')"
proof (cases "length mgrs \<le> unat i")
  case True
  with assms show ?thesis by (auto simp: provision_one_def Let_def store_at_def intro!: fresh_ids_none)
next
  case False
  then have "mgrs ! unat i \<in> set mgrs" by simp
  from ask_manager [OF assms(1) this assms(2), of F j] obtain ids err st' where
    a: "TechprofileRef_GetResourceID F (mgrs ! unat i) j ''ONU_ID'' 1 (store_at F mgrs st0 pv) = (Done (ids, err), st')"
    "store_inv st'" "\<forall>k. taken_at (store_at F mgrs st0 pv) k \<subseteq> taken_at st' k"
    "err = None \<longrightarrow> (\<exists>uid. ids = [uid] \<and> uid \<notin> taken_at (store_at F mgrs st0 pv) (key j) \<and> uid \<in> taken_at st' (key j))"
    by blast
  have p: "store_pools F mgrs st0 (pv_calls pv) i j = Done (ids, err)" "store_at F mgrs st0 pv' = st'"
    using a(1) assms(3) False
    by (auto simp: store_pools_def store_at_def replay_snoc provision_one_def Let_def
        split: prod.splits outcome.splits option.splits list.splits)
  show ?thesis
  proof (cases "\<exists>s. r = Done (Some s)")
    case True
    then obtain s where "r = Done (Some s)" by blast
    with assms(3) p(1) False a(4) have "err = None" "sp_intfID s = j" "ids = [sp_onuID s]"
      by (auto simp: provision_one_def Let_def split: option.splits list.splits outcome.splits)
    with a \<open>r = Done (Some s)\<close> p(2) show ?thesis by (simp add: fresh_ids_def)
  next
    case False
    then have "(case r of Done (Some s) \<Rightarrow> [s] | _ \<Rightarrow> []) = []" by (auto split: outcome.splits option.splits)
    with a p(2) show ?thesis by (simp add: fresh_ids_none)
  qed
qed

lemma provision_batch_fresh:
  assumes "agree mgrs key" "store_inv (store_at F mgrs st0 pv)"
    and "provision_batch (store_pools F mgrs st0) mgrs i js pv = (p, ss, pv')"
  shows "fresh_ids key (store_at F mgrs st0 pv) ss (store_at F mgrs st0 pv')"
  using assms(2,3)
proof (induction js arbitrary: pv p ss pv')
  case Nil
  then show ?case by (auto intro: fresh_ids_none)
next
  case (Cons j js)
  obtain r pv1 where 1: "provision_one (store_pools F mgrs st0) mgrs i j pv = (r, pv1)" by (cases "provision_one (store_pools F mgrs st0) mgrs i j pv")
  note f = provision_one_fresh [OF assms(1) Cons.prems(1) 1]
  show ?case
  proof (cases r)
    case (Crashed e)
    with 1 f Cons.prems(2) show ?thesis by auto
  next
    case (Done s)
    obtain p2 ss2 pv2 where 2: "provision_batch (store_pools F mgrs st0) mgrs i js pv1 = (p2, ss2, pv2)"
      by (cases "provision_batch (store_pools F mgrs st0) mgrs i js pv1") auto
    from f have "store_inv (store_at F mgrs st0 pv1)" by (simp add: fresh_ids_def)
    from Cons.IH [OF this 2] have "fresh_ids key (store_at F mgrs st0 pv1) ss2 (store_at F mgrs st0 pv2)" .
    from fresh_ids_append [OF f this] 1 2 Done Cons.prems(2) show ?thesis by (cases s) auto
  qed
qed

lemma provision_batches_fresh:
  assumes "agree mgrs key" "store_inv (store_at F mgrs st0 pv)"
    and "provision_batches (store_pools F mgrs st0) mgrs ports i n pv = (p, sss, pv')"
  shows "fresh_ids key (store_at F mgrs st0 pv) (concat sss) (store_at F mgrs st0 pv')"
  using assms(2,3)
proof (induction n arbitrary: i pv p sss pv')
  case 0
  then show ?case by (auto intro: fresh_ids_none)
next
  case (Suc n)
  obtain p1 ss1 pv1 where 1: "provision_batch (store_pools F mgrs st0) mgrs (of_nat i) ports pv = (p1, ss1, pv1)"
    by (cases "provision_batch (store_pools F mgrs st0) mgrs (of_nat i) ports pv") auto
  note f = provision_batch_fresh [OF assms(1) Suc.prems(1) 1]
  show ?case
  proof (cases p1)
    case (Some e)
    with 1 f Suc.prems(2) show ?thesis by auto
  next
    case None
    obtain p2 sss2 pv2 where 2: "provision_batches (store_pools F mgrs st0) mgrs ports (Suc i) n pv1 = (p2, sss2, pv2)"
      by (cases "provision_batches (store_pools F mgrs st0) mgrs ports (Suc i) n pv1") auto
    from f have "store_inv (store_at F mgrs st0 pv1)" by (simp add: fresh_ids_def)
    from fresh_ids_append [OF f Suc.IH [OF this 2]] 1 2 None Suc.prems(2) show ?thesis by auto
  qed
qed

section \<open>New pools\<close>

text \<open>
  Every port of \<open>P\<close> has a pool that starts at \<open>S\<close>, has \<open>L\<close> bits, and has given out its first \<open>c j\<close> identifiers.
\<close>

definition counting ::
  "(uint32 \<Rightarrow> string) \<Rightarrow> uint32 set \<Rightarrow> uint32 \<Rightarrow> nat \<Rightarrow> kv \<Rightarrow> (uint32 \<Rightarrow> nat) \<Rightarrow> bool" where
  "counting key P S L st c \<longleftrightarrow> (\<forall>j \<in> P. \<exists>r. kv_data st (key j) = Some (KvResource r) \<and> res_start_idx r = S \<and>
     bm_Len (res_pool r) = L \<and> used (res_pool r) = {..<c j})"

lemma ask_counting:
  assumes "agree mgrs key" "m \<in> set mgrs" "\<forall>n. F n = KvOk" "inj_on key P"
    and "counting key P S L st c" "j \<in> P" "c j < L"
  shows "\<exists>st'. TechprofileRef_GetResourceID F m j ''ONU_ID'' 1 st = (Done ([of_nat (c j) + S], None), st') \<and>
     counting key P S L st' (c(j := Suc (c j)))"
proof -
  obtain prm where prm: "rm_PonRsrMgr m = Some prm" "mgr_ready prm" "pool_key prm j ''ONU_ID'' = key j"
    using assms(1,2) unfolding agree_def by blast
  obtain p where p: "GetPath prm j ''ONU_ID'' = Done p" "p \<noteq> []" "key j = full_key prm p"
    using GetPath_ready [OF prm(2), of "''ONU_ID''" j] prm(3) by (auto simp: resource_types_def)
  obtain r where r: "kv_data st (key j) = Some (KvResource r)" "res_start_idx r = S" "bm_Len (res_pool r) = L"
    "used (res_pool r) = {..<c j}" using assms(5,6) unfolding counting_def by blast
  obtain m' where g: "generate_ids 1 (Some r) = Done (([of_nat (c j) + S], None), Some (r\<lparr>res_pool := m'\<rparr>))"
    "length m' = length (res_pool r)" "used m' = {..<Suc (c j)}"
    using generate_fresh [OF r(4), of 1] r(2,3) assms(7) by auto
  let ?st = "st\<lparr>kv_ops := Suc (Suc (kv_ops st)), kv_data := (kv_data st)(key j \<mapsto> KvResource (r\<lparr>res_pool := m'\<rparr>))\<rparr>"
  have "TechprofileRef_GetResourceID F m j ''ONU_ID'' 1 st = (Done ([of_nat (c j) + S], None), ?st)"
    using prm(1) p r(1) g(1) assms(3)
    by (simp add: TechprofileRef_GetResourceID_def tp_GetResourceID_def GetResourceID_def GetResource_def
        UpdateResource_def kv_Put_def kv_write_def kv_Get_def kvm_defs Let_def)
  moreover have "counting key P S L ?st (c(j := Suc (c j)))"
    unfolding counting_def
  proof
    fix i assume i: "i \<in> P"
    show "\<exists>r. kv_data ?st (key i) = Some (KvResource r) \<and> res_start_idx r = S \<and> bm_Len (res_pool r) = L \<and>
      used (res_pool r) = {..<(c(j := Suc (c j))) i}"
    proof (cases "i = j")
      case True
      with g r show ?thesis by (simp add: bm_Len_def)
    next
      case False
      with assms(4,6) i have "key i \<noteq> key j" by (auto dest: inj_onD)
      with False assms(5) i show ?thesis by (auto simp: counting_def)
    qed
  qed
  ultimately show ?thesis by blast
qed

text \<open>A stretch of the loops that gives each port its next identifiers in order.\<close>

definition numbered :: "uint32 \<Rightarrow> (uint32 \<Rightarrow> nat) \<Rightarrow> uint32 list \<Rightarrow> spawned list \<Rightarrow> bool" where
  "numbered S c js ss \<longleftrightarrow> map sp_intfID ss = js \<and>
     (\<forall>j. map sp_onuID (filter (\<lambda>s. sp_intfID s = j) ss) = map (\<lambda>k. of_nat k + S) [c j..<c j + count_list js j])"

lemma numbered_append:
  assumes "numbered S c js ss" "numbered S (\<lambda>j. c j + count_list js j) js' ss'"
  shows "numbered S c (js @ js') (ss @ ss')"
proof -
  have "[a..<a + (b + d)] = [a..<a + b] @ [a + b..<a + b + d]" for a b d :: nat
    by (metis add.assoc le_add1 upt_add_eq_append)
  with assms show ?thesis by (simp add: numbered_def)
qed

lemma numbered_one:
  "sp_intfID s = j \<Longrightarrow> sp_onuID s = of_nat (c j) + S \<Longrightarrow> numbered S c [j] [s]"
  by (simp add: numbered_def)

definition pools_ready ::
  "(nat \<Rightarrow> kv_answer) \<Rightarrow> OpenOltResourceMgr list \<Rightarrow> (uint32 \<Rightarrow> string) \<Rightarrow> uint32 set \<Rightarrow> bool" where
  "pools_ready F mgrs key P \<longleftrightarrow> agree mgrs key \<and> (\<forall>n. F n = KvOk) \<and> inj_on key P"

lemma provision_one_counting:
  assumes ready: "pools_ready F mgrs key P"
    and "counting key P S L (store_at F mgrs st0 pv) c" "j \<in> P" "c j < L" "unat i < length mgrs"
    and "1000 \<le> unat (pv_vendorSpecificId pv)" "unat (pv_vendorSpecificId pv) + 1 < 2 ^ 63"
  shows "\<exists>s pv'. provision_one (store_pools F mgrs st0) mgrs i j pv = (Done (Some s), pv') \<and>
     numbered S c [j] [s] \<and> counting key P S L (store_at F mgrs st0 pv') (c(j := Suc (c j))) \<and>
     unat (pv_vendorSpecificId pv') = unat (pv_vendorSpecificId pv) + 1"
proof -
  let ?v = "pv_vendorSpecificId pv"
  have m: "mgrs ! unat i \<in> set mgrs" using assms(5) by simp
  obtain st' where a: "TechprofileRef_GetResourceID F (mgrs ! unat i) j ''ONU_ID'' 1 (store_at F mgrs st0 pv) =
      (Done ([of_nat (c j) + S], None), st')" "counting key P S L st' (c(j := Suc (c j)))"
    using ask_counting [of mgrs key _ F P] ready m assms(2-4) unfolding pools_ready_def by blast
  have "snd (GenerateNextONUSerialNumber ?v) = ?v + 1" by (simp add: GenerateNextONUSerialNumber_def Let_def)
  moreover have "unat (?v + 1) = unat ?v + 1" using assms(7) by (intro unat_Suc_word) simp
  ultimately show ?thesis
    using a assms(5) stringify_next [OF assms(6,7)]
    by (auto simp: provision_one_def store_pools_def store_at_def replay_snoc Let_def intro!: numbered_one)
qed

lemma provision_batch_counting:
  assumes ready: "pools_ready F mgrs key P"
    and "counting key P S L (store_at F mgrs st0 pv) c" "set js \<subseteq> P" "\<forall>j. c j + count_list js j \<le> L" "unat i < length mgrs"
    and "1000 \<le> unat (pv_vendorSpecificId pv)" "unat (pv_vendorSpecificId pv) + length js < 2 ^ 63"
  shows "\<exists>ss pv'. provision_batch (store_pools F mgrs st0) mgrs i js pv = (None, ss, pv') \<and>
     numbered S c js ss \<and> counting key P S L (store_at F mgrs st0 pv') (\<lambda>j. c j + count_list js j) \<and>
     unat (pv_vendorSpecificId pv') = unat (pv_vendorSpecificId pv) + length js"
  using assms(2-4,6,7)
proof (induction js arbitrary: pv c)
  case Nil
  then show ?case by (simp add: numbered_def)
next
  case (Cons j js)
  have "c j + count_list (j # js) j \<le> L" using Cons.prems(3) by blast
  then have l: "c j < L" by simp
  obtain s pv1 where 1: "provision_one (store_pools F mgrs st0) mgrs i j pv = (Done (Some s), pv1)" "numbered S c [j] [s]"
    "counting key P S L (store_at F mgrs st0 pv1) (c(j := Suc (c j)))" "unat (pv_vendorSpecificId pv1) = unat (pv_vendorSpecificId pv) + 1"
    using provision_one_counting [OF ready Cons.prems(1) _ l assms(5) Cons.prems(4)] Cons.prems(2,5) by auto
  have "\<forall>k. (c(j := Suc (c j))) k + count_list js k \<le> L" using Cons.prems(3) by (auto split: if_splits)
  from Cons.IH [OF 1(3) _ this] Cons.prems 1(4)
  obtain ss pv2 where 2: "provision_batch (store_pools F mgrs st0) mgrs i js pv1 = (None, ss, pv2)"
    "numbered S (c(j := Suc (c j))) js ss"
    "counting key P S L (store_at F mgrs st0 pv2) (\<lambda>k. (c(j := Suc (c j))) k + count_list js k)"
    "unat (pv_vendorSpecificId pv2) = unat (pv_vendorSpecificId pv1) + length js" by (auto simp: fun_upd_def)
  have c: "(\<lambda>k. c k + count_list [j] k) = c(j := Suc (c j))" "(\<lambda>k. (c(j := Suc (c j))) k + count_list js k) = (\<lambda>k. c k + count_list (j # js) k)"
    by auto
  from numbered_append [OF 1(2), of js ss] 2(2) have "numbered S c (j # js) (s # ss)" unfolding c(1) by simp
  with 1 2 show ?case unfolding c(2) by simp
qed

lemma provision_batches_counting:
  assumes ready: "pools_ready F mgrs key P"
    and "counting key P S L (store_at F mgrs st0 pv) c" "set ports \<subseteq> P" "\<forall>j. c j + n * count_list ports j \<le> L"
    and "i + n \<le> length mgrs" "i + n < 2 ^ 32"
    and "1000 \<le> unat (pv_vendorSpecificId pv)" "unat (pv_vendorSpecificId pv) + n * length ports < 2 ^ 63"
  shows "\<exists>sss pv'. provision_batches (store_pools F mgrs st0) mgrs ports i n pv = (None, sss, pv') \<and>
     length sss = n \<and> numbered S c (concat (replicate n ports)) (concat sss)"
  using assms(2-8)
proof (induction n arbitrary: i pv c)
  case 0
  then show ?case by (simp add: numbered_def)
next
  case (Suc n)
  have i: "unat (of_nat i :: uint32) = i" using Suc.prems(5) by (simp add: unsigned_of_nat take_bit_nat_eq_self)
  have "c j + count_list ports j \<le> L" for j
  proof -
    have "c j + Suc n * count_list ports j \<le> L" using Suc.prems(3) by blast
    then show ?thesis by simp
  qed
  then have "\<forall>j. c j + count_list ports j \<le> L" by blast
  from provision_batch_counting [OF ready Suc.prems(1,2) this, of "of_nat i"] i Suc.prems(4,6,7)
  obtain ss pv1 where 1: "provision_batch (store_pools F mgrs st0) mgrs (of_nat i) ports pv = (None, ss, pv1)"
    "numbered S c ports ss" "counting key P S L (store_at F mgrs st0 pv1) (\<lambda>j. c j + count_list ports j)"
    "unat (pv_vendorSpecificId pv1) = unat (pv_vendorSpecificId pv) + length ports" by auto
  have "\<forall>j. c j + count_list ports j + n * count_list ports j \<le> L" using Suc.prems(3) by (simp add: add.assoc)
  from Suc.IH [OF 1(3) Suc.prems(2) this, of "Suc i"] Suc.prems(4-7) 1(4)
  obtain sss pv2 where "provision_batches (store_pools F mgrs st0) mgrs ports (Suc i) n pv1 = (None, sss, pv2)"
    "length sss = n" "numbered S (\<lambda>j. c j + count_list ports j) (concat (replicate n ports)) (concat sss)" by auto
  with 1 numbered_append [OF 1(2)] show ?case by simp
qed

text \<open>A device whose ports are all in one range, with all pools, and with a pool of ONU IDs for each port.\<close>

definition single_range :: "DeviceInfo \<Rightarrow> DeviceResourceRanges \<Rightarrow> bool" where
  "single_range dev r \<longleftrightarrow> (\<forall>j < di_PonPorts dev. port_ranges dev j = [r]) \<and>
     ranges_complete (device_ranges r dev) \<and> rg_ONUIDShared (device_ranges r dev) = 0"

definition onu_key :: "DeviceInfo \<Rightarrow> DeviceResourceRanges \<Rightarrow> uint32 \<Rightarrow> string" where
  "onu_key dev r j = pool_key (range_manager ''ABCD'' dev r) j ''ONU_ID''"

lemma onu_key_apart:
  assumes "single_range dev r" "onu_key dev r j = pool_key (range_manager ''ABCD'' dev r) j' rt" "rt \<in> resource_types"
  shows "j = j'"
proof -
  have m: "mgr_ready (range_manager ''ABCD'' dev r)" by (simp add: range_manager_def new_manager_ready)
  have rt: "''ONU_ID'' \<in> resource_types" by (simp add: resource_types_def)
  from pool_key_inj [OF m m rt assms(3) refl refl assms(2) [unfolded onu_key_def]]
  have "''ONU_ID'' = rt" "pool_index (range_manager ''ABCD'' dev r) j ''ONU_ID'' = pool_index (range_manager ''ABCD'' dev r) j' rt"
    by blast+
  moreover have "pool_index (range_manager ''ABCD'' dev r) i ''ONU_ID'' = i" for i
    using assms(1) by (simp add: pool_index_def range_manager_def new_manager_ranges SharedIdxByType_def single_range_def)
  ultimately show ?thesis by metis
qed

lemma inj_onu_key: "single_range dev r \<Longrightarrow> inj_on (onu_key dev r) P"
  by (auto intro!: inj_onI simp: resource_types_def dest: onu_key_apart [where rt = "''ONU_ID''", unfolded onu_key_def [symmetric]])

definition new_onu_pool :: "DeviceInfo \<Rightarrow> DeviceResourceRanges \<Rightarrow> kv \<Rightarrow> uint32 \<Rightarrow> bool" where
  "new_onu_pool dev r st j \<longleftrightarrow>
     (\<exists>p. FormatResource j (rg_ONUIDStart (device_ranges r dev)) (rg_ONUIDEnd (device_ranges r dev)) [] = Done p \<and>
        kv_data st (onu_key dev r j) = Some (KvResource p))"

lemma new_managers_pools:
  assumes "\<forall>t. new_pon_ok D t" "\<forall>n. kv_answers D n = KvOk" "new_tp_ok D" "single_range dev r"
    and "healthy_store st" "distinct js" "\<forall>j \<in> set js. j < di_PonPorts dev" "\<forall>j \<in> set js. kv_data st (onu_key dev r j) = None"
  shows "\<exists>st'. new_managers D dev js st = (Done (Inr (map (\<lambda>j. Some (port_manager dev j)) js)), st') \<and>
     (\<forall>j \<in> set js. new_onu_pool dev r st' j) \<and> (\<forall>j. j \<notin> set js \<longrightarrow> kv_data st' (onu_key dev r j) = kv_data st (onu_key dev r j))"
  using assms(5-8)
proof (induction js arbitrary: st)
  case (Cons j js)
  have pr: "port_ranges dev j = [r]" "ranges_complete (device_ranges r dev)" using assms(4) Cons.prems(3) by (auto simp: single_range_def)
  obtain st1 where st1: "healthy_store st1" "NewResourceMgr D ''ABCD'' j dev st = (RmOk (port_manager dev j), st1)"
    "\<forall>k. k \<notin> pool_key (range_manager ''ABCD'' dev r) j ` resource_types \<longrightarrow> kv_data st1 k = kv_data st k"
    "new_onu_pool dev r st1 j"
    using NewResourceMgr_single [OF assms(1-3) Cons.prems(1) pr, of "''ABCD''"] Cons.prems(4) pr(1)
    unfolding new_onu_pool_def onu_key_def port_manager_def by auto
  have other: "kv_data st1 (onu_key dev r i) = kv_data st (onu_key dev r i)" if "i \<noteq> j" for i
    using st1(3) onu_key_apart [OF assms(4), of i j] that by blast
  have "\<forall>i \<in> set js. kv_data st1 (onu_key dev r i) = None"
  proof
    fix i assume i: "i \<in> set js"
    with Cons.prems(2) have "i \<noteq> j" by auto
    with other i Cons.prems(4) show "kv_data st1 (onu_key dev r i) = None" by simp
  qed
  with Cons.IH [OF st1(1)] Cons.prems(2,3) obtain st2 where st2:
    "new_managers D dev js st1 = (Done (Inr (map (\<lambda>j. Some (port_manager dev j)) js)), st2)"
    "\<forall>i \<in> set js. new_onu_pool dev r st2 i" "\<forall>i. i \<notin> set js \<longrightarrow> kv_data st2 (onu_key dev r i) = kv_data st1 (onu_key dev r i)"
    by auto
  have "new_onu_pool dev r st2 j" using st1(4) st2(3) Cons.prems(2) by (simp add: new_onu_pool_def)
  with st1(2) st2 other show ?case by simp
qed simp

lemma distinct_pon_indices: "distinct (pon_indices n)"
proof -
  have "unat n \<le> 2 ^ LENGTH(32)" using u32_bound [of n] by simp
  from distinct_counter [OF this, of 0] show ?thesis by (simp add: pon_indices_def)
qed

lemma set_pon_indices: "set (pon_indices n) = {j. j < n}"
proof
  show "set (pon_indices n) \<subseteq> {j. j < n}" by (auto dest: pon_index_less)
  have "j = of_nat (unat j) \<and> unat j \<in> set [0..<unat n]" if "j < n" for j using that by (simp add: word_less_nat_alt)
  then show "{j. j < n} \<subseteq> set (pon_indices n)" unfolding pon_indices_def set_map by blast
qed

lemma set_batch_ports: "set (batch_ports n bp) \<subseteq> {j. j < n}"
proof
  fix j assume "j \<in> set (batch_ports n bp)"
  then have "j \<in> set (pon_indices n)" by (auto simp: batch_ports_def pon_indices_def split: if_splits)
  then show "j \<in> {j. j < n}" by (simp add: pon_index_less)
qed

lemma agree_single:
  assumes "single_range dev r" "set js \<subseteq> {j. j < di_PonPorts dev}"
  shows "agree (map (port_manager dev) js) (onu_key dev r)"
  using assms
  by (auto simp: agree_def port_manager_def single_range_def onu_key_def range_manager_def new_manager_ready)

text \<open>The pools of a first start count from zero, and the plan fits into their bitmaps.\<close>

lemma new_pools_counting:
  assumes "\<forall>j \<in> P. new_onu_pool dev r st j"
  shows "counting (onu_key dev r) P (rg_ONUIDStart (device_ranges r dev))
     (8 * ((unat (rg_ONUIDEnd (device_ranges r dev)) + 7) div 8)) st (\<lambda>j. 0)"
  unfolding counting_def
proof
  fix j assume "j \<in> P"
  with assms obtain p where "FormatResource j (rg_ONUIDStart (device_ranges r dev)) (rg_ONUIDEnd (device_ranges r dev)) [] = Done p"
    "kv_data st (onu_key dev r j) = Some (KvResource p)" unfolding new_onu_pool_def by blast
  then show "\<exists>q. kv_data st (onu_key dev r j) = Some (KvResource q) \<and> res_start_idx q = rg_ONUIDStart (device_ranges r dev) \<and>
      bm_Len (res_pool q) = 8 * ((unat (rg_ONUIDEnd (device_ranges r dev)) + 7) div 8) \<and> used (res_pool q) = {..<0}"
    by (auto simp: FormatResource_def bm_Len_mult length_NewSlice)
qed

lemma plan_capacity:
  assumes "plan_batches numOfOnu n = Done (Planned bp)" "unat numOfOnu div unat n < 2 ^ 32" "unat (bp_perPon bp) \<le> L"
  shows "unat (bp_batches bp) * count_list (batch_ports n bp) j \<le> L"
proof (cases "j < n")
  case True
  with plan_bounds [OF assms(1,2)] assms(3) show ?thesis by (auto simp: word_less_nat_alt)
next
  case False
  then have "j \<notin> set (batch_ports n bp)" using set_batch_ports by auto
  then show ?thesis by (simp add: count_list_0_iff)
qed

lemma two_ports_single:
  "single_range two_ports (hd (di_Ranges two_ports))"
  "rg_ONUIDStart (device_ranges (hd (di_Ranges two_ports)) two_ports) = 1"
  "rg_ONUIDEnd (device_ranges (hd (di_Ranges two_ports)) two_ports) = 127"
proof -
  have n: "di_PonPorts two_ports = 2" and r: "di_Ranges two_ports = [hd (di_Ranges two_ports)]"
    by (simp_all add: two_ports_def)
  have "port_ranges two_ports j = [hd (di_Ranges two_ports)]" if "j < di_PonPorts two_ports" for j
    using two_ports_ranges(1) [of j] that unfolding n r [symmetric] .
  moreover have "ranges_complete (device_ranges (hd (di_Ranges two_ports)) two_ports)"
    "rg_ONUIDShared (device_ranges (hd (di_Ranges two_ports)) two_ports) = 0"
    by (simp_all add: two_ports_def device_ranges_def ranges_complete_def)
  ultimately show "single_range two_ports (hd (di_Ranges two_ports))" unfolding single_range_def by blast
  show "rg_ONUIDStart (device_ranges (hd (di_Ranges two_ports)) two_ports) = 1"
    "rg_ONUIDEnd (device_ranges (hd (di_Ranges two_ports)) two_ports) = 127"
    by (simp_all add: two_ports_def device_ranges_def)
qed

text \<open>A request touches the pool it is for; a manager whose pools have other keys is not affected.\<close>

lemma ask_local:
  assumes "rm_PonRsrMgr m = Some prm" "mgr_ready prm" "store_inv st" "k \<noteq> pool_key prm j ''ONU_ID''"
  shows "kv_data (snd (TechprofileRef_GetResourceID F m j ''ONU_ID'' 1 st)) k = kv_data st k \<and>
     store_inv (snd (TechprofileRef_GetResourceID F m j ''ONU_ID'' 1 st))"
proof -
  have rt: "''ONU_ID'' \<in> resource_types" by (simp add: resource_types_def)
  obtain ids err st' where "GetResourceID F prm j ''ONU_ID'' 1 st = (Done (ids, err), st')" "store_inv st'"
    "\<forall>k. k \<noteq> pool_key prm j ''ONU_ID'' \<longrightarrow> kv_data st' k = kv_data st k"
    using GetResourceID_step [OF assms(2) rt assms(3), of F j 1] by blast
  with assms(1,4) show ?thesis by (auto simp: TechprofileRef_GetResourceID_def tp_GetResourceID_def kvm_defs)
qed

lemma replay_local:
  assumes "rm_PonRsrMgr (mgrs ! unat i) = Some prm" "mgr_ready prm" "\<forall>j. pool_key prm j ''ONU_ID'' \<noteq> k"
    and "store_inv st" "list_all (\<lambda>call. fst call = i) calls"
  shows "kv_data (replay F mgrs calls st) k = kv_data st k"
  using assms(4,5)
proof (induction calls arbitrary: st)
  case (Cons call calls)
  obtain j where call: "call = (i, j)" using Cons.prems(2) by (cases call) simp
  have "k \<noteq> pool_key prm j ''ONU_ID''" using assms(3) by metis
  from ask_local [OF assms(1,2) Cons.prems(1) this, of F] Cons call show ?case by simp
qed simp

lemma ask_new:
  assumes "rm_PonRsrMgr m = Some prm" "mgr_ready prm" "\<forall>n. F n = KvOk"
    and "kv_data st (pool_key prm j ''ONU_ID'') = Some (KvResource r)" "used (res_pool r) = {}" "res_pool r \<noteq> []"
  shows "fst (TechprofileRef_GetResourceID F m j ''ONU_ID'' 1 st) = Done ([res_start_idx r], None)"
proof -
  let ?key = "\<lambda>j. pool_key prm j ''ONU_ID''"
  have "agree [m] ?key" using assms(1,2) by (simp add: agree_def)
  moreover have "counting ?key {j} (res_start_idx r) (bm_Len (res_pool r)) st (\<lambda>j. 0)"
    using assms(4,5) by (simp add: counting_def)
  moreover have "0 < bm_Len (res_pool r)" using assms(6) by (simp add: bm_Len_def)
  ultimately show ?thesis
    using ask_counting [of "[m]" ?key m F "{j}" "res_start_idx r" "bm_Len (res_pool r)" st "\<lambda>j. 0" j] assms(3) by auto
qed

section \<open>Properties\<close>

text \<open>
  C20: when the managers of all ports keep the pool of a port under one key, as they do on a device of one technology, no two ONUs that
  are ever activated have the same PON port and ONU ID, whatever the store held before, whichever of its operations
  fail, and also when the provisioning ends in a panic.
\<close>

theorem onu_ids_distinct:
  assumes "agree mgrs key" and "store_inv st"
  shows "distinct (map (\<lambda>s. (sp_intfID s, sp_onuID s))
     (spawned_by (provisionONUs (store_pools F mgrs st) cfg dev mgrs vendorId)))"
proof (cases "plan_batches (NumOfOnu cfg) (di_PonPorts dev)")
  case (Done r)
  show ?thesis
  proof (cases r)
    case (Planned bp)
    let ?pv = "\<lparr>pv_vendorSpecificId = vendorId, pv_calls = []\<rparr>"
    obtain p sss pv' where r: "provision_batches (store_pools F mgrs st) mgrs (batch_ports (di_PonPorts dev) bp) 0
        (unat (bp_batches bp)) ?pv = (p, sss, pv')"
      by (cases "provision_batches (store_pools F mgrs st) mgrs (batch_ports (di_PonPorts dev) bp) 0 (unat (bp_batches bp)) ?pv") auto
    have "store_inv (store_at F mgrs st ?pv)" using assms(2) by (simp add: store_at_def)
    from provision_batches_fresh [OF assms(1) this r] Planned Done r show ?thesis
      by (cases p) (simp_all add: provisionONUs_def fresh_ids_def)
  qed (use Done in \<open>simp add: provisionONUs_def\<close>)
qed (simp add: provisionONUs_def)

theorem onu_ids_distinct_witness:
  "distinct (map (\<lambda>s. (sp_intfID s, sp_onuID s))
     (spawned_by (provisionONUs (store_pools (\<lambda>n. if n = 5 then KvFails (ErrorString ''timeout'') True else KvOk)
        (map (port_manager two_ports) [0, 1]) empty_kv) (sample_config ''ATT'') two_ports
        (map (port_manager two_ports) [0, 1]) vendorSpecificId_init)))"
proof (rule onu_ids_distinct [where key = "onu_key two_ports (hd (di_Ranges two_ports))"])
  let ?r = "hd (di_Ranges two_ports)"
  show "agree (map (port_manager two_ports) [0, 1]) (onu_key two_ports ?r)"
    by (rule agree_single [OF two_ports_single(1)]) (simp add: two_ports_def word_less_nat_alt)
  show "store_inv empty_kv" by (simp add: store_inv_def empty_kv_def)
qed

text \<open>
  C28: a start on a store without pools, followed by the provisioning: when the device has one complete range with a
  dedicated pool of ONU IDs per port, there are no more batches than ports and the range's bitmap has a bit for each planned ONU of a
  port, then every planned ONU is activated, and the ONUs of each port get the IDs \<open>start\<close>, \<open>start + 1\<close>, ... in the order
  of the batches.
\<close>

theorem fresh_start_onu_ids:
  assumes "single_range dev r" and "plan_batches (NumOfOnu cfg) (di_PonPorts dev) = Done (Planned bp)"
    and "unat (NumOfOnu cfg) \<le> 2 ^ 62" "unat (NumOfOnu cfg) div unat (di_PonPorts dev) < 2 ^ 32"
    and "unat (bp_batches bp) \<le> unat (di_PonPorts dev)"
    and "unat (bp_perPon bp) \<le> 8 * ((unat (rg_ONUIDEnd (device_ranges r dev)) + 7) div 8)"
    and "\<forall>t. new_pon_ok D t" "\<forall>n. kv_answers D n = KvOk" "new_tp_ok D"
    and "healthy_store st" "\<forall>j. kv_data st (onu_key dev r j) = None"
  shows "\<exists>ms st' sss. new_managers D dev (pon_indices (di_PonPorts dev)) st = (Done (Inr (map Some ms)), st') \<and>
     provisionONUs (store_pools (kv_answers D) ms st') cfg dev ms vendorSpecificId_init = AllBatches sss \<and>
     length sss = unat (bp_batches bp) \<and>
     (\<forall>j < di_PonPorts dev. map sp_onuID (filter (\<lambda>s. sp_intfID s = j) (concat sss)) =
        map (\<lambda>k. of_nat k + rg_ONUIDStart (device_ranges r dev)) [0..<unat (bp_batches bp) * unat (bp_perBatch bp)])"
proof -
  let ?n = "di_PonPorts dev" and ?ports = "batch_ports (di_PonPorts dev) bp"
  let ?js = "pon_indices ?n" and ?S = "rg_ONUIDStart (device_ranges r dev)"
  let ?L = "8 * ((unat (rg_ONUIDEnd (device_ranges r dev)) + 7) div 8)"
  let ?ms = "map (port_manager dev) ?js" and ?k = "unat (bp_batches bp)"
  note js = distinct_pon_indices [of ?n] set_pon_indices [of ?n]
  obtain st' where st': "new_managers D dev ?js st = (Done (Inr (map Some ?ms)), st')" "\<forall>j \<in> set ?js. new_onu_pool dev r st' j"
    using new_managers_pools [OF assms(7-9,1,10) js(1)] js(2) assms(11) by (auto simp: comp_def)
  let ?pv = "\<lparr>pv_vendorSpecificId = vendorSpecificId_init, pv_calls = []\<rparr>"
  have count: "counting (onu_key dev r) {j. j < ?n} ?S ?L (store_at (kv_answers D) ?ms st' ?pv) (\<lambda>j. 0)"
    unfolding store_at_def using new_pools_counting st'(2) js(2) by simp
  note b = plan_bounds [OF assms(2,4)] and n = plan_batches_nat [OF assms(2,4)]
  have cap: "\<forall>j. 0 + ?k * count_list ?ports j \<le> ?L" using plan_capacity [OF assms(2,4,6)] by simp
  have total: "?k * length ?ports \<le> 2 ^ 62"
  proof -
    have "unat (bp_total bp) \<le> unat (NumOfOnu cfg)" unfolding n(2) by simp
    with b assms(3) show ?thesis by linarith
  qed
  have ready: "pools_ready (kv_answers D) ?ms (onu_key dev r) {j. j < ?n}"
    using agree_single [OF assms(1), of ?js] js(2) assms(8) inj_onu_key [OF assms(1)] by (auto simp: pools_ready_def)
  obtain sss pv' where r: "provision_batches (store_pools (kv_answers D) ?ms st') ?ms ?ports 0 ?k ?pv = (None, sss, pv')"
    "length sss = ?k" "numbered ?S (\<lambda>j. 0) (concat (replicate ?k ?ports)) (concat sss)"
    using provision_batches_counting [OF ready count set_batch_ports cap, of 0] assms(5) total
      u32_bound [of "bp_batches bp"] by (auto simp: vendorSpecificId_init_def)
  have c: "count_list (concat (replicate k xs)) x = k * count_list xs x" for k x and xs :: "uint32 list"
    by (induction k) simp_all
  have "map sp_onuID (filter (\<lambda>s. sp_intfID s = j) (concat sss)) = map (\<lambda>k. of_nat k + ?S) [0..<?k * unat (bp_perBatch bp)]"
    if "j < ?n" for j
    using r(3) b that by (simp add: numbered_def c word_less_nat_alt)
  with st'(1) r assms(2) show ?thesis by (intro exI [of _ ?ms]) (auto simp: provisionONUs_def)
qed

theorem fresh_start_onu_ids_witness:
  "\<exists>ms st' sss.
     new_managers \<lparr>new_pon_ok = \<lambda>t. True, kv_answers = \<lambda>n. KvOk, new_tp_ok = True\<rparr> two_ports (pon_indices 2) empty_kv =
       (Done (Inr (map Some ms)), st') \<and>
     provisionONUs (store_pools (\<lambda>n. KvOk) ms st') (sample_config ''ATT''\<lparr>NumOfOnu := 16\<rparr>) two_ports ms
       vendorSpecificId_init = AllBatches sss \<and>
     map sp_onuID (filter (\<lambda>s. sp_intfID s = 1) (concat sss)) = [1, 2, 3, 4, 5, 6, 7, 8]"
proof -
  have plan: "plan_batches 16 2 = Done (Planned \<lparr>bp_perPon = 8, bp_total = 16, bp_perBatch = 4, bp_batches = 2\<rparr>)"
    by (simp add: plan_batches_def isPowerOfTwo_def uint_of_uint32_def uint32_of_uint_def halve_batch_4)
  have n: "di_PonPorts two_ports = 2" by (simp add: two_ports_def)
  let ?D = "\<lparr>new_pon_ok = \<lambda>t. True, kv_answers = \<lambda>n. KvOk, new_tp_ok = True\<rparr>"
  obtain ms st' sss where f: "new_managers ?D two_ports (pon_indices 2) empty_kv = (Done (Inr (map Some ms)), st')"
    "provisionONUs (store_pools (\<lambda>n. KvOk) ms st') (sample_config ''ATT''\<lparr>NumOfOnu := 16\<rparr>) two_ports ms
       vendorSpecificId_init = AllBatches sss"
    "\<forall>j < 2. map sp_onuID (filter (\<lambda>s. sp_intfID s = j) (concat sss)) = map (\<lambda>k. of_nat k + 1) [0..<8]"
    using fresh_start_onu_ids [OF two_ports_single(1), of "sample_config ''ATT''\<lparr>NumOfOnu := 16\<rparr>"
        "\<lparr>bp_perPon = 8, bp_total = 16, bp_perBatch = 4, bp_batches = 2\<rparr>" ?D empty_kv] two_ports_single(2,3) n plan healthy_empty
    by (auto simp: empty_kv_def)
  have "map (\<lambda>k. of_nat k + 1) [0..<8] = [1, 2, 3, 4, 5, 6, 7, 8 :: uint32]" by (simp add: upt_rec)
  with f(3) have ids: "map sp_onuID (filter (\<lambda>s. sp_intfID s = 1) (concat sss)) = [1, 2, 3, 4, 5, 6, 7, 8]" by simp
  show ?thesis by (intro exI conjI) (fact f(1), fact f(2), fact ids)
qed

text \<open>
  C34: the manager is the one at the index of the batch. When two managers keep the pool of a port under different keys, as for
  ports of different technologies (with a pool of ONU IDs shared by the interfaces, so that each has one for the port), the second hands out what the first has handed out:
  after any calls by the first, an ONU of the same port gets the same ONU ID again.
\<close>

theorem technologies_collide:
  assumes "rm_PonRsrMgr (mgrs ! unat i) = Some p" "rm_PonRsrMgr (mgrs ! unat i') = Some p'" "mgr_ready p" "mgr_ready p'"
    and "\<forall>j'. pool_key p j' ''ONU_ID'' \<noteq> pool_key p' j ''ONU_ID''" "\<forall>n. F n = KvOk" "store_inv st"
    and "kv_data st (pool_key p j ''ONU_ID'') = Some (KvResource r)" "used (res_pool r) = {}" "res_pool r \<noteq> []"
    and "kv_data st (pool_key p' j ''ONU_ID'') = Some (KvResource r')" "used (res_pool r') = {}" "res_pool r' \<noteq> []"
    and "res_start_idx r = res_start_idx r'" "list_all (\<lambda>call. fst call = i) calls"
  shows "store_pools F mgrs st [] i j = Done ([res_start_idx r], None) \<and>
     store_pools F mgrs st ((i, j) # calls) i' j = Done ([res_start_idx r], None)"
proof -
  have "kv_data (replay F mgrs ((i, j) # calls) st) (pool_key p' j ''ONU_ID'') = Some (KvResource r')"
    using replay_local [OF assms(1,3,5,7), of "(i, j) # calls" F] assms(11,15) by simp
  from ask_new [OF assms(2,4,6) this assms(12,13)] ask_new [OF assms(1,3,6,8-10)] assms(14)
  show ?thesis by (simp add: store_pools_def)
qed

text \<open>Two ports of different technologies, with new pools.\<close>

definition mixed_manager :: "string \<Rightarrow> OpenOltResourceMgr" where
  "mixed_manager t = \<lparr>rm_deviceInfo = two_ports, rm_intfID = 0, rm_PonRsrMgr = Some (new_manager t ''ABCD''
     ((device_ranges (hd (di_Ranges two_ports)) two_ports)\<lparr>rg_ONUIDShared := 1\<rparr>))\<rparr>"

definition mixed_key :: "string \<Rightarrow> string" where
  "mixed_key t = ''service/voltha/resource_manager/{'' @ t @ ''}/{ABCD}/onu_id_pool/{1}''"

definition mixed_kv :: kv where
  "mixed_kv =
     (let pool = \<lparr>res_pon_intf_id = 0, res_start_idx = 1, res_end_idx = 8, res_pool = [0]\<rparr>
      in \<lparr>kv_data = [mixed_key ''GPON'' \<mapsto> KvResource pool, mixed_key ''XGS-PON'' \<mapsto> KvResource pool], kv_ops = 0\<rparr>)"

theorem technologies_collide_witness:
  "store_pools (\<lambda>n. KvOk) [mixed_manager ''GPON'', mixed_manager ''XGS-PON''] mixed_kv [] 0 0 = Done ([1], None) \<and>
   store_pools (\<lambda>n. KvOk) [mixed_manager ''GPON'', mixed_manager ''XGS-PON''] mixed_kv [(0, 0), (0, 1)] 1 0 = Done ([1], None)"
proof -
  let ?g = "(device_ranges (hd (di_Ranges two_ports)) two_ports)\<lparr>rg_ONUIDShared := 1\<rparr>"
  let ?r = "\<lparr>res_pon_intf_id = 0, res_start_idx = 1, res_end_idx = 8, res_pool = [0]\<rparr> :: IdResource"
  have one: "FormatUint (Suc 0) = ''1''" by code_simp
  have k: "pool_key (new_manager t ''ABCD'' ?g) j ''ONU_ID'' = mixed_key t" for t j
    by (simp add: pool_key_string new_manager_ready resource_types_def pool_index_def new_manager_ranges SharedIdxByType_def
        pool_name_def mixed_key_def one)
  let ?ms = "[mixed_manager ''GPON'', mixed_manager ''XGS-PON'']"
  have "used [0] = {}" using used_zero [of 1] by simp
  then have u: "used (res_pool ?r) = {}" "res_pool ?r \<noteq> []" by simp_all
  have m: "rm_PonRsrMgr (?ms ! unat (0 :: uint32)) = Some (new_manager ''GPON'' ''ABCD'' ?g)"
    "rm_PonRsrMgr (?ms ! unat (1 :: uint32)) = Some (new_manager ''XGS-PON'' ''ABCD'' ?g)"
    by (simp_all add: mixed_manager_def)
  have apart: "\<forall>j'. pool_key (new_manager ''GPON'' ''ABCD'' ?g) j' ''ONU_ID'' \<noteq> pool_key (new_manager ''XGS-PON'' ''ABCD'' ?g) 0 ''ONU_ID''"
    by (simp add: k mixed_key_def)
  have inv: "store_inv mixed_kv" by (simp add: store_inv_def mixed_kv_def Let_def pool_inv_def bm_Len_def)
  have d: "kv_data mixed_kv (pool_key (new_manager ''GPON'' ''ABCD'' ?g) 0 ''ONU_ID'') = Some (KvResource ?r)"
    "kv_data mixed_kv (pool_key (new_manager ''XGS-PON'' ''ABCD'' ?g) 0 ''ONU_ID'') = Some (KvResource ?r)"
    by (simp_all add: k mixed_kv_def Let_def mixed_key_def)
  from technologies_collide [OF m new_manager_ready new_manager_ready apart _ inv d(1) u d(2) u refl, of "\<lambda>n. KvOk" "[(0, 1)]"]
  show ?thesis by simp
qed

end
