(* ===== verification/Tp_Instance.thy ===== *)
theory Tp_Instance
  imports Onu_Ids
begin

text \<open>
  The creation of technology profile instances in voltha-lib-go (vendored, \<open>pkg/techprofile\<close>): a manager reads the
  template of a profile from the key-value store or falls back to a default, takes an alloc ID and GEM ports from
  the pools of its PON resource manager, builds the instance, caches it and records its resources in the store.
  Modelled for GPON, XGPON and XGS-PON; an EPON manager returns another type of instance, which the program does
  not use.

  The lemmas say what the parts of a creation do for any answers of the store; \<open>create_step\<close> sums them up.
\<close>

section \<open>State\<close>

record TechProfileMgr =
  tm_resourceMgr :: PONResourceManager
  tm_tpInstanceMap :: "string \<rightharpoonup> TechProfileInstance"
  tm_tpMap :: "uint32 \<rightharpoonup> TechProfile"

text \<open>A call ends with the values it returns, or ends the process through a fatal log entry.\<close>

datatype tp_end = TpReturns "TechProfileInstance option \<times> go_error option" | TpExits

section \<open>Names and paths\<close>

text \<open>
  The regular expression \<open>^olt-\{[a-z0-9\-]+\}/pon-\{[0-9]+\}/onu-\{[0-9]+\}/uni-\{[0-9]+\}$\<close>: no character class contains the
  brace that ends it, so it is matched from left to right.
\<close>

fun strip :: "string \<Rightarrow> string \<Rightarrow> string option" where
  "strip [] s = Some s"
| "strip (c # cs) [] = None"
| "strip (c # cs) (d # ds) = (if c = d then strip cs ds else None)"

definition is_digit :: "char \<Rightarrow> bool" where
  "is_digit c \<longleftrightarrow> digit_val c \<noteq> None"

definition is_olt_char :: "char \<Rightarrow> bool" where
  "is_olt_char c \<longleftrightarrow> c \<in> set ''abcdefghijklmnopqrstuvwxyz'' \<or> is_digit c \<or> c = CHR ''-''"

definition is_tech_char :: "char \<Rightarrow> bool" where
  "is_tech_char c \<longleftrightarrow>
     c \<in> set ''abcdefghijklmnopqrstuvwxyz'' \<or> c \<in> set ''ABCDEFGHIJKLMNOPQRSTUVWXYZ'' \<or> c = CHR ''-''"

text \<open>A literal, then one or more characters of a class; the rest of the string.\<close>

definition field :: "string \<Rightarrow> (char \<Rightarrow> bool) \<Rightarrow> string option \<Rightarrow> string option" where
  "field lit cls s =
     (case Option.bind s (strip lit) of
        None \<Rightarrow> None
      | Some r \<Rightarrow> if takeWhile cls r = [] then None else Some (dropWhile cls r))"

definition olt_to_uni :: "string option \<Rightarrow> bool" where
  "olt_to_uni s \<longleftrightarrow>
     field ''}/uni-{'' is_digit (field ''}/onu-{'' is_digit (field ''}/pon-{'' is_digit
       (field ''olt-{'' is_olt_char s))) = Some ''}''"

definition uniPortNameFormatRegexp :: "string \<Rightarrow> bool" where
  "uniPortNameFormatRegexp s \<longleftrightarrow> olt_to_uni (Some s)"

text \<open>\<open>^[a-zA-Z\-]+/[0-9]+/olt-...$\<close>, the format of the keys of the cache.\<close>

definition keySuffixFormatRegexp :: "string \<Rightarrow> bool" where
  "keySuffixFormatRegexp s \<longleftrightarrow>
     olt_to_uni (Option.bind (field ''/'' is_digit (field [] is_tech_char (Some s))) (strip ''/''))"

definition GetTechProfileInstanceKey :: "TechProfileMgr \<Rightarrow> uint32 \<Rightarrow> string \<Rightarrow> string" where
  "GetTechProfileInstanceKey t tpID uniPortName =
     pr_Technology (tm_resourceMgr t) @ ''/'' @ FormatUint (unat tpID) @ ''/'' @ uniPortName"

text \<open>\<open>regexp.MustCompile("/uni-\{[0-9]+\}$").Split(path, 2)[0]\<close>: the path without that suffix, or the whole path.\<close>

definition uniPathSlice :: "string \<Rightarrow> string" where
  "uniPathSlice path =
     (case rev path of
        [] \<Rightarrow> path
      | c # r \<Rightarrow>
          if c = CHR ''}'' \<and> takeWhile is_digit r \<noteq> []
          then (case strip (rev ''/uni-{'') (dropWhile is_digit r) of Some r' \<Rightarrow> rev r' | None \<Rightarrow> path)
          else path)"

definition uni_key :: "string \<Rightarrow> nat \<Rightarrow> string" where
  "uni_key prefix i = prefix @ ''/uni-{'' @ FormatUint i @ ''}''"

text \<open>The search over the first 16 UNIs.\<close>

fun find_instance :: "TechProfileMgr \<Rightarrow> string \<Rightarrow> nat list \<Rightarrow> TechProfileInstance option" where
  "find_instance t prefix [] = None"
| "find_instance t prefix (i # is) =
     (case tm_tpInstanceMap t (uni_key prefix i) of
        Some tpInst \<Rightarrow> Some tpInst
      | None \<Rightarrow> find_instance t prefix is)"

definition MaxUniPortPerOnu :: nat where "MaxUniPortPerOnu = 16"

definition getSingleInstanceTp :: "TechProfileMgr \<Rightarrow> string \<Rightarrow> TechProfileInstance option" where
  "getSingleInstanceTp t tpPathSuffix = find_instance t (uniPathSlice tpPathSuffix) [0..<MaxUniPortPerOnu]"

section \<open>Templates\<close>

definition default_gem :: "bool \<Rightarrow> string \<Rightarrow> GemPortAttributes" where
  "default_gem downstream pbit =
     \<lparr>gp_GemportId = 0, gp_MaxQSize = ''auto'', gp_PbitMap = pbit, gp_AesEncryption = ''True'',
      gp_SchedulingPolicy = WRR, gp_PriorityQ = 0, gp_Weight = 0, gp_DiscardPolicy = TailDrop,
      gp_DiscardConfig = Some \<lparr>rd_MinThreshold = 0, rd_MaxThreshold = 0, rd_MaxProbability = 0\<rparr>,
      gp_IsMulticast = (if downstream then ''False'' else []),
      gp_MulticastGemId = (if downstream then 4069 else 0),
      gp_DynamicAccessControlList = (if downstream then ''224.0.0.0-239.255.255.255'' else []),
      gp_StaticAccessControlList = (if downstream then ''224.0.0.0-239.255.255.255'' else [])\<rparr>"

definition DefaultPbits :: "string list" where "DefaultPbits = [''0b11111111'']"

definition getDefaultTechProfile :: "TechProfileMgr \<Rightarrow> TechProfile" where
  "getDefaultTechProfile t =
     (let sched = (\<lambda>d. \<lparr>sa_Direction = d, sa_AllocId = 0, sa_AdditionalBw = AdditionalBW_BestEffort,
                        sa_Priority = 0, sa_Weight = 0, sa_QSchedPolicy = Hybrid\<rparr>)
      in \<lparr>tpl_Name = ''Default_1tcont_1gem_Profile'', tpl_Version = 1,
          tpl_ProfileType = pr_Technology (tm_resourceMgr t), tpl_NumGemPorts = of_nat (length DefaultPbits),
          tpl_InstanceControl = Some \<lparr>ic_Onu = ''multi-instance'', ic_Uni = ''single-instance'',
            ic_MaxGemPayloadSize = ''auto''\<rparr>,
          tpl_UsScheduler = Some (sched UPSTREAM), tpl_DsScheduler = Some (sched DOWNSTREAM),
          tpl_UpstreamGemPortAttributeList = map (default_gem False) DefaultPbits,
          tpl_DownstreamGemPortAttributeList = map (default_gem True) DefaultPbits\<rparr>)"

definition tp_kv_key :: "TechProfileMgr \<Rightarrow> uint32 \<Rightarrow> string" where
  "tp_kv_key t tpID = ''service/voltha/technology_profiles/'' @ pr_Technology (tm_resourceMgr t) @ ''/'' @
     FormatUint (unat tpID)"

text \<open>
  \<open>None\<close> is a nil pointer: an error of the store, no value, or a value that is no profile. The JSON text \<open>null\<close> is
  a profile with no field set.
\<close>

definition TechProfile_zero :: TechProfile where
  "TechProfile_zero =
     \<lparr>tpl_Name = [], tpl_Version = 0, tpl_ProfileType = [], tpl_NumGemPorts = 0, tpl_InstanceControl = None,
      tpl_UsScheduler = None, tpl_DsScheduler = None, tpl_UpstreamGemPortAttributeList = [],
      tpl_DownstreamGemPortAttributeList = []\<rparr>"

definition getTPFromKVStore ::
  "(nat \<Rightarrow> kv_answer) \<Rightarrow> TechProfileMgr \<Rightarrow> uint32 \<Rightarrow> TechProfile option kvm" where
  "getTPFromKVStore F t tpID =
     (case tm_tpMap t tpID of
        Some tp \<Rightarrow> kret (Some tp)
      | None \<Rightarrow>
          kbind (kv_Get F (tp_kv_key t tpID)) (\<lambda>(kvresult, err).
          kret (case (kvresult, err) of
                  (_, Some e) \<Rightarrow> None
                | (Some (KvProfile lTp), None) \<Rightarrow> Some lTp
                | (Some KvNull, None) \<Rightarrow> Some TechProfile_zero
                | _ \<Rightarrow> None)))"

definition validateInstanceControlAttr :: "InstanceControl \<Rightarrow> go_error option" where
  "validateInstanceControlAttr instCtl =
     (if ic_Onu instCtl \<noteq> ''single-instance'' \<and> ic_Onu instCtl \<noteq> ''multi-instance''
      then Some (ErrorString ''invalid-onu-instance-ctl-attr'')
      else if ic_Uni instCtl \<noteq> ''single-instance'' \<and> ic_Uni instCtl \<noteq> ''multi-instance''
      then Some (ErrorString ''invalid-uni-instance-ctl-attr'')
      else if ic_Uni instCtl = ''multi-instance'' then Some (ErrorString ''uni-multi-instance-tp-not-supported'')
      else None)"

text \<open>The template that is used: a profile without instance control is dereferenced all the same.\<close>

definition chosen_template ::
  "(nat \<Rightarrow> kv_answer) \<Rightarrow> TechProfileMgr \<Rightarrow> uint32 \<Rightarrow> TechProfile kvm" where
  "chosen_template F t tpID =
     kbind (getTPFromKVStore F t tpID) (\<lambda>r.
     klift (case r of
              None \<Rightarrow> Done (getDefaultTechProfile t)
            | Some tp \<Rightarrow>
                (case tpl_InstanceControl tp of
                   None \<Rightarrow> Crashed NilDereference
                 | Some ctl \<Rightarrow>
                     Done (if validateInstanceControlAttr ctl \<noteq> None then getDefaultTechProfile t else tp))))"

section \<open>Building an instance\<close>

text \<open>Attributes with an identifier: a loop over \<open>NumGemPorts\<close> indices into both lists.\<close>

definition numbered_gem :: "GemPortAttributes \<Rightarrow> uint32 \<Rightarrow> GemPortAttributes" where
  "numbered_gem a gemID =
     a\<lparr>gp_GemportId := gemID, gp_IsMulticast := [], gp_MulticastGemId := 0,
       gp_DynamicAccessControlList := [], gp_StaticAccessControlList := []\<rparr>"

fun number_gems :: "nat \<Rightarrow> GemPortAttributes list \<Rightarrow> uint32 list \<Rightarrow> GemPortAttributes list outcome" where
  "number_gems 0 as gs = Done []"
| "number_gems (Suc n) (a # as) (g # gs) =
     (case number_gems n as gs of Crashed p \<Rightarrow> Crashed p | Done rest \<Rightarrow> Done (numbered_gem a g # rest))"
| "number_gems (Suc n) as gs = Crashed IndexOutOfRange"

definition multicast_gem :: "GemPortAttributes \<Rightarrow> GemPortAttributes" where
  "multicast_gem a = a\<lparr>gp_GemportId := 0\<rparr>"

definition build_instance ::
  "string \<Rightarrow> TechProfile \<Rightarrow> uint32 \<Rightarrow> uint32 list \<Rightarrow> TechProfileInstance outcome" where
  "build_instance uniPortName tp tcontID gemPorts =
     (let n = unat (tpl_NumGemPorts tp)
      in case number_gems n (tpl_UpstreamGemPortAttributeList tp) gemPorts of
        Crashed p \<Rightarrow> Crashed p
      | Done usGems \<Rightarrow>
          (let mcast = filter (\<lambda>a. isMulticastGem (gp_IsMulticast a)) (tpl_DownstreamGemPortAttributeList tp);
               ucast = filter (\<lambda>a. \<not> isMulticastGem (gp_IsMulticast a)) (tpl_DownstreamGemPortAttributeList tp)
           in case (if ucast = [] then Done [] else number_gems n ucast gemPorts) of
                Crashed p \<Rightarrow> Crashed p
              | Done dsGems \<Rightarrow>
                  (case (tpl_UsScheduler tp, tpl_DsScheduler tp) of
                     (Some us, Some ds) \<Rightarrow>
                       Done \<lparr>tp_Name = tpl_Name tp, tp_Version = tpl_Version tp,
                             tp_SubscriberIdentifier = uniPortName, tp_ProfileType = tpl_ProfileType tp,
                             tp_NumGemPorts = tpl_NumGemPorts tp, tp_InstanceControl = tpl_InstanceControl tp,
                             tp_UsScheduler = Some (us\<lparr>sa_AllocId := tcontID\<rparr>),
                             tp_DsScheduler = Some (ds\<lparr>sa_AllocId := tcontID\<rparr>),
                             tp_UpstreamGemPortAttributeList = usGems,
                             tp_DownstreamGemPortAttributeList = dsGems @ map multicast_gem mcast\<rparr>
                   | _ \<Rightarrow> Crashed NilDereference)))"

text \<open>The alloc ID: a new one, or that of another UNI's instance; \<open>None\<close> when the pool has none.\<close>

definition tcont_ids ::
  "(nat \<Rightarrow> kv_answer) \<Rightarrow> TechProfileMgr \<Rightarrow> TechProfile \<Rightarrow> uint32 \<Rightarrow> string \<Rightarrow> uint32 list option kvm" where
  "tcont_ids F t tp intfID tpInstPathSuffix =
     (let new = kbind (tp_GetResourceID F (tm_resourceMgr t) intfID ''ALLOC_ID'' 1) (\<lambda>(ids, err).
                  kret (if err \<noteq> None then None else Some ids))
      in case tpl_InstanceControl tp of
           None \<Rightarrow> klift (Crashed NilDereference)
         | Some ctl \<Rightarrow>
             if ic_Onu ctl = ''multi-instance'' then new
             else
               (case getSingleInstanceTp t tpInstPathSuffix of
                  None \<Rightarrow> new
                | Some tpInst \<Rightarrow>
                    klift (case tp_UsScheduler tpInst of
                             None \<Rightarrow> Crashed NilDereference | Some us \<Rightarrow> Done (Some [sa_AllocId us]))))"

definition allocateTPInstance ::
  "(nat \<Rightarrow> kv_answer) \<Rightarrow> TechProfileMgr \<Rightarrow> string \<Rightarrow> TechProfile \<Rightarrow> uint32 \<Rightarrow> string \<Rightarrow>
   TechProfileInstance option kvm" where
  "allocateTPInstance F t uniPortName tp intfID tpInstPathSuffix =
     kbind (tcont_ids F t tp intfID tpInstPathSuffix) (\<lambda>tcontIDs.
     case tcontIDs of
       None \<Rightarrow> kret None
     | Some tconts \<Rightarrow>
         kbind (tp_GetResourceID F (tm_resourceMgr t) intfID ''GEMPORT_ID'' (tpl_NumGemPorts tp)) (\<lambda>(gemPorts, err).
         if err \<noteq> None then kret None
         else
           (case tconts of
              [] \<Rightarrow> klift (Crashed IndexOutOfRange)
            | tcontID # _ \<Rightarrow>
                kbind (klift (build_instance uniPortName tp tcontID gemPorts)) (\<lambda>inst. kret (Some inst)))))"

text \<open>The resources of an instance, and the record of them in the store.\<close>

definition res_inst :: "uint32 \<Rightarrow> TechProfileInstance \<Rightarrow> ResourceInstance" where
  "res_inst tpID inst =
     \<lparr>ri_TpId = tpID, ri_ProfileType = tp_ProfileType inst,
      ri_SubscriberIdentifier = tp_SubscriberIdentifier inst,
      ri_AllocId = (case tp_UsScheduler inst of Some us \<Rightarrow> sa_AllocId us | None \<Rightarrow> 0),
      ri_GemportIds = map gp_GemportId (tp_UpstreamGemPortAttributeList inst)\<rparr>"

definition resource_instance_key :: "string \<Rightarrow> string" where
  "resource_instance_key path = ''service/voltha/resource_instances/'' @ path"

definition addResourceInstanceToKVStore ::
  "(nat \<Rightarrow> kv_answer) \<Rightarrow> TechProfileMgr \<Rightarrow> uint32 \<Rightarrow> string \<Rightarrow> ResourceInstance \<Rightarrow> go_error option kvm" where
  "addResourceInstanceToKVStore F t tpID uniPortName resInst =
     kv_Put F (resource_instance_key (GetTechProfileInstanceKey t tpID uniPortName))
       (KvResourceInstance resInst)"

text \<open>
  \<open>CreateTechProfileInstance\<close>. When the resources cannot be recorded they are given back and the process ends: the
  list of errors always has two entries, nil ones included, so the test of its length is always true. The branch for
  EPON, over other profiles and instances, is not modelled; the properties assume a technology of the GPON family.
\<close>

definition CreateTechProfileInstance ::
  "(nat \<Rightarrow> kv_answer) \<Rightarrow> uint32 \<Rightarrow> string \<Rightarrow> uint32 \<Rightarrow> TechProfileMgr \<Rightarrow> (tp_end \<times> TechProfileMgr) kvm" where
  "CreateTechProfileInstance F tpID uniPortName intfID t =
     (if \<not> uniPortNameFormatRegexp uniPortName
      then kret (TpReturns (None,
             Some (ErrorString (''uni-port-name-not-confirming-to-format-'' @ uniPortName))), t)
      else
        (let tpInstancePathSuffix = GetTechProfileInstanceKey t tpID uniPortName
         in kbind (chosen_template F t tpID) (\<lambda>tp.
            let t = t\<lparr>tm_tpMap := (tm_tpMap t)(tpID \<mapsto> tp)\<rparr>
            in kbind (allocateTPInstance F t uniPortName tp intfID tpInstancePathSuffix) (\<lambda>r.
               case r of
                 None \<Rightarrow> kret (TpReturns (None, Some (ErrorString ''tp-instance-allocation-failed'')), t)
               | Some tpInstance \<Rightarrow>
                   (let t = t\<lparr>tm_tpInstanceMap := (tm_tpInstanceMap t)(tpInstancePathSuffix \<mapsto> tpInstance)\<rparr>;
                        resInst = res_inst tpID tpInstance
                    in kbind (addResourceInstanceToKVStore F t tpID uniPortName resInst) (\<lambda>err.
                       if err = None then kret (TpReturns (Some tpInstance, None), t)
                       else
                         kbind (tp_FreeResourceID F (tm_resourceMgr t) intfID ''ALLOC_ID'' (Some [ri_AllocId resInst])) (\<lambda>e1.
                         kbind (tp_FreeResourceID F (tm_resourceMgr t) intfID ''GEMPORT_ID''
                             (if ri_GemportIds resInst = [] then None else Some (ri_GemportIds resInst))) (\<lambda>e2.
                         let errList = [e1, e2]
                         in if 0 < length errList then kret (TpExits, t)
                            else kret (TpReturns (None, err), t)))))))))"

text \<open>
  \<open>GetTPInstance\<close>. The instances of an EPON manager are kept in a cache of their own; the model creates and reads none, so that
  cache is empty and every lookup in it fails.
\<close>

definition GetTPInstance :: "TechProfileMgr \<Rightarrow> string \<Rightarrow> TechProfileInstance option \<times> go_error option" where
  "GetTPInstance t path =
     (if pr_Technology (tm_resourceMgr t) \<in> {''XGS-PON'', ''XGPON'', ''GPON''} then
        (case tm_tpInstanceMap t path of
           None \<Rightarrow> (None, Some (ErrorString (''tp-instance-not-found-tp-path-'' @ path)))
         | Some tpInst \<Rightarrow> (Some tpInst, None))
      else if pr_Technology (tm_resourceMgr t) = ''EPON'' then
        (None, Some (ErrorString (''tp-instance-not-found-tp-path-'' @ path)))
      else (None, Some (ErrorString (''unknown-tech-'' @ pr_Technology (tm_resourceMgr t) @ ''-tp-path-'' @ path))))"

definition DeleteTechProfileInstance ::
  "(nat \<Rightarrow> kv_answer) \<Rightarrow> uint32 \<Rightarrow> string \<Rightarrow> TechProfileMgr \<Rightarrow> (go_error option \<times> TechProfileMgr) kvm" where
  "DeleteTechProfileInstance F tpID uniPortName t =
     (if \<not> uniPortNameFormatRegexp uniPortName
      then kret (Some (ErrorString (''uni-port-name-not-confirming-to-format--'' @ uniPortName)), t)
      else
        (let path = GetTechProfileInstanceKey t tpID uniPortName;
             t = t\<lparr>tm_tpInstanceMap := (tm_tpInstanceMap t)(path := None)\<rparr>
         in kbind (kv_Delete F (resource_instance_key path)) (\<lambda>err. kret (err, t))))"

section \<open>Start-up\<close>

text \<open>
  A template and a record of resources give an instance when they have the same number of GEM ports. The
  statements are those of \<open>allocateTPInstance\<close>, repeated in the source.
\<close>

definition buildTpInstanceFromResourceInstance ::
  "TechProfile \<Rightarrow> ResourceInstance \<Rightarrow> TechProfileInstance option outcome" where
  "buildTpInstanceFromResourceInstance tp resInst =
     (if int (length (ri_GemportIds resInst)) \<noteq> uint (tpl_NumGemPorts tp) then Done None
      else
        (case build_instance (ri_SubscriberIdentifier resInst) tp (ri_AllocId resInst) (ri_GemportIds resInst) of
           Crashed p \<Rightarrow> Crashed p
         | Done inst \<Rightarrow> Done (Some inst)))"

definition getTpInstanceFromResourceInstance ::
  "(nat \<Rightarrow> kv_answer) \<Rightarrow> TechProfileMgr \<Rightarrow> ResourceInstance \<Rightarrow> TechProfileInstance option kvm" where
  "getTpInstanceFromResourceInstance F t resInst =
     kbind (getTPFromKVStore F t (ri_TpId resInst)) (\<lambda>tp.
     klift (buildTpInstanceFromResourceInstance
       (case tp of None \<Rightarrow> getDefaultTechProfile t | Some tp \<Rightarrow> tp) resInst))"

text \<open>
  The pairs of \<open>List\<close>, in the order \<open>keys\<close> in which the loop over the returned map meets them; its error is
  dropped.
\<close>

definition kv_List :: "(nat \<Rightarrow> kv_answer) \<Rightarrow> string list \<Rightarrow> string \<Rightarrow> (string \<times> kv_value) list kvm" where
  "kv_List F keys prefix st =
     (Done (case F (kv_ops st) of
              KvOk \<Rightarrow> [(k, the (kv_data st k)). k \<leftarrow> keys, take (length prefix) k = prefix \<and> kv_data st k \<noteq> None]
            | KvFails err _ \<Rightarrow> []), st\<lparr>kv_ops := Suc (kv_ops st)\<rparr>)"

fun reconcile_pairs ::
  "(nat \<Rightarrow> kv_answer) \<Rightarrow> (string \<times> kv_value) list \<Rightarrow> TechProfileMgr \<Rightarrow> TechProfileMgr kvm" where
  "reconcile_pairs F [] t = kret t"
| "reconcile_pairs F ((keyPath, v) # kvPairs) t =
     (case v of
        KvResourceInstance resInst \<Rightarrow>
          kbind (getTpInstanceFromResourceInstance F t resInst) (\<lambda>tpInst.
          reconcile_pairs F kvPairs
            (case (tpInst, strip (resource_instance_key []) keyPath) of
               (Some inst, Some suffix) \<Rightarrow>
                 if keySuffixFormatRegexp suffix
                 then t\<lparr>tm_tpInstanceMap := (tm_tpInstanceMap t)(suffix \<mapsto> inst)\<rparr> else t
             | _ \<Rightarrow> t))
      | _ \<Rightarrow> reconcile_pairs F kvPairs t)"

text \<open>An EPON manager reads its instances into a cache of their own, which is not modelled.\<close>

definition reconcileTpInstancesToCache ::
  "(nat \<Rightarrow> kv_answer) \<Rightarrow> string list \<Rightarrow> TechProfileMgr \<Rightarrow> (TechProfileMgr \<times> go_error option) kvm" where
  "reconcileTpInstancesToCache F keys t =
     (let tech = pr_Technology (tm_resourceMgr t)
      in kbind (kv_List F keys (resource_instance_key tech)) (\<lambda>kvPairs.
         if tech \<in> {''XGS-PON'', ''XGPON'', ''GPON''}
         then kbind (reconcile_pairs F kvPairs t) (\<lambda>t. kret (t, None))
         else if tech = ''EPON'' then kret (t, None)
         else kret (t, Some (ErrorString (''unknown-tech-'' @ tech)))))"

text \<open>The manager, once the clients of the store are there.\<close>

definition NewTechProfile ::
  "(nat \<Rightarrow> kv_answer) \<Rightarrow> string list \<Rightarrow> PONResourceManager \<Rightarrow> (TechProfileMgr option \<times> go_error option) kvm" where
  "NewTechProfile F keys resourceMgr =
     kbind (reconcileTpInstancesToCache F keys
         \<lparr>tm_resourceMgr = resourceMgr, tm_tpInstanceMap = Map.empty, tm_tpMap = Map.empty\<rparr>) (\<lambda>(t, err).
     kret (if err \<noteq> None then (None, err) else (Some t, None)))"

section \<open>Lemmas\<close>

subsection \<open>Names and paths\<close>

lemma strip_append [simp]: "strip lit (lit @ r) = Some r"
  by (induction lit) simp_all

lemma is_digit_digit_char [simp]: "d < 10 \<Longrightarrow> is_digit (digit_char d)"
  by (simp add: is_digit_def)

lemma FormatUint_is_digit: "c \<in> set (FormatUint n) \<Longrightarrow> is_digit c"
  using FormatUint_digits by fastforce

lemma FormatUint_neq_Nil [simp]: "FormatUint n \<noteq> []"
  by (simp add: FormatUint_def)

lemma not_digit [simp]: "\<not> is_digit (CHR ''}'')" "\<not> is_digit (CHR ''{'')" "\<not> is_digit (CHR ''/'')"
  by (simp_all add: is_digit_def digit_val_def)

text \<open>A field reads the digits of a number up to the next character that is no digit.\<close>

lemma field_digits:
  assumes "r = [] \<or> \<not> is_digit (hd r)"
  shows "field lit is_digit (Some (lit @ FormatUint n @ r)) = Some r"
proof -
  have "takeWhile is_digit r = []" "dropWhile is_digit r = r" using assms by (cases r; simp)+
  then show ?thesis using FormatUint_is_digit [of _ n] by (simp add: field_def)
qed

lemma uni_port_name_conforms: "uniPortNameFormatRegexp (UniPortName p onu u)"
proof -
  let ?r3 = "''}''" and ?u = "FormatUint (unat u)" and ?o = "FormatUint (unat onu)" and ?p = "FormatUint (unat p)"
  have "field ''olt-{'' is_olt_char (Some (UniPortName p onu u)) =
      Some (''}/pon-{'' @ ?p @ ''}/onu-{'' @ ?o @ ''}/uni-{'' @ ?u @ ''}'')"
    by (simp add: field_def UniPortName_def is_olt_char_def is_digit_def digit_val_def)
  moreover have "field ''}/pon-{'' is_digit (Some (''}/pon-{'' @ ?p @ ''}/onu-{'' @ ?o @ ''}/uni-{'' @ ?u @ ''}'')) =
      Some (''}/onu-{'' @ ?o @ ''}/uni-{'' @ ?u @ ''}'')" by (rule field_digits) simp
  moreover have "field ''}/onu-{'' is_digit (Some (''}/onu-{'' @ ?o @ ''}/uni-{'' @ ?u @ ''}'')) =
      Some (''}/uni-{'' @ ?u @ ''}'')" by (rule field_digits) simp
  moreover have "field ''}/uni-{'' is_digit (Some (''}/uni-{'' @ ?u @ ''}'')) = Some ''}''" by (rule field_digits) simp
  ultimately show ?thesis by (simp only: uniPortNameFormatRegexp_def olt_to_uni_def)
qed

text \<open>The path of an instance without its UNI, and the search among the UNIs of an ONU.\<close>

lemma span_digits [simp]:
  "takeWhile is_digit (rev (FormatUint i) @ CHR ''{'' # r) = rev (FormatUint i)"
  "dropWhile is_digit (rev (FormatUint i) @ CHR ''{'' # r) = CHR ''{'' # r"
proof -
  have d: "\<And>c. c \<in> set (rev (FormatUint i)) \<Longrightarrow> is_digit c" using FormatUint_is_digit by simp
  show "takeWhile is_digit (rev (FormatUint i) @ CHR ''{'' # r) = rev (FormatUint i)"
    using takeWhile_append2 [of "rev (FormatUint i)" is_digit "CHR ''{'' # r"] d by simp
  show "dropWhile is_digit (rev (FormatUint i) @ CHR ''{'' # r) = CHR ''{'' # r"
    using dropWhile_append2 [of "rev (FormatUint i)" is_digit "CHR ''{'' # r"] d by simp
qed

lemma uniPathSlice_uni_key [simp]: "uniPathSlice (uni_key prefix i) = prefix"
proof -
  have "rev (uni_key prefix i) = CHR ''}'' # rev (FormatUint i) @ rev ''/uni-{'' @ rev prefix"
    by (simp add: uni_key_def)
  then show ?thesis by (simp add: uniPathSlice_def)
qed

definition onu_path :: "TechProfileMgr \<Rightarrow> uint32 \<Rightarrow> uint32 \<Rightarrow> uint32 \<Rightarrow> string" where
  "onu_path t tpID p onu = GetTechProfileInstanceKey t tpID
     (''olt-{1}/pon-{'' @ FormatUint (unat p) @ ''}/onu-{'' @ FormatUint (unat onu) @ ''}'')"

lemma instance_key_uni:
  "GetTechProfileInstanceKey t tpID (UniPortName p onu u) = uni_key (onu_path t tpID p onu) (unat u)"
  by (simp add: GetTechProfileInstanceKey_def UniPortName_def uni_key_def onu_path_def)

lemma find_instance_find:
  "find_instance t prefix is =
     Option.bind (List.find (\<lambda>i. tm_tpInstanceMap t (uni_key prefix i) \<noteq> None) is) (\<lambda>i. tm_tpInstanceMap t (uni_key prefix i))"
  by (induction "is") (auto split: option.splits)

subsection \<open>Instances\<close>

lemma number_gems_Done:
  assumes "n \<le> length as" "n \<le> length gs"
  shows "number_gems n as gs = Done (map2 numbered_gem (take n as) (take n gs))"
  using assms by (induction n as gs rule: number_gems.induct) auto

lemma number_gems_ids:
  assumes "number_gems n as gs = Done xs"
  shows "map gp_GemportId xs = take n gs \<and> length xs = n"
  using assms
  by (induction n as gs arbitrary: xs rule: number_gems.induct)
    (auto simp: numbered_gem_def split: outcome.splits)

text \<open>A template the library can use.\<close>

definition unicast :: "TechProfile \<Rightarrow> GemPortAttributes list" where
  "unicast tp = filter (\<lambda>a. \<not> isMulticastGem (gp_IsMulticast a)) (tpl_DownstreamGemPortAttributeList tp)"

definition multicast :: "TechProfile \<Rightarrow> GemPortAttributes list" where
  "multicast tp = filter (\<lambda>a. isMulticastGem (gp_IsMulticast a)) (tpl_DownstreamGemPortAttributeList tp)"

definition usable :: "TechProfile \<Rightarrow> bool" where
  "usable tp \<longleftrightarrow>
     (case tpl_InstanceControl tp of None \<Rightarrow> False | Some ctl \<Rightarrow> validateInstanceControlAttr ctl = None) \<and>
     tpl_UsScheduler tp \<noteq> None \<and> tpl_DsScheduler tp \<noteq> None \<and> 1 \<le> tpl_NumGemPorts tp \<and>
     unat (tpl_NumGemPorts tp) \<le> length (tpl_UpstreamGemPortAttributeList tp) \<and>
     (unicast tp = [] \<or> unat (tpl_NumGemPorts tp) \<le> length (unicast tp))"

text \<open>The instance a usable template gives.\<close>

definition instance_of :: "string \<Rightarrow> TechProfile \<Rightarrow> uint32 \<Rightarrow> uint32 list \<Rightarrow> TechProfileInstance" where
  "instance_of name tp allocID gems =
     \<lparr>tp_Name = tpl_Name tp, tp_Version = tpl_Version tp, tp_SubscriberIdentifier = name,
      tp_ProfileType = tpl_ProfileType tp, tp_NumGemPorts = tpl_NumGemPorts tp,
      tp_InstanceControl = tpl_InstanceControl tp,
      tp_UsScheduler = Some ((the (tpl_UsScheduler tp))\<lparr>sa_AllocId := allocID\<rparr>),
      tp_DsScheduler = Some ((the (tpl_DsScheduler tp))\<lparr>sa_AllocId := allocID\<rparr>),
      tp_UpstreamGemPortAttributeList = map2 numbered_gem (tpl_UpstreamGemPortAttributeList tp) gems,
      tp_DownstreamGemPortAttributeList = map2 numbered_gem (unicast tp) gems @ map multicast_gem (multicast tp)\<rparr>"

lemma number_gems_zip:
  assumes "length gs \<le> length as"
  shows "number_gems (length gs) as gs = Done (map2 numbered_gem as gs)"
proof -
  have "zip (take (length gs) as) gs = zip as gs" using take_zip [of "length gs" as gs] by simp
  with number_gems_Done [OF assms order_refl] show ?thesis by simp
qed

lemma build_instance_usable:
  assumes "usable tp" "length gems = unat (tpl_NumGemPorts tp)"
  shows "build_instance name tp allocID gems = Done (instance_of name tp allocID gems)"
proof -
  have us: "number_gems (length gems) (tpl_UpstreamGemPortAttributeList tp) gems =
      Done (map2 numbered_gem (tpl_UpstreamGemPortAttributeList tp) gems)"
    by (rule number_gems_zip) (use assms in \<open>simp add: usable_def\<close>)
  have ds: "(if unicast tp = [] then Done [] else number_gems (length gems) (unicast tp) gems) = Done (map2 numbered_gem (unicast tp) gems)"
    using number_gems_zip [of gems "unicast tp"] assms by (auto simp: usable_def)
  obtain us' ds' where "tpl_UsScheduler tp = Some us'" "tpl_DsScheduler tp = Some ds'"
    using assms(1) by (auto simp: usable_def)
  with us ds show ?thesis
    unfolding build_instance_def instance_of_def multicast_def [symmetric] unicast_def [symmetric] assms(2) [symmetric] Let_def
    by simp
qed

definition gem_ids :: "TechProfileInstance \<Rightarrow> uint32 list" where
  "gem_ids inst = map gp_GemportId (tp_UpstreamGemPortAttributeList inst)"

lemma numbered_ids:
  assumes "length gs \<le> length as"
  shows "map gp_GemportId (map2 numbered_gem as gs) = gs"
  using assms
proof (induction gs arbitrary: as)
  case (Cons g gs)
  then show ?case by (cases as) (auto simp: numbered_gem_def)
qed simp

lemma gem_ids_instance:
  assumes "usable tp" "length gems = unat (tpl_NumGemPorts tp)"
  shows "gem_ids (instance_of name tp a gems) = gems"
  using numbered_ids [of gems "tpl_UpstreamGemPortAttributeList tp"] assms
  by (simp add: gem_ids_def instance_of_def usable_def)

lemma build_instance_result:
  assumes "build_instance name tp allocID gems = Done inst"
  shows "map gp_GemportId (tp_UpstreamGemPortAttributeList inst) = take (unat (tpl_NumGemPorts tp)) gems \<and>
     (\<exists>us ds. tp_UsScheduler inst = Some us \<and> sa_AllocId us = allocID \<and>
        tp_DsScheduler inst = Some ds \<and> sa_AllocId ds = allocID)"
  using assms
  by (auto simp: build_instance_def Let_def dest!: number_gems_ids split: outcome.splits option.splits)


subsection \<open>The store\<close>

text \<open>
  The steps of a creation that succeeds only take identifiers. Pools are kept under the keys of resource managers, the resources of
  instances elsewhere.
\<close>

definition grows :: "kv \<Rightarrow> kv \<Rightarrow> bool" where
  "grows st st' \<longleftrightarrow> store_inv st' \<and> (\<forall>m p. taken_at st (full_key m p) \<subseteq> taken_at st' (full_key m p))"

lemma grows_trans: "grows st st' \<Longrightarrow> grows st' st'' \<Longrightarrow> grows st st''"
  unfolding grows_def by blast

lemma grows_same: "store_inv st \<Longrightarrow> kv_data st' = kv_data st \<Longrightarrow> grows st st'"
  by (simp add: grows_def store_inv_def taken_at_def)

lemma instance_key_no_pool: "full_key m p \<noteq> resource_instance_key s"
  by (simp add: full_key_def resource_instance_key_def)

lemma grows_record:
  assumes "store_inv st"
    and "kv_data st' = kv_data st \<or> kv_data st' = (kv_data st)(resource_instance_key s := Some (KvResourceInstance ri))"
  shows "grows st st'"
proof (cases "kv_data st' = kv_data st")
  case True
  with assms(1) show ?thesis by (rule grows_same)
next
  case False
  with assms have d: "kv_data st' = (kv_data st)(resource_instance_key s := Some (KvResourceInstance ri))"
    by blast
  with assms(1) show ?thesis
    unfolding grows_def store_inv_def taken_at_def
    using instance_key_no_pool [of _ _ s] by auto
qed

lemma ready_key:
  assumes "mgr_ready m" "rt \<in> resource_types"
  shows "\<exists>p. pool_key m i rt = full_key m p"
  using GetPath_ready [OF assms] by blast

lemma take_step:
  assumes "mgr_ready m" "rt \<in> {''ALLOC_ID'', ''GEMPORT_ID''}" "store_inv st"
  shows "\<exists>ids err st'. tp_GetResourceID F m i rt n st = (Done (ids, err), st') \<and> grows st st' \<and>
     (err = None \<longrightarrow> distinct ids \<and> length ids = unat n \<and> set ids \<inter> taken_at st (pool_key m i rt) = {} \<and>
        set ids \<subseteq> taken_at st' (pool_key m i rt))"
proof -
  have rt: "rt \<in> resource_types" using assms(2) by (auto simp: resource_types_def)
  obtain ids err st' where "GetResourceID F m i rt n st = (Done (ids, err), st')" "store_inv st'"
    "\<forall>k. taken_at st k \<subseteq> taken_at st' k"
    "err = None \<longrightarrow> distinct ids \<and> set ids \<inter> taken_at st (pool_key m i rt) = {} \<and>
        taken_at st' (pool_key m i rt) = taken_at st (pool_key m i rt) \<union> set ids \<and>
        length ids = (if rt = ''ONU_ID'' \<or> rt = ''FLOW_ID'' then 1 else unat n)"
    using GetResourceID_step [OF assms(1) rt assms(3), of F i n] by blast
  then show ?thesis
    using assms(2) by (auto simp: tp_GetResourceID_def kvm_defs grows_def)
qed

lemma kv_Get_data: "\<exists>x st'. kv_Get F k st = (Done x, st') \<and> kv_data st' = kv_data st"
  by (cases rule: kv_Get_cases [of F k st]) auto

lemma getTP_data: "\<exists>x st'. getTPFromKVStore F t tpID st = (Done x, st') \<and> kv_data st' = kv_data st"
proof (cases "tm_tpMap t tpID")
  case None
  obtain x st' where "kv_Get F (tp_kv_key t tpID) st = (Done x, st')" "kv_data st' = kv_data st"
    using kv_Get_data by blast
  with None show ?thesis by (cases x) (simp add: getTPFromKVStore_def kvm_defs)
qed (simp add: getTPFromKVStore_def kvm_defs)

lemma chosen_template_data: "\<exists>r st'. chosen_template F t tpID st = (r, st') \<and> kv_data st' = kv_data st"
  using getTP_data [of F t tpID st] by (auto simp: chosen_template_def kvm_defs)

lemma tcont_step:
  assumes "mgr_ready (tm_resourceMgr t)" "store_inv st"
  shows "\<exists>r st'. tcont_ids F t tp intf path st = (r, st') \<and> grows st st'"
proof (cases "\<exists>ctl. tpl_InstanceControl tp = Some ctl \<and> (ic_Onu ctl = ''multi-instance'' \<or> getSingleInstanceTp t path = None)")
  case True
  obtain ids err st' where "tp_GetResourceID F (tm_resourceMgr t) intf ''ALLOC_ID'' 1 st = (Done (ids, err), st')" "grows st st'"
    using take_step [OF assms(1) _ assms(2), of "''ALLOC_ID''" F intf 1] by auto
  with True show ?thesis by (auto simp: tcont_ids_def Let_def kvm_defs)
next
  case False
  with grows_same [OF assms(2), of st] show ?thesis
    by (auto simp: tcont_ids_def Let_def kvm_defs split: option.split)
qed

definition gem_key :: "TechProfileMgr \<Rightarrow> uint32 \<Rightarrow> string" where
  "gem_key t intf = pool_key (tm_resourceMgr t) intf ''GEMPORT_ID''"

text \<open>What a new instance holds: fresh GEM ports, and schedulers with one alloc ID.\<close>

definition fresh_instance :: "kv \<Rightarrow> kv \<Rightarrow> string \<Rightarrow> TechProfileInstance \<Rightarrow> bool" where
  "fresh_instance st st' k inst \<longleftrightarrow>
     distinct (gem_ids inst) \<and> set (gem_ids inst) \<inter> taken_at st k = {} \<and> set (gem_ids inst) \<subseteq> taken_at st' k \<and>
     (\<exists>us ds. tp_UsScheduler inst = Some us \<and> tp_DsScheduler inst = Some ds \<and> sa_AllocId us = sa_AllocId ds)"

lemma allocate_step:
  assumes "mgr_ready (tm_resourceMgr t)" "store_inv st"
  shows "\<exists>r st'. allocateTPInstance F t name tp intf path st = (r, st') \<and> grows st st' \<and>
     (\<forall>inst. r = Done (Some inst) \<longrightarrow> fresh_instance st st' (gem_key t intf) inst)"
proof -
  obtain r1 st1 where 1: "tcont_ids F t tp intf path st = (r1, st1)" "grows st st1" using tcont_step [OF assms] by blast
  show ?thesis
  proof (cases "\<exists>tconts. r1 = Done (Some tconts)")
    case False
    with 1 show ?thesis by (cases r1) (auto simp: allocateTPInstance_def kvm_defs split: option.split)
  next
    case True
    then obtain tconts where r1: "r1 = Done (Some tconts)" by blast
    have inv1: "store_inv st1" using 1(2) by (simp add: grows_def)
    obtain gems err st' where g: "tp_GetResourceID F (tm_resourceMgr t) intf ''GEMPORT_ID'' (tpl_NumGemPorts tp) st1 = (Done (gems, err), st')"
      "grows st1 st'" "err = None \<longrightarrow> distinct gems \<and> length gems = unat (tpl_NumGemPorts tp) \<and>
         set gems \<inter> taken_at st1 (gem_key t intf) = {} \<and> set gems \<subseteq> taken_at st' (gem_key t intf)"
      using take_step [OF assms(1) _ inv1, of "''GEMPORT_ID''" F intf "tpl_NumGemPorts tp"] unfolding gem_key_def by auto
    have st': "grows st st'" using grows_trans [OF 1(2) g(2)] .
    have "''GEMPORT_ID'' \<in> resource_types" by (simp add: resource_types_def)
    then have sub: "taken_at st (gem_key t intf) \<subseteq> taken_at st1 (gem_key t intf)"
      using ready_key [OF assms(1), of "''GEMPORT_ID''" intf] 1(2) unfolding gem_key_def grows_def by metis
    have run: "allocateTPInstance F t name tp intf path st =
        (if err \<noteq> None then (Done None, st')
         else case tconts of [] \<Rightarrow> (Crashed IndexOutOfRange, st')
           | tcontID # _ \<Rightarrow> (case build_instance name tp tcontID gems of
                Crashed p \<Rightarrow> (Crashed p, st') | Done inst \<Rightarrow> (Done (Some inst), st')))"
      using 1(1) r1 g(1) by (auto simp: allocateTPInstance_def kvm_defs split: list.split outcome.split)
    have "fresh_instance st st' (gem_key t intf) inst" if "build_instance name tp tcontID gems = Done inst" "err = None" for tcontID inst
      using build_instance_result [OF that(1)] g(3) that(2) sub by (auto simp: fresh_instance_def gem_ids_def)
    with run st' show ?thesis by (auto split: list.split outcome.split)
  qed
qed

lemma kbind_Done: "m st = (Done x, st') \<Longrightarrow> kbind m f st = f x st'"
  by (simp add: kbind_def)

lemma then_exits:
  obtains r st' where "kbind m (\<lambda>e1. kbind (m' e1) (\<lambda>e2. kret (TpExits, t))) st = (r, st')"
    "r = Done (TpExits, t) \<or> (\<exists>p. r = Crashed p)"
proof -
  have "\<exists>r st'. kbind m (\<lambda>e1. kbind (m' e1) (\<lambda>e2. kret (TpExits, t))) st = (r, st') \<and>
      (r = Done (TpExits, t) \<or> (\<exists>p. r = Crashed p))"
    by (auto simp: kvm_defs split: prod.split outcome.split)
  then show thesis using that by blast
qed

text \<open>A creation, whatever the store answers.\<close>

lemma create_step:
  assumes "mgr_ready (tm_resourceMgr t)" "store_inv st"
  shows "\<exists>r st'. CreateTechProfileInstance F tpID name intf t st = (r, st') \<and>
     (case r of
        Crashed p \<Rightarrow> True
      | Done (e, t') \<Rightarrow> tm_resourceMgr t' = tm_resourceMgr t \<and>
          (case e of
             TpExits \<Rightarrow> True
           | TpReturns (None, err) \<Rightarrow> grows st st'
           | TpReturns (Some inst, err) \<Rightarrow> err = None \<and> grows st st' \<and> fresh_instance st st' (gem_key t intf) inst))"
proof (cases "uniPortNameFormatRegexp name")
  case False
  with grows_same [OF assms(2), of st] show ?thesis by (simp add: CreateTechProfileInstance_def kvm_defs)
next
  case True
  let ?path = "GetTechProfileInstanceKey t tpID name"
  obtain r1 st1 where 1: "chosen_template F t tpID st = (r1, st1)" "kv_data st1 = kv_data st"
    using chosen_template_data by blast
  show ?thesis
  proof (cases r1)
    case (Crashed p)
    with True 1 show ?thesis by (simp add: CreateTechProfileInstance_def kvm_defs Let_def)
  next
    case (Done tp)
    have g1: "grows st st1" using grows_same [OF assms(2) 1(2)] .
    then have inv1: "store_inv st1" by (simp add: grows_def)
    let ?t = "t\<lparr>tm_tpMap := (tm_tpMap t)(tpID \<mapsto> tp)\<rparr>"
    have ready: "mgr_ready (tm_resourceMgr ?t)" using assms(1) by simp
    obtain r2 st2 where 2: "allocateTPInstance F ?t name tp intf ?path st1 = (r2, st2)" "grows st1 st2"
      "\<forall>inst. r2 = Done (Some inst) \<longrightarrow> fresh_instance st1 st2 (gem_key ?t intf) inst"
      using allocate_step [OF ready inv1, of F name tp intf ?path] by blast
    have g2: "grows st st2" using grows_trans [OF g1 2(2)] .
    show ?thesis
    proof (cases "\<exists>inst. r2 = Done (Some inst)")
      case False
      with True 1 Done 2 g2 show ?thesis
        by (cases r2) (auto simp: CreateTechProfileInstance_def kvm_defs Let_def split: option.splits)
    next
      case i: True
      then obtain inst where inst: "r2 = Done (Some inst)" by blast
      have fresh: "fresh_instance st st2 (gem_key t intf) inst"
        using 2(3) inst 1(2) by (simp add: fresh_instance_def gem_key_def taken_at_def)
      let ?key = "resource_instance_key ?path"
      obtain err st3 where 3: "kv_Put F ?key (KvResourceInstance (res_inst tpID inst)) st2 = (Done err, st3)"
        "kv_data st3 = kv_data st2 \<or> kv_data st3 = (kv_data st2)(?key := Some (KvResourceInstance (res_inst tpID inst)))"
        using kv_write_result [of F ?key "Some (KvResourceInstance (res_inst tpID inst))" st2] unfolding kv_Put_def by blast
      have "store_inv st2" using g2 by (simp add: grows_def)
      then have g3: "grows st2 st3" using grows_record 3(2) by blast
      obtain p where "gem_key t intf = full_key (tm_resourceMgr t) p"
        using ready_key [OF assms(1), of "''GEMPORT_ID''" intf] by (auto simp: gem_key_def resource_types_def)
      then have sub: "taken_at st2 (gem_key t intf) \<subseteq> taken_at st3 (gem_key t intf)" using g3 by (simp add: grows_def)
      have fresh3: "fresh_instance st st3 (gem_key t intf) inst" using fresh sub unfolding fresh_instance_def by blast
      have key: "GetTechProfileInstanceKey (t\<lparr>tm_tpMap := x, tm_tpInstanceMap := y\<rparr>) tpID name = ?path" for x y
        by (simp add: GetTechProfileInstanceKey_def)
      show ?thesis
      proof (cases err)
        case None
        with True 1 Done 2(1) inst 3(1) key g3 fresh3 grows_trans [OF g2 g3] show ?thesis
          by (simp add: CreateTechProfileInstance_def kvm_defs Let_def addResourceInstanceToKVStore_def)
      next
        case (Some e)
        let ?t2 = "?t\<lparr>tm_tpInstanceMap := (tm_tpInstanceMap t)(?path \<mapsto> inst)\<rparr>"
        have run: "CreateTechProfileInstance F tpID name intf t st =
            kbind (tp_FreeResourceID F (tm_resourceMgr t) intf ''ALLOC_ID'' (Some [ri_AllocId (res_inst tpID inst)])) (\<lambda>e1.
            kbind (tp_FreeResourceID F (tm_resourceMgr t) intf ''GEMPORT_ID''
              (if ri_GemportIds (res_inst tpID inst) = [] then None else Some (ri_GemportIds (res_inst tpID inst)))) (\<lambda>e2.
            kret (TpExits, ?t2))) st3"
          using True key Some
          by (simp add: CreateTechProfileInstance_def Let_def addResourceInstanceToKVStore_def
              kbind_Done [where m = "chosen_template F t tpID", OF 1(1) [unfolded Done]]
              kbind_Done [where m = "allocateTPInstance F ?t name tp intf ?path", OF 2(1) [unfolded inst]]
              kbind_Done [where m = "kv_Put F ?key (KvResourceInstance (res_inst tpID inst))", OF 3(1)])
        obtain r st' where "CreateTechProfileInstance F tpID name intf t st = (r, st')"
          "r = Done (TpExits, ?t2) \<or> (\<exists>p. r = Crashed p)"
          unfolding run by (rule then_exits)
        then show ?thesis by (intro exI [of _ r] exI [of _ st']) auto
      qed
    qed
  qed
qed

end
