(* ===== verification/Tp_Creation.thy ===== *)
theory Tp_Creation
  imports Tp_Instance
begin

text \<open>
  What the creation of technology profile instances promises: the outcome on a working store, the sharing of alloc
  IDs, and GEM ports that are never given twice.
\<close>

section \<open>A working store\<close>

text \<open>A working store: a request succeeds exactly when the pool has enough free identifiers.\<close>

lemma take_available:
  assumes "mgr_ready m" "rt \<in> {''ALLOC_ID'', ''GEMPORT_ID''}" "\<forall>n. F n = KvOk" "1 \<le> n"
    and "kv_data st (pool_key m i rt) = Some (KvResource r)" "pool_inv r"
  shows "if unat n \<le> card (pool_ids r - pool_taken r)
     then \<exists>ids r'. tp_GetResourceID F m i rt n st = (Done (ids, None),
         st\<lparr>kv_ops := Suc (Suc (kv_ops st)), kv_data := (kv_data st)(pool_key m i rt \<mapsto> KvResource r')\<rparr>) \<and>
       length ids = unat n \<and> distinct ids \<and> set ids \<subseteq> pool_ids r - pool_taken r \<and>
       pool_taken r' = pool_taken r \<union> set ids \<and> pool_ids r' = pool_ids r \<and> pool_inv r'
     else tp_GetResourceID F m i rt n st =
       (Done ([], Some (ErrorString ''resource-exhausted--no-free-id-in-the-pool'')), st\<lparr>kv_ops := Suc (kv_ops st)\<rparr>)"
proof -
  have rt: "rt \<in> resource_types" using assms(2) by (auto simp: resource_types_def)
  obtain p where p: "GetPath m i rt = Done p" "p \<noteq> []" "pool_key m i rt = full_key m p"
    using GetPath_ready [OF assms(1) rt] by blast
  have n: "\<not> n < 1" "rt \<noteq> ''ONU_ID''" "rt \<noteq> ''FLOW_ID''" using assms(2,4) by (auto simp: not_less)
  have R: "GetResource F m p st = (Done (Some r, None), st\<lparr>kv_ops := Suc (kv_ops st)\<rparr>)"
    using assms(3,5) p(3) by (simp add: GetResource_def kvm_defs kv_Get_def)
  have fits: "card (pool_ids r - pool_taken r) \<ge> unat n"
    if "length is = unat n" "distinct is" "set is \<subseteq> pool_ids r - pool_taken r" for "is"
    using card_mono [OF _ that(3)] that(1,2) by (simp add: distinct_card pool_ids_def)
  from assms(6) show ?thesis
  proof (cases rule: generate_ids_cases [of r "unat n"])
    case (given ids r')
    with fits have "unat n \<le> card (pool_ids r - pool_taken r)" by blast
    moreover have "tp_GetResourceID F m i rt n st = (Done (ids, None),
        st\<lparr>kv_ops := Suc (Suc (kv_ops st)), kv_data := (kv_data st)(pool_key m i rt \<mapsto> KvResource r')\<rparr>)"
      using assms(2,3) n p R given(1)
      by (auto simp: tp_GetResourceID_def GetResourceID_def kvm_defs UpdateResource_def kv_Put_def kv_write_def Let_def)
    ultimately show ?thesis using given by auto
  next
    case (exhausted ids r')
    with assms(2) n p R show ?thesis by (auto simp: tp_GetResourceID_def GetResourceID_def kvm_defs)
  qed
qed

text \<open>The template in use: the cached or stored one when it is valid, else the default.\<close>

lemma default_usable: "usable (getDefaultTechProfile t)"
  by (simp add: usable_def getDefaultTechProfile_def Let_def DefaultPbits_def validateInstanceControlAttr_def unicast_def
      default_gem_def isMulticastGem_def)

text \<open>The technologies that \<open>CreateTechProfileInstance\<close> serves with the branch that is modelled (all but EPON of those known).\<close>

definition gpon_family :: "string set" where
  "gpon_family = {''XGS-PON'', ''XGPON'', ''GPON''}"

definition valid :: "TechProfile \<Rightarrow> bool" where
  "valid tp \<longleftrightarrow> (case tpl_InstanceControl tp of None \<Rightarrow> False | Some ctl \<Rightarrow> validateInstanceControlAttr ctl = None)"

definition template_in_use :: "TechProfileMgr \<Rightarrow> kv \<Rightarrow> uint32 \<Rightarrow> TechProfile" where
  "template_in_use t st tpID =
     (case tm_tpMap t tpID of
        Some tp \<Rightarrow> if valid tp then tp else getDefaultTechProfile t
      | None \<Rightarrow>
          (case kv_data st (tp_kv_key t tpID) of
             Some (KvProfile tp) \<Rightarrow> if valid tp then tp else getDefaultTechProfile t
           | _ \<Rightarrow> getDefaultTechProfile t))"

text \<open>What is stored has an instance control, without which the library panics.\<close>

definition has_control :: "TechProfileMgr \<Rightarrow> kv \<Rightarrow> uint32 \<Rightarrow> bool" where
  "has_control t st tpID \<longleftrightarrow>
     (case tm_tpMap t tpID of
        Some tp \<Rightarrow> tpl_InstanceControl tp \<noteq> None
      | None \<Rightarrow>
          (case kv_data st (tp_kv_key t tpID) of
             Some (KvProfile tp) \<Rightarrow> tpl_InstanceControl tp \<noteq> None
           | Some KvNull \<Rightarrow> False
           | _ \<Rightarrow> True))"

lemma chosen_template_run:
  assumes "\<forall>n. F n = KvOk" "has_control t st tpID"
  shows "\<exists>st'. chosen_template F t tpID st = (Done (template_in_use t st tpID), st') \<and> kv_data st' = kv_data st"
  using assms
  by (auto simp: chosen_template_def getTPFromKVStore_def kvm_defs kv_Get_def template_in_use_def valid_def has_control_def
      split: option.splits kv_value.splits)


definition alloc_key :: "TechProfileMgr \<Rightarrow> uint32 \<Rightarrow> string" where
  "alloc_key t intf = pool_key (tm_resourceMgr t) intf ''ALLOC_ID''"

definition free_ids :: "IdResource \<Rightarrow> uint32 set" where
  "free_ids r = pool_ids r - pool_taken r"

text \<open>The instance whose alloc ID a new instance shares.\<close>

definition shares :: "TechProfileMgr \<Rightarrow> TechProfile \<Rightarrow> string \<Rightarrow> TechProfileInstance option" where
  "shares t tp path =
     (if ic_Onu (the (tpl_InstanceControl tp)) = ''multi-instance'' then None else getSingleInstanceTp t path)"

text \<open>The manager after a creation.\<close>

definition with_template :: "uint32 \<Rightarrow> TechProfile \<Rightarrow> TechProfileMgr \<Rightarrow> TechProfileMgr" where
  "with_template tpID tp t = t\<lparr>tm_tpMap := (tm_tpMap t)(tpID \<mapsto> tp)\<rparr>"

definition with_instance :: "string \<Rightarrow> TechProfileInstance \<Rightarrow> TechProfileMgr \<Rightarrow> TechProfileMgr" where
  "with_instance path inst t = t\<lparr>tm_tpInstanceMap := (tm_tpInstanceMap t)(path \<mapsto> inst)\<rparr>"

lemma with_template_simps [simp]:
  "tm_resourceMgr (with_template tpID tp t) = tm_resourceMgr t"
  "GetTechProfileInstanceKey (with_template tpID tp t) = GetTechProfileInstanceKey t"
  "getSingleInstanceTp (with_template tpID tp t) = getSingleInstanceTp t"
  "tm_resourceMgr (with_instance path inst t) = tm_resourceMgr t"
  "GetTechProfileInstanceKey (with_instance path inst t) = GetTechProfileInstanceKey t"
proof -
  have "find_instance (with_template tpID tp t) p is = find_instance t p is" for p "is"
    by (induction "is") (simp_all add: with_template_def split: option.split)
  then show "getSingleInstanceTp (with_template tpID tp t) = getSingleInstanceTp t"
    by (simp add: getSingleInstanceTp_def fun_eq_iff)
qed (simp_all add: with_template_def with_instance_def GetTechProfileInstanceKey_def fun_eq_iff)

text \<open>A creation on a working store, from the allocation on.\<close>

definition finish_creation ::
  "uint32 \<Rightarrow> string \<Rightarrow> TechProfileMgr \<Rightarrow> TechProfileInstance option outcome \<times> kv \<Rightarrow> (tp_end \<times> TechProfileMgr) outcome \<times> kv" where
  "finish_creation tpID path t = (\<lambda>(r, st).
     case r of
       Crashed p \<Rightarrow> (Crashed p, st)
     | Done None \<Rightarrow> (Done (TpReturns (None, Some (ErrorString ''tp-instance-allocation-failed'')), t), st)
     | Done (Some inst) \<Rightarrow>
         (Done (TpReturns (Some inst, None), with_instance path inst t),
          st\<lparr>kv_ops := Suc (kv_ops st),
             kv_data := (kv_data st)(resource_instance_key path \<mapsto> KvResourceInstance (res_inst tpID inst))\<rparr>))"

lemma finish_creation_simps [simp]:
  "finish_creation tpID path t (Done None, st) =
     (Done (TpReturns (None, Some (ErrorString ''tp-instance-allocation-failed'')), t), st)"
  "finish_creation tpID path t (Done (Some inst), st) =
     (Done (TpReturns (Some inst, None), with_instance path inst t),
      st\<lparr>kv_ops := Suc (kv_ops st),
         kv_data := (kv_data st)(resource_instance_key path \<mapsto> KvResourceInstance (res_inst tpID inst))\<rparr>)"
  by (simp_all add: finish_creation_def)

lemma create_run:
  assumes "\<forall>n. F n = KvOk" "uniPortNameFormatRegexp name" "has_control t st tpID"
    and "tp = template_in_use t st tpID" "path = GetTechProfileInstanceKey t tpID name"
  obtains st1 where "kv_data st1 = kv_data st"
    "CreateTechProfileInstance F tpID name intf t st =
       finish_creation tpID path (with_template tpID tp t)
         (allocateTPInstance F (with_template tpID tp t) name tp intf path st1)"
proof -
  obtain st1 where st1: "chosen_template F t tpID st = (Done tp, st1)" "kv_data st1 = kv_data st"
    using chosen_template_run [OF assms(1,3)] assms(4) by blast
  have key: "GetTechProfileInstanceKey (t\<lparr>tm_tpMap := x, tm_tpInstanceMap := y\<rparr>) = GetTechProfileInstanceKey t" for x y
    by (simp add: GetTechProfileInstanceKey_def fun_eq_iff)
  have "CreateTechProfileInstance F tpID name intf t st =
       finish_creation tpID path (with_template tpID tp t)
         (allocateTPInstance F (with_template tpID tp t) name tp intf path st1)"
    using st1 assms(1,2,5) key
    by (auto simp: CreateTechProfileInstance_def kvm_defs addResourceInstanceToKVStore_def kv_Put_def kv_write_def
        with_template_def with_instance_def Let_def finish_creation_def split: prod.split outcome.split option.split)
  with st1(2) that show thesis by blast
qed

text \<open>The allocation on a working store.\<close>

lemma alloc_gem_keys: "mgr_ready (tm_resourceMgr t) \<Longrightarrow> alloc_key t i \<noteq> gem_key t j"
  using pool_key_inj [of "tm_resourceMgr t" "tm_resourceMgr t" "''ALLOC_ID''" "''GEMPORT_ID''" i j]
  by (auto simp: alloc_key_def gem_key_def resource_types_def)

lemma pool_keys_apart:
  assumes "mgr_ready (tm_resourceMgr t)"
  shows "alloc_key t i \<noteq> resource_instance_key s" "gem_key t i \<noteq> resource_instance_key s"
    "tp_kv_key t tpID \<noteq> alloc_key t i" "tp_kv_key t tpID \<noteq> gem_key t i" "tp_kv_key t tpID \<noteq> resource_instance_key s"
proof -
  have "''ALLOC_ID'' \<in> resource_types" "''GEMPORT_ID'' \<in> resource_types" by (simp_all add: resource_types_def)
  then obtain p p' where p: "alloc_key t i = full_key (tm_resourceMgr t) p" "gem_key t i = full_key (tm_resourceMgr t) p'"
    using ready_key [OF assms] unfolding alloc_key_def gem_key_def by metis
  then show "alloc_key t i \<noteq> resource_instance_key s" "gem_key t i \<noteq> resource_instance_key s"
    by (simp_all add: instance_key_no_pool)
  show "tp_kv_key t tpID \<noteq> alloc_key t i" "tp_kv_key t tpID \<noteq> gem_key t i"
    using p by (simp_all add: tp_kv_key_def full_key_def)
  show "tp_kv_key t tpID \<noteq> resource_instance_key s" by (simp add: tp_kv_key_def resource_instance_key_def)
qed

text \<open>GEM ports once there is an alloc ID.\<close>

lemma allocate_gems:
  assumes "\<forall>n. F n = KvOk" "mgr_ready (tm_resourceMgr t)" "usable tp"
    and "kv_data st (gem_key t intf) = Some (KvResource r)" "pool_inv r"
    and "tcont_ids F t tp intf path st0 = (Done (Some [a]), st)"
  shows "if unat (tpl_NumGemPorts tp) \<le> card (free_ids r)
     then \<exists>gems r'. allocateTPInstance F t name tp intf path st0 = (Done (Some (instance_of name tp a gems)),
         st\<lparr>kv_ops := Suc (Suc (kv_ops st)), kv_data := (kv_data st)(gem_key t intf \<mapsto> KvResource r')\<rparr>) \<and>
       length gems = unat (tpl_NumGemPorts tp) \<and> distinct gems \<and> set gems \<subseteq> free_ids r \<and> pool_taken r' = pool_taken r \<union> set gems \<and>
       pool_ids r' = pool_ids r \<and> pool_inv r'
     else allocateTPInstance F t name tp intf path st0 = (Done None, st\<lparr>kv_ops := Suc (kv_ops st)\<rparr>)"
proof -
  have n: "1 \<le> tpl_NumGemPorts tp" using assms(3) by (simp add: usable_def)
  show ?thesis
  proof (cases "unat (tpl_NumGemPorts tp) \<le> card (free_ids r)")
    case True
    then obtain gems r' where g: "tp_GetResourceID F (tm_resourceMgr t) intf ''GEMPORT_ID'' (tpl_NumGemPorts tp) st =
        (Done (gems, None), st\<lparr>kv_ops := Suc (Suc (kv_ops st)), kv_data := (kv_data st)(gem_key t intf \<mapsto> KvResource r')\<rparr>)"
      "length gems = unat (tpl_NumGemPorts tp)" "distinct gems" "set gems \<subseteq> free_ids r" "pool_taken r' = pool_taken r \<union> set gems"
      "pool_ids r' = pool_ids r" "pool_inv r'"
      using take_available [OF assms(2) _ assms(1) n, of "''GEMPORT_ID''" st intf r] assms(4,5)
      by (auto simp: gem_key_def free_ids_def)
    have "allocateTPInstance F t name tp intf path st0 = (Done (Some (instance_of name tp a gems)),
         st\<lparr>kv_ops := Suc (Suc (kv_ops st)), kv_data := (kv_data st)(gem_key t intf \<mapsto> KvResource r')\<rparr>)"
      using assms(6) g(1) build_instance_usable [OF assms(3) g(2)] by (simp add: allocateTPInstance_def kvm_defs)
    with True g show ?thesis by auto
  next
    case False
    then show ?thesis
      using take_available [OF assms(2) _ assms(1) n, of "''GEMPORT_ID''" st intf r] assms(4-6)
      by (simp add: gem_key_def free_ids_def allocateTPInstance_def kvm_defs)
  qed
qed

lemma tcont_new:
  assumes "\<forall>n. F n = KvOk" "mgr_ready (tm_resourceMgr t)" "usable tp" "shares t tp path = None"
    and "kv_data st (alloc_key t intf) = Some (KvResource r)" "pool_inv r"
  shows "if free_ids r \<noteq> {}
     then \<exists>a r'. tcont_ids F t tp intf path st = (Done (Some [a]),
         st\<lparr>kv_ops := Suc (Suc (kv_ops st)), kv_data := (kv_data st)(alloc_key t intf \<mapsto> KvResource r')\<rparr>) \<and>
       a \<in> free_ids r \<and> pool_taken r' = insert a (pool_taken r) \<and> pool_ids r' = pool_ids r \<and> pool_inv r'
     else tcont_ids F t tp intf path st = (Done None, st\<lparr>kv_ops := Suc (kv_ops st)\<rparr>)"
proof -
  obtain ctl where ctl: "tpl_InstanceControl tp = Some ctl" using assms(3) by (auto simp: usable_def split: option.splits)
  have t: "tcont_ids F t tp intf path = kbind (tp_GetResourceID F (tm_resourceMgr t) intf ''ALLOC_ID'' 1) (\<lambda>(ids, err).
      kret (if err \<noteq> None then None else Some ids))"
    using ctl assms(4) by (auto simp: tcont_ids_def Let_def shares_def split: if_splits)
  have one: "1 \<le> card (free_ids r) \<longleftrightarrow> free_ids r \<noteq> {}"
    by (simp add: Suc_le_eq card_gt_0_iff free_ids_def pool_ids_def)
  show ?thesis
  proof (cases "free_ids r = {}")
    case False
    with one take_available [OF assms(2) _ assms(1), of "''ALLOC_ID''" 1 st intf r] assms(5,6)
    obtain ids r' where g: "tp_GetResourceID F (tm_resourceMgr t) intf ''ALLOC_ID'' 1 st =
        (Done (ids, None), st\<lparr>kv_ops := Suc (Suc (kv_ops st)), kv_data := (kv_data st)(alloc_key t intf \<mapsto> KvResource r')\<rparr>)"
      "length ids = 1" "set ids \<subseteq> free_ids r" "pool_taken r' = pool_taken r \<union> set ids" "pool_ids r' = pool_ids r" "pool_inv r'"
      by (auto simp: alloc_key_def free_ids_def)
    from g(2) obtain a where "ids = [a]" by (cases ids) auto
    with g False show ?thesis unfolding t by (auto simp: kvm_defs)
  next
    case True
    with one take_available [OF assms(2) _ assms(1), of "''ALLOC_ID''" 1 st intf r] assms(5,6)
    show ?thesis unfolding t by (simp add: kvm_defs alloc_key_def free_ids_def)
  qed
qed


text \<open>A history of creations on one manager: the instances with their ports, up to a fatal log entry.\<close>

fun run_creates ::
  "(nat \<Rightarrow> kv_answer) \<Rightarrow> (uint32 \<times> string \<times> uint32) list \<Rightarrow> TechProfileMgr \<Rightarrow> (uint32 \<times> TechProfileInstance) list kvm" where
  "run_creates F [] t = kret []"
| "run_creates F ((tpID, name, intf) # reqs) t =
     kbind (CreateTechProfileInstance F tpID name intf t) (\<lambda>(e, t').
     case e of
       TpExits \<Rightarrow> kret []
     | TpReturns (r, err) \<Rightarrow>
         kbind (run_creates F reqs t') (\<lambda>rest.
         kret (case r of None \<Rightarrow> rest | Some inst \<Rightarrow> (intf, inst) # rest)))"

definition gem_list :: "TechProfileMgr \<Rightarrow> (uint32 \<times> TechProfileInstance) list \<Rightarrow> (string \<times> uint32) list" where
  "gem_list t insts = concat (map (\<lambda>(intf, inst). map (Pair (gem_key t intf)) (gem_ids inst)) insts)"

lemma gem_list_simps [simp]:
  "gem_list t [] = []"
  "gem_list t ((intf, inst) # insts) = map (Pair (gem_key t intf)) (gem_ids inst) @ gem_list t insts"
  by (simp_all add: gem_list_def)

lemma run_creates_fresh:
  assumes "mgr_ready (tm_resourceMgr t)" "store_inv st" "run_creates F reqs t st = (Done insts, st')"
  shows "distinct (gem_list t insts) \<and> (\<forall>(k, g) \<in> set (gem_list t insts). g \<notin> taken_at st k)"
  using assms
proof (induction F reqs t arbitrary: st insts st' rule: run_creates.induct)
  case (1 F t)
  then show ?case by (simp add: kret_def)
next
  case (2 F tpID name intf reqs t)
  obtain r st1 where 1: "CreateTechProfileInstance F tpID name intf t st = (r, st1)"
    "case r of
        Crashed p \<Rightarrow> True
      | Done (e, t') \<Rightarrow> tm_resourceMgr t' = tm_resourceMgr t \<and>
          (case e of
             TpExits \<Rightarrow> True
           | TpReturns (None, err) \<Rightarrow> grows st st1
           | TpReturns (Some inst, err) \<Rightarrow> err = None \<and> grows st st1 \<and> fresh_instance st st1 (gem_key t intf) inst)"
    using create_step [OF 2(2,3), of F tpID name intf] by blast
  from 2(4) 1(1) obtain e t1 where r: "r = Done (e, t1)" by (cases r) (auto simp: kbind_def)
  show ?case
  proof (cases e)
    case TpExits
    with 2(4) 1(1) r show ?thesis by (simp add: kvm_defs)
  next
    case (TpReturns x)
    obtain inst err where x: "x = (inst, err)" by (cases x)
    from 2(4) 1(1) r TpReturns x obtain rest where rest: "run_creates F reqs t1 st1 = (Done rest, st')"
      "insts = (case inst of None \<Rightarrow> rest | Some i \<Rightarrow> (intf, i) # rest)"
      by (auto simp: kvm_defs split: prod.splits outcome.splits)
    have g: "grows st st1" "tm_resourceMgr t1 = tm_resourceMgr t" using 1(2) r TpReturns x by (auto split: option.splits)
    then have "store_inv st1" "gem_key t1 = gem_key t" "gem_list t1 = gem_list t"
      by (simp_all add: grows_def gem_key_def gem_list_def fun_eq_iff)
    with 2(1) [OF refl refl _ _ rest(1)] TpReturns x 2(2) g(2)
    have ih: "distinct (gem_list t rest)" "\<forall>(k, g) \<in> set (gem_list t rest). g \<notin> taken_at st1 k" by auto
    have key: "\<exists>p. gem_key t i = full_key (tm_resourceMgr t) p" for i
      using ready_key [OF 2(2), of "''GEMPORT_ID''" i] by (simp add: gem_key_def resource_types_def)
    have keys: "\<exists>i. k = gem_key t i" if "(k, u) \<in> set (gem_list t rest)" for k u
      using that by (auto simp: gem_list_def)
    have old: "u \<notin> taken_at st k" if "(k, u) \<in> set (gem_list t rest)" for k u
      using ih(2) that keys [OF that] key g(1) unfolding grows_def by (metis case_prodD subsetD)
    show ?thesis
    proof (cases inst)
      case None
      with rest(2) ih(1) old show ?thesis by auto
    next
      case (Some i)
      have f: "fresh_instance st st1 (gem_key t intf) i" using 1(2) r TpReturns x Some by simp
      have "(gem_key t intf, u) \<notin> set (gem_list t rest)" if "u \<in> set (gem_ids i)" for u
        using ih(2) f that unfolding fresh_instance_def by blast
      then show ?thesis
        using f ih(1) old rest(2) Some by (auto simp: fresh_instance_def distinct_map inj_on_def)
    qed
  qed
qed

text \<open>A manager without instances, and a store with its two pools, for the evaluations.\<close>

definition sample_tm :: TechProfileMgr where
  "sample_tm = \<lparr>tm_resourceMgr = sample_prm, tm_tpInstanceMap = Map.empty, tm_tpMap = Map.empty\<rparr>"

definition gem_pool :: IdResource where
  "gem_pool = \<lparr>res_pon_intf_id = 0, res_start_idx = 1024, res_end_idx = 16, res_pool = [0x01, 0]\<rparr>"

definition tp_kv :: kv where
  "tp_kv = \<lparr>kv_data = [alloc_key sample_tm 0 \<mapsto> KvResource sample_pool, gem_key sample_tm 0 \<mapsto> KvResource gem_pool], kv_ops = 0\<rparr>"

lemma sample_tm_facts:
  "mgr_ready (tm_resourceMgr sample_tm)" "store_inv tp_kv" "alloc_key sample_tm 0 \<noteq> gem_key sample_tm i"
  "kv_data tp_kv (alloc_key sample_tm 0) = Some (KvResource sample_pool)"
  "kv_data tp_kv (gem_key sample_tm 0) = Some (KvResource gem_pool)"
  "pool_inv sample_pool" "pool_inv gem_pool" "alloc_key sample_tm 1 = alloc_key sample_tm 0"
  "free_ids gem_pool \<noteq> {}" "1 \<le> card (free_ids gem_pool)" "free_ids sample_pool \<noteq> {}"
proof -
  show r: "mgr_ready (tm_resourceMgr sample_tm)" by (simp add: sample_tm_def sample_facts)
  from alloc_gem_keys [OF r, of 0] show k: "alloc_key sample_tm 0 \<noteq> gem_key sample_tm i" for i by blast
  show "kv_data tp_kv (alloc_key sample_tm 0) = Some (KvResource sample_pool)"
    "kv_data tp_kv (gem_key sample_tm 0) = Some (KvResource gem_pool)" using k by (simp_all add: tp_kv_def)
  show "pool_inv sample_pool" "pool_inv gem_pool" by (simp_all add: sample_pool_def gem_pool_def pool_inv_def bm_Len_def)
  then show "store_inv tp_kv" by (auto simp: store_inv_def tp_kv_def)
  show "alloc_key sample_tm 1 = alloc_key sample_tm 0" by code_simp
  have "of_nat 8 + res_start_idx gem_pool \<in> free_ids gem_pool" "of_nat 8 + res_start_idx sample_pool \<in> free_ids sample_pool"
    unfolding free_ids_def Diff_iff
    using pool_index_free [OF \<open>pool_inv gem_pool\<close>, of 8] pool_index_free [OF \<open>pool_inv sample_pool\<close>, of 8]
    by (auto simp: pool_ids_def gem_pool_def sample_pool_def bm_Len_def used_def intro!: image_eqI [of _ _ 8])
  moreover have "finite (free_ids gem_pool)" by (simp add: free_ids_def pool_ids_def)
  ultimately show "free_ids gem_pool \<noteq> {}" "1 \<le> card (free_ids gem_pool)" "free_ids sample_pool \<noteq> {}"
    by (auto simp: Suc_le_eq card_gt_0_iff)
qed

text \<open>A manager with a single-instance template and the instance of UNI 0.\<close>

definition shared_template :: TechProfile where
  "shared_template = (getDefaultTechProfile sample_tm)\<lparr>tpl_InstanceControl :=
     Some \<lparr>ic_Onu = ''single-instance'', ic_Uni = ''single-instance'', ic_MaxGemPayloadSize = ''auto''\<rparr>\<rparr>"

definition shared_instance :: TechProfileInstance where
  "shared_instance = instance_of (UniPortName 0 1 0) shared_template 1030 [1024]"

definition shared_tm :: TechProfileMgr where
  "shared_tm = sample_tm\<lparr>tm_tpMap := [64 \<mapsto> shared_template],
     tm_tpInstanceMap := [GetTechProfileInstanceKey sample_tm 64 (UniPortName 0 1 0) \<mapsto> shared_instance]\<rparr>"

lemma sample_gpon: "pr_Technology (tm_resourceMgr sample_tm) \<in> gpon_family"
  by code_simp

section \<open>Properties\<close>

text \<open>
  C21: creating an instance on a working store, with a usable template and no alloc ID to share, has exactly three
  outcomes. With a free alloc ID and enough free GEM ports the instance is that of the template with this
  alloc ID in both schedulers and distinct free GEM ports in order; it is cached under its key, its resources are recorded in the
  store, and exactly these identifiers are taken. With no free alloc ID nothing changes. With a free alloc ID but too few GEM ports the
  creation fails and the alloc ID stays taken: no instance holds it and nothing gives it back.
\<close>

theorem create_instance:
  assumes "\<forall>n. F n = KvOk" "mgr_ready (tm_resourceMgr t)" "uniPortNameFormatRegexp name" "has_control t st tpID"
    and "kv_data st (alloc_key t intf) = Some (KvResource ra)" "pool_inv ra"
    and "kv_data st (gem_key t intf) = Some (KvResource rg)" "pool_inv rg"
  defines "tp \<equiv> template_in_use t st tpID" and "path \<equiv> GetTechProfileInstanceKey t tpID name"
  assumes "usable tp" "shares t tp path = None" "pr_Technology (tm_resourceMgr t) \<in> gpon_family"
  shows "\<exists>e t' st'. CreateTechProfileInstance F tpID name intf t st = (Done (e, t'), st') \<and>
     (if free_ids ra = {} then
        e = TpReturns (None, Some (ErrorString ''tp-instance-allocation-failed'')) \<and> kv_data st' = kv_data st \<and>
        tm_tpInstanceMap t' = tm_tpInstanceMap t
      else if card (free_ids rg) < unat (tpl_NumGemPorts tp) then
        e = TpReturns (None, Some (ErrorString ''tp-instance-allocation-failed'')) \<and>
        tm_tpInstanceMap t' = tm_tpInstanceMap t \<and>
        (\<exists>a ra'. a \<in> free_ids ra \<and> pool_taken ra' = insert a (pool_taken ra) \<and>
           kv_data st' = (kv_data st)(alloc_key t intf \<mapsto> KvResource ra'))
      else
        (\<exists>a ra' gems rg'. e = TpReturns (Some (instance_of name tp a gems), None) \<and>
           tm_tpInstanceMap t' = (tm_tpInstanceMap t)(path \<mapsto> instance_of name tp a gems) \<and>
           a \<in> free_ids ra \<and> pool_taken ra' = insert a (pool_taken ra) \<and>
           length gems = unat (tpl_NumGemPorts tp) \<and> distinct gems \<and> set gems \<subseteq> free_ids rg \<and>
           pool_taken rg' = pool_taken rg \<union> set gems \<and>
           kv_data st' = (kv_data st)(alloc_key t intf \<mapsto> KvResource ra', gem_key t intf \<mapsto> KvResource rg',
             resource_instance_key path \<mapsto> KvResourceInstance (res_inst tpID (instance_of name tp a gems)))))"
proof -
  let ?t1 = "with_template tpID tp t"
  have keys: "alloc_key ?t1 = alloc_key t" "gem_key ?t1 = gem_key t" "shares ?t1 = shares t"
    by (simp_all add: alloc_key_def gem_key_def shares_def fun_eq_iff)
  have maps: "tm_tpInstanceMap ?t1 = tm_tpInstanceMap t" by (simp add: with_template_def)
  obtain st1 where st1: "kv_data st1 = kv_data st"
    "CreateTechProfileInstance F tpID name intf t st = finish_creation tpID path ?t1 (allocateTPInstance F ?t1 name tp intf path st1)"
    using create_run [OF assms(1,3,4)] tp_def path_def by metis
  have ready: "mgr_ready (tm_resourceMgr ?t1)" using assms(2) by simp
  note tcont = tcont_new [OF assms(1) ready assms(11), of path st1 intf ra, unfolded keys st1(1), OF assms(12,5,6)]
  show ?thesis
  proof (cases "free_ids ra = {}")
    case True
    with tcont st1 maps show ?thesis by (simp add: allocateTPInstance_def kvm_defs)
  next
    case False
    with tcont obtain a ra' where a: "tcont_ids F ?t1 tp intf path st1 = (Done (Some [a]),
        st1\<lparr>kv_ops := Suc (Suc (kv_ops st1)), kv_data := (kv_data st)(alloc_key t intf \<mapsto> KvResource ra')\<rparr>)"
      "a \<in> free_ids ra" "pool_taken ra' = insert a (pool_taken ra)" by auto
    have gk: "kv_data (st1\<lparr>kv_ops := Suc (Suc (kv_ops st1)), kv_data := (kv_data st)(alloc_key t intf \<mapsto> KvResource ra')\<rparr>) (gem_key t intf) =
        Some (KvResource rg)"
      using alloc_gem_keys [OF assms(2), of intf intf] assms(7) by simp
    note gems = allocate_gems [OF assms(1) ready assms(11) _ assms(8) a(1), of name, unfolded keys, OF gk]
    show ?thesis
    proof (cases "card (free_ids rg) < unat (tpl_NumGemPorts tp)")
      case few: True
      then have "\<not> unat (tpl_NumGemPorts tp) \<le> card (free_ids rg)" by simp
      with False few gems st1(2) a maps show ?thesis by auto
    next
      case enough: False
      then have "unat (tpl_NumGemPorts tp) \<le> card (free_ids rg)" by simp
      with gems obtain gs rg' st2 where g:
        "allocateTPInstance F ?t1 name tp intf path st1 = (Done (Some (instance_of name tp a gs)), st2)"
        "kv_data st2 = (kv_data st)(alloc_key t intf \<mapsto> KvResource ra', gem_key t intf \<mapsto> KvResource rg')"
        "length gs = unat (tpl_NumGemPorts tp)" "distinct gs" "set gs \<subseteq> free_ids rg" "pool_taken rg' = pool_taken rg \<union> set gs"
        by auto
      have map: "tm_tpInstanceMap (with_instance path i ?t1) = (tm_tpInstanceMap t)(path \<mapsto> i)" for i
        by (simp add: with_instance_def with_template_def)
      let ?i = "instance_of name tp a gs"
      let ?st = "st2\<lparr>kv_ops := Suc (kv_ops st2),
        kv_data := (kv_data st2)(resource_instance_key path \<mapsto> KvResourceInstance (res_inst tpID ?i))\<rparr>"
      have "CreateTechProfileInstance F tpID name intf t st = (Done (TpReturns (Some ?i, None), with_instance path ?i ?t1), ?st)"
        using st1(2) g(1) by simp
      moreover have "kv_data ?st = (kv_data st)(alloc_key t intf \<mapsto> KvResource ra', gem_key t intf \<mapsto> KvResource rg',
          resource_instance_key path \<mapsto> KvResourceInstance (res_inst tpID ?i))" using g(2) by simp
      ultimately show ?thesis
        unfolding if_not_P [OF False] if_not_P [OF enough] using g(3-) a(2,3) map by blast
    qed
  qed
qed

lemma sample_template: "template_in_use sample_tm tp_kv tpID = getDefaultTechProfile sample_tm" "has_control sample_tm tp_kv tpID"
proof -
  have "tp_kv_key sample_tm tpID \<noteq> alloc_key sample_tm 0" "tp_kv_key sample_tm tpID \<noteq> gem_key sample_tm 0"
    using pool_keys_apart [OF sample_tm_facts(1)] by blast+
  then have "kv_data tp_kv (tp_kv_key sample_tm tpID) = None" by (simp add: tp_kv_def)
  then show "template_in_use sample_tm tp_kv tpID = getDefaultTechProfile sample_tm" "has_control sample_tm tp_kv tpID"
    by (simp_all add: template_in_use_def has_control_def sample_tm_def)
qed

lemma default_simps:
  "tpl_NumGemPorts (getDefaultTechProfile t) = 1" "shares t (getDefaultTechProfile t) path = None"
  by (simp_all add: getDefaultTechProfile_def Let_def DefaultPbits_def shares_def)

theorem create_instance_witness:
  "\<exists>inst t' st'. CreateTechProfileInstance (\<lambda>n. KvOk) 64 (UniPortName 0 1 0) 0 sample_tm tp_kv =
     (Done (TpReturns (Some inst, None), t'), st') \<and>
     tm_tpInstanceMap t' (GetTechProfileInstanceKey sample_tm 64 (UniPortName 0 1 0)) = Some inst \<and>
     length (gem_ids inst) = 1"
proof -
  have "card (free_ids gem_pool) \<noteq> 0" using sample_tm_facts(10) by linarith
  with create_instance [of "\<lambda>n. KvOk" sample_tm "UniPortName 0 1 0" tp_kv 64 0, OF _ sample_tm_facts(1) uni_port_name_conforms
      sample_template(2) sample_tm_facts(4,6,5,7)] sample_tm_facts(11) sample_gpon
  obtain t' st' a gems where r: "CreateTechProfileInstance (\<lambda>n. KvOk) 64 (UniPortName 0 1 0) 0 sample_tm tp_kv =
      (Done (TpReturns (Some (instance_of (UniPortName 0 1 0) (getDefaultTechProfile sample_tm) a gems), None), t'), st')"
    "tm_tpInstanceMap t' = (tm_tpInstanceMap sample_tm)(GetTechProfileInstanceKey sample_tm 64 (UniPortName 0 1 0) \<mapsto>
       instance_of (UniPortName 0 1 0) (getDefaultTechProfile sample_tm) a gems)" "length gems = 1"
    by (auto simp: sample_template default_usable default_simps)
  have "length (gem_ids (instance_of (UniPortName 0 1 0) (getDefaultTechProfile sample_tm) a gems)) = 1"
    using r(3) by (simp add: gem_ids_instance [OF default_usable] default_simps)
  with r show ?thesis by (metis fun_upd_same)
qed

text \<open>
  C22: over any history of creations through one manager, for any subscribers, profiles and ports and whatever the store
  answers, no GEM port is in two instances, or twice in one: the GEM ports of all the instances that were
  returned, each with the key of its pool, are distinct.
\<close>

theorem gem_ports_disjoint:
  assumes "mgr_ready (tm_resourceMgr t)" "store_inv st" "run_creates F reqs t st = (Done insts, st')"
    and "pr_Technology (tm_resourceMgr t) \<in> gpon_family"
  shows "distinct (gem_list t insts)"
  using run_creates_fresh [OF assms(1-3)] by blast

theorem gem_ports_disjoint_witness:
  "\<exists>insts st'. run_creates (\<lambda>n. KvOk) [(64, UniPortName 0 1 0, 0), (64, UniPortName 0 1 1, 0)] sample_tm tp_kv =
     (Done insts, st') \<and> distinct (gem_list sample_tm insts) \<and> map snd (gem_list sample_tm insts) = [1025, 1026]"
proof -
  let ?r = "run_creates (\<lambda>n. KvOk) [(64, UniPortName 0 1 0, 0), (64, UniPortName 0 1 1, 0)] sample_tm tp_kv"
  have "(case fst ?r of Done insts \<Rightarrow> map snd (gem_list sample_tm insts) = [1025, 1026] | Crashed p \<Rightarrow> False)" by code_simp
  then obtain insts where i: "fst ?r = Done insts" "map snd (gem_list sample_tm insts) = [1025, 1026]"
    by (auto split: outcome.splits)
  then have r: "?r = (Done insts, snd ?r)" by (metis prod.collapse)
  from gem_ports_disjoint [OF sample_tm_facts(1,2) r sample_gpon] i(2) r show ?thesis by (intro exI conjI)
qed

text \<open>
  C32: with a template that is single-instance for the ONU, UNIs of an ONU share an alloc ID: when some UNI below 16 of the
  ONU has an instance, the new instance takes the alloc ID of the instance of the first such UNI, and none from the pool.
\<close>

theorem shared_alloc:
  assumes "\<forall>n. F n = KvOk" "mgr_ready (tm_resourceMgr t)" "has_control t st tpID"
    and "kv_data st (gem_key t intf) = Some (KvResource rg)" "pool_inv rg"
  defines "tp \<equiv> template_in_use t st tpID"
  assumes "usable tp" "ic_Onu (the (tpl_InstanceControl tp)) = ''single-instance''"
    and "unat (tpl_NumGemPorts tp) \<le> card (free_ids rg)"
    and "v < 16" "\<forall>v' < v. tm_tpInstanceMap t (GetTechProfileInstanceKey t tpID (UniPortName p onu (of_nat v'))) = None"
    and "tm_tpInstanceMap t (GetTechProfileInstanceKey t tpID (UniPortName p onu (of_nat v))) = Some other"
    and "tp_UsScheduler other = Some sched" "pr_Technology (tm_resourceMgr t) \<in> gpon_family"
  shows "\<exists>gems t' st'. CreateTechProfileInstance F tpID (UniPortName p onu u) intf t st =
       (Done (TpReturns (Some (instance_of (UniPortName p onu u) tp (sa_AllocId sched) gems), None), t'), st') \<and>
     kv_data st' (alloc_key t intf) = kv_data st (alloc_key t intf)"
proof -
  let ?path = "GetTechProfileInstanceKey t tpID (UniPortName p onu u)" and ?t1 = "with_template tpID tp t"
  have key: "GetTechProfileInstanceKey t tpID (UniPortName p onu (of_nat i)) = uni_key (onu_path t tpID p onu) i" if "i < 16" for i
    using that by (simp add: instance_key_uni unat_of_nat take_bit_nat_eq_self)
  have "List.find (\<lambda>i. tm_tpInstanceMap t (uni_key (onu_path t tpID p onu) i) \<noteq> None) [0..<16] = Some v"
    unfolding find_Some_iff
  proof (intro exI [of _ v] conjI allI impI)
    fix j assume j: "j < v"
    then have "tm_tpInstanceMap t (uni_key (onu_path t tpID p onu) j) = None"
      using assms(11) key [of j] assms(10) by (metis less_trans)
    with j assms(10) show "\<not> tm_tpInstanceMap t (uni_key (onu_path t tpID p onu) ([0..<16] ! j)) \<noteq> None" by simp
  qed (use assms(10,12) key [OF assms(10)] in simp_all)
  then have "getSingleInstanceTp t ?path = Some other"
    using assms(12) key [OF assms(10)]
    by (simp add: getSingleInstanceTp_def instance_key_uni find_instance_find MaxUniPortPerOnu_def)
  moreover obtain ctl where "tpl_InstanceControl tp = Some ctl" using assms(7) by (auto simp: usable_def split: option.splits)
  ultimately have tcont: "tcont_ids F ?t1 tp intf ?path st1 = (Done (Some [sa_AllocId sched]), st1)" for st1
    using assms(8,13) by (simp add: tcont_ids_def Let_def kvm_defs)
  obtain st1 where st1: "kv_data st1 = kv_data st"
    "CreateTechProfileInstance F tpID (UniPortName p onu u) intf t st =
       finish_creation tpID ?path ?t1 (allocateTPInstance F ?t1 (UniPortName p onu u) tp intf ?path st1)"
    using create_run [OF assms(1) uni_port_name_conforms assms(3)] tp_def by metis
  have ready: "mgr_ready (tm_resourceMgr ?t1)" and gk: "gem_key ?t1 = gem_key t" using assms(2) by (simp_all add: gem_key_def fun_eq_iff)
  obtain gems r' where g: "allocateTPInstance F ?t1 (UniPortName p onu u) tp intf ?path st1 =
       (Done (Some (instance_of (UniPortName p onu u) tp (sa_AllocId sched) gems)),
        st1\<lparr>kv_ops := Suc (Suc (kv_ops st1)), kv_data := (kv_data st1)(gem_key t intf \<mapsto> KvResource r')\<rparr>)"
    using allocate_gems [OF assms(1) ready assms(7) _ assms(5) tcont [of st1], where name = "UniPortName p onu u"] st1(1) assms(4,9) gk by auto
  have "alloc_key t intf \<noteq> resource_instance_key ?path"
    by (rule pool_keys_apart(1) [OF assms(2)])
  with g st1 alloc_gem_keys [OF assms(2), of intf intf] show ?thesis by auto
qed

theorem shared_alloc_witness:
  "\<exists>gems t' st'. CreateTechProfileInstance (\<lambda>n. KvOk) 64 (UniPortName 0 1 20) 0 shared_tm tp_kv =
       (Done (TpReturns (Some (instance_of (UniPortName 0 1 20) shared_template 1030 gems), None), t'), st') \<and>
     kv_data st' (alloc_key shared_tm 0) = kv_data tp_kv (alloc_key shared_tm 0)"
proof -
  have "usable shared_template"
    by (simp add: usable_def shared_template_def getDefaultTechProfile_def Let_def DefaultPbits_def validateInstanceControlAttr_def
        unicast_def default_gem_def isMulticastGem_def)
  moreover have "template_in_use shared_tm tp_kv 64 = shared_template" "has_control shared_tm tp_kv 64"
    using calculation by (auto simp: template_in_use_def has_control_def shared_tm_def valid_def usable_def split: option.splits)
  moreover have "tpl_NumGemPorts shared_template = 1" by (simp add: shared_template_def default_simps)
  moreover have "gem_key shared_tm 0 = gem_key sample_tm 0" "alloc_key shared_tm 0 = alloc_key sample_tm 0" "mgr_ready (tm_resourceMgr shared_tm)"
    using sample_tm_facts(1) by (simp_all add: gem_key_def alloc_key_def shared_tm_def)
  moreover have "pr_Technology (tm_resourceMgr shared_tm) \<in> gpon_family" using sample_gpon by (simp add: shared_tm_def)
  moreover have "GetTechProfileInstanceKey shared_tm = GetTechProfileInstanceKey sample_tm"
    by (simp add: shared_tm_def GetTechProfileInstanceKey_def fun_eq_iff)
  ultimately show ?thesis
    using shared_alloc [where F = "\<lambda>n. KvOk" and t = shared_tm and tpID = 64 and st = tp_kv and intf = 0 and
        rg = gem_pool and v = 0 and p = 0 and onu = 1 and other = shared_instance and u = 20 and
        sched = "the (tp_UsScheduler shared_instance)"] sample_tm_facts(5,7,10)
    by (auto simp: shared_tm_def shared_template_def shared_instance_def instance_of_def)
qed

end
