(* ===== verification/Tp_Lifecycle.thy ===== *)
theory Tp_Lifecycle
  imports Tp_Creation
begin

text \<open>
  The technology profile manager beside the rest of the program: a failed record of an instance, a restart that reads the
  instances back from the store, and subscribers that are started with this manager as their profile library.
\<close>

section \<open>The library as the environment of the subscribers\<close>

text \<open>
  The answers of a manager to the calls of a run: the calls so far are replayed, then the next is
  answered. A panic or a fatal log entry ends the process; it is answered with a nil interface, on which the caller
  panics in turn.
\<close>

fun lib_replay ::
  "(nat \<Rightarrow> kv_answer) \<Rightarrow> tp_req list \<Rightarrow> TechProfileMgr \<times> kv \<Rightarrow> TechProfileMgr \<times> kv" where
  "lib_replay F [] (t, st) = (t, st)"
| "lib_replay F (r # calls) (t, st) =
     (case CreateTechProfileInstance F (tr_tpID r) (tr_uniPortName r) (tr_intfID r) t st of
        (Done (e, t'), st') \<Rightarrow> lib_replay F calls (t', st')
      | (Crashed p, st') \<Rightarrow> lib_replay F calls (t, st'))"

definition library_answers :: "(nat \<Rightarrow> kv_answer) \<Rightarrow> TechProfileMgr \<Rightarrow> kv \<Rightarrow> tp_req list \<Rightarrow> tp_req \<Rightarrow> tp_result" where
  "library_answers F t st calls r =
     (let (t', st') = lib_replay F calls (t, st)
      in case CreateTechProfileInstance F (tr_tpID r) (tr_uniPortName r) (tr_intfID r) t' st' of
           (Done (TpReturns res, _), _) \<Rightarrow> res
         | _ \<Rightarrow> (None, None))"

section \<open>Lemmas\<close>

definition paired_schedulers :: "TechProfileInstance \<Rightarrow> bool" where
  "paired_schedulers inst \<longleftrightarrow>
     (case (tp_UsScheduler inst, tp_DsScheduler inst) of
        (Some us, Some ds) \<Rightarrow> sa_AllocId us = sa_AllocId ds
      | _ \<Rightarrow> False)"

lemma kbind_DoneE:
  assumes "kbind m f st = (Done y, st')"
  obtains x st1 where "m st = (Done x, st1)" "f x st1 = (Done y, st')"
  using assms by (auto simp: kbind_def split: prod.splits outcome.splits)

lemma allocate_paired:
  assumes "allocateTPInstance F t name tp intf path st = (Done (Some inst), st')"
  shows "paired_schedulers inst"
  using assms
  by (auto simp: allocateTPInstance_def kret_def klift_def paired_schedulers_def elim!: kbind_DoneE
      split: option.splits prod.splits if_splits list.splits dest!: build_instance_result)

text \<open>Whatever is returned with an instance has a nil error, and a nil instance comes with one of two errors.\<close>

lemma create_returns:
  assumes "CreateTechProfileInstance F tpID name intf t st = (Done (TpReturns (r, err), t'), st')"
  shows "case r of
     Some inst \<Rightarrow> err = None \<and> paired_schedulers inst
   | None \<Rightarrow> err = Some (ErrorString (''uni-port-name-not-confirming-to-format-'' @ name)) \<or>
       err = Some (ErrorString ''tp-instance-allocation-failed'')"
  using assms
  by (auto simp: CreateTechProfileInstance_def kret_def Let_def elim!: kbind_DoneE
      split: option.splits prod.splits if_splits dest!: allocate_paired)

lemma library_answers_cases:
  "library_answers F t st calls r = (Some inst, err) \<Longrightarrow> err = None \<and> paired_schedulers inst"
  by (auto simp: library_answers_def Let_def split: prod.splits outcome.splits tp_end.splits dest!: create_returns)

text \<open>The loop of \<open>Subscriber.Start\<close> with a library whose instances come with a nil error.\<close>

lemma create_tp_instances_all:
  assumes "\<And>h r inst err. tp_store E h r = (Some inst, err) \<Longrightarrow> err = None \<and> P inst"
    and "run E (create_tp_instances ids subs) w = (Done (s, flag), w')"
  shows "flag \<and> s = subs\<lparr>TpInstance := TpInstance s\<rparr> \<and> dom (TpInstance s) = dom (TpInstance subs) \<union> set ids \<and>
     (\<forall>k inst. TpInstance s k = Some inst \<longrightarrow> TpInstance subs k = Some inst \<or> P inst)"
  using assms(2)
proof (induction ids arbitrary: subs w)
  case (Cons tpID ids)
  let ?r = "\<lparr>tr_tpID = of_int tpID, tr_uniPortName = UniPortName (PonIntf subs) (OnuID subs) (UniID subs), tr_intfID = PonIntf subs\<rparr>"
  obtain i err where a: "tp_store E (tp_calls w) ?r = (i, err)" by (cases "tp_store E (tp_calls w) ?r")
  with Cons.prems obtain inst where i: "i = Some inst" by (cases i) (auto simp: Let_def)
  with a assms(1) have p: "err = None" "P inst" by blast+
  let ?s = "subs\<lparr>TpInstance := (TpInstance subs)(tpID \<mapsto> inst)\<rparr>"
  from Cons.prems a i p(1) have "run E (create_tp_instances ids ?s) (w\<lparr>tp_calls := tp_calls w @ [?r]\<rparr>) = (Done (s, flag), w')"
    by (simp add: Let_def)
  from Cons.IH [OF this] p(2) show ?case by (auto split: if_splits)
qed simp

text \<open>The keys of instances have the format that a restart expects, for the technologies it knows.\<close>

lemma is_tech_char_simps [simp]: "\<not> is_tech_char (CHR ''/'')"
  by (simp add: is_tech_char_def)

lemma instance_key_format:
  assumes "pr_Technology (tm_resourceMgr t) \<in> gpon_family" "uniPortNameFormatRegexp name"
  shows "keySuffixFormatRegexp (GetTechProfileInstanceKey t tpID name)"
proof -
  let ?tech = "pr_Technology (tm_resourceMgr t)" and ?r = "''/'' @ FormatUint (unat tpID) @ ''/'' @ name"
  have "field [] is_tech_char (Some (?tech @ ?r)) = Some ?r"
    using assms(1) by (auto simp: gpon_family_def field_def is_tech_char_def)
  moreover have "field ''/'' is_digit (Some (''/'' @ FormatUint (unat tpID) @ (''/'' @ name))) = Some (''/'' @ name)"
    by (rule field_digits) simp
  ultimately show ?thesis
    using assms(2) by (simp add: keySuffixFormatRegexp_def uniPortNameFormatRegexp_def GetTechProfileInstanceKey_def)
qed

text \<open>What is recorded of an instance, together with its template, gives the instance again.\<close>

lemma rebuild_instance:
  assumes "usable tp" "length gems = unat (tpl_NumGemPorts tp)"
  shows "buildTpInstanceFromResourceInstance tp (res_inst tpID (instance_of name tp a gems)) =
     Done (Some (instance_of name tp a gems))"
proof -
  have "ri_GemportIds (res_inst tpID (instance_of name tp a gems)) = gems"
    using gem_ids_instance [OF assms] by (simp add: res_inst_def gem_ids_def)
  moreover have "ri_SubscriberIdentifier (res_inst tpID (instance_of name tp a gems)) = name"
    "ri_AllocId (res_inst tpID (instance_of name tp a gems)) = a"
    by (simp_all add: res_inst_def instance_of_def)
  ultimately show ?thesis
    using build_instance_usable [OF assms] assms(2) by (simp add: buildTpInstanceFromResourceInstance_def)
qed

text \<open>The stored template, when it is one that a creation accepts.\<close>

definition stored_template :: "TechProfileMgr \<Rightarrow> kv \<Rightarrow> uint32 \<Rightarrow> TechProfile option" where
  "stored_template t st tpID =
     (case kv_data st (tp_kv_key t tpID) of
        Some (KvProfile tp) \<Rightarrow> if valid tp then Some tp else None
      | Some KvNull \<Rightarrow> None
      | _ \<Rightarrow> Some (getDefaultTechProfile t))"

lemma stored_template_cong:
  assumes "tm_resourceMgr t' = tm_resourceMgr t" "kv_data st' (tp_kv_key t tpID) = kv_data st (tp_kv_key t tpID)"
  shows "stored_template t' st' tpID = stored_template t st tpID"
proof -
  have "tp_kv_key t' = tp_kv_key t" "getDefaultTechProfile t' = getDefaultTechProfile t"
    using assms(1) by (simp_all add: tp_kv_key_def getDefaultTechProfile_def fun_eq_iff)
  with assms(2) show ?thesis by (simp only: stored_template_def)
qed

lemma template_kept:
  assumes "tm_tpMap t tpID = None" "stored_template t st tpID = Some tp"
  shows "template_in_use t st tpID = tp" "has_control t st tpID"
  using assms
  by (auto simp: stored_template_def template_in_use_def has_control_def valid_def split: option.splits kv_value.splits if_splits)

lemma template_read:
  assumes "\<forall>n. F n = KvOk" "tm_tpMap t tpID = None" "stored_template t st tpID = Some tp"
  shows "\<exists>r. getTPFromKVStore F t tpID st = (Done r, st\<lparr>kv_ops := Suc (kv_ops st)\<rparr>) \<and>
     (case r of None \<Rightarrow> getDefaultTechProfile t | Some tp \<Rightarrow> tp) = tp"
  using assms
  by (auto simp: getTPFromKVStore_def kvm_defs kv_Get_def stored_template_def split: option.splits kv_value.splits if_splits)

text \<open>An allocation changes nothing in the store but the two pools.\<close>

lemma take_frame:
  assumes "mgr_ready m" "rt \<in> {''ALLOC_ID'', ''GEMPORT_ID''}" "store_inv st"
  shows "\<exists>ids err st'. tp_GetResourceID F m i rt n st = (Done (ids, err), st') \<and> store_inv st' \<and>
     (err = None \<longrightarrow> length ids = unat n) \<and> (\<forall>k. k \<noteq> pool_key m i rt \<longrightarrow> kv_data st' k = kv_data st k)"
proof -
  have rt: "rt \<in> resource_types" using assms(2) by (auto simp: resource_types_def)
  from GetResourceID_step [OF assms(1) rt assms(3), of F i n] assms(2) show ?thesis
    by (auto simp: tp_GetResourceID_def kvm_defs)
qed

lemma tcont_frame:
  assumes "mgr_ready (tm_resourceMgr t)" "store_inv st" "tcont_ids F t tp intf path st = (r, st')"
  shows "store_inv st' \<and> (\<forall>k. k \<noteq> alloc_key t intf \<longrightarrow> kv_data st' k = kv_data st k)"
  using take_frame [OF assms(1) _ assms(2), of "''ALLOC_ID''" F intf 1] assms(2,3)
  by (auto simp: tcont_ids_def Let_def kvm_defs alloc_key_def split: option.splits if_splits)

lemma allocate_built:
  assumes "mgr_ready (tm_resourceMgr t)" "store_inv st" "usable tp"
    and "allocateTPInstance F t name tp intf path st = (Done (Some inst), st')"
  shows "(\<exists>a gems. inst = instance_of name tp a gems \<and> length gems = unat (tpl_NumGemPorts tp)) \<and>
     (\<forall>k. k \<noteq> alloc_key t intf \<and> k \<noteq> gem_key t intf \<longrightarrow> kv_data st' k = kv_data st k)"
proof -
  from assms(4) obtain tconts st1 where 1: "tcont_ids F t tp intf path st = (Done (Some tconts), st1)"
    unfolding allocateTPInstance_def by (auto simp: kret_def elim!: kbind_DoneE split: option.splits)
  note f1 = tcont_frame [OF assms(1,2) 1]
  obtain gems err st2 where 2: "tp_GetResourceID F (tm_resourceMgr t) intf ''GEMPORT_ID'' (tpl_NumGemPorts tp) st1 = (Done (gems, err), st2)"
    "err = None \<longrightarrow> length gems = unat (tpl_NumGemPorts tp)" "\<forall>k. k \<noteq> gem_key t intf \<longrightarrow> kv_data st2 k = kv_data st1 k"
    using take_frame [OF assms(1), of "''GEMPORT_ID''" st1 F intf "tpl_NumGemPorts tp"] f1 by (auto simp: gem_key_def)
  have "err = None" "st' = st2" "\<exists>a. build_instance name tp a gems = Done inst"
    using assms(4) 1 2(1) by (auto simp: allocateTPInstance_def kvm_defs split: if_splits list.splits outcome.splits)
  with 2(2,3) f1 build_instance_usable [OF assms(3)] show ?thesis by fastforce
qed

text \<open>The pairs of one instance, read again.\<close>

lemma reconcile_same:
  assumes "\<forall>n. F n = KvOk" "tm_tpMap t tpID = None" "stored_template t st tpID = Some tp"
    and "inst = instance_of name tp a gems" "usable tp" "length gems = unat (tpl_NumGemPorts tp)"
    and "keySuffixFormatRegexp path" "\<forall>x \<in> set pairs. x = (resource_instance_key path, KvResourceInstance (res_inst tpID inst))"
  shows "\<exists>n. reconcile_pairs F pairs t st =
     (Done (if pairs = [] then t else with_instance path inst t), st\<lparr>kv_ops := n\<rparr>)"
  using assms(2,3,8)
proof (induction pairs arbitrary: t st)
  case (Cons x pairs)
  obtain r where r: "getTPFromKVStore F t tpID st = (Done r, st\<lparr>kv_ops := Suc (kv_ops st)\<rparr>)"
    "(case r of None \<Rightarrow> getDefaultTechProfile t | Some tp \<Rightarrow> tp) = tp" using template_read [OF assms(1) Cons.prems(1,2)] by blast
  have "ri_TpId (res_inst tpID inst) = tpID" by (simp add: res_inst_def)
  then have g: "getTpInstanceFromResourceInstance F t (res_inst tpID inst) st = (Done (Some inst), st\<lparr>kv_ops := Suc (kv_ops st)\<rparr>)"
    using r rebuild_instance [OF assms(5,6), of tpID name a] assms(4) by (simp add: getTpInstanceFromResourceInstance_def kvm_defs)
  have sfx: "strip (resource_instance_key []) (resource_instance_key path) = Some path"
    by (simp add: resource_instance_key_def)
  let ?t = "with_instance path inst t" and ?st = "st\<lparr>kv_ops := Suc (kv_ops st)\<rparr>"
  have "stored_template ?t ?st tpID = Some tp"
    using Cons.prems(2) stored_template_cong [of ?t t ?st tpID st] by simp
  moreover have "tm_tpMap ?t tpID = None" using Cons.prems(1) by (simp add: with_instance_def)
  ultimately obtain n where n: "reconcile_pairs F pairs ?t ?st = (Done (if pairs = [] then ?t else with_instance path inst ?t), ?st\<lparr>kv_ops := n\<rparr>)"
    using Cons.IH [of ?t ?st] Cons.prems(3) by auto
  have "with_instance path inst ?t = ?t" by (simp add: with_instance_def)
  with n g sfx Cons.prems(3) assms(7) show ?case
    by (auto simp: kbind_Done [where m = "getTpInstanceFromResourceInstance F t (res_inst tpID inst)", OF g] with_instance_def [symmetric])
qed (simp add: kret_def, metis kv.surjective kv.update_convs(2) old.unit.exhaust)

text \<open>What a creation leaves behind for a restart.\<close>

lemma creation_left:
  assumes "\<forall>n. F n = KvOk" "mgr_ready (tm_resourceMgr t)" "store_inv st" "uniPortNameFormatRegexp name"
    and "tm_tpMap t tpID = None" "stored_template t st tpID = Some tp" "usable tp"
    and "\<forall>s. kv_data st (resource_instance_key s) = None"
    and "CreateTechProfileInstance F tpID name intf t st = (Done (TpReturns (Some inst, None), t'), st')"
  obtains a gems where "inst = instance_of name tp a gems" "length gems = unat (tpl_NumGemPorts tp)"
    "\<And>n. stored_template \<lparr>tm_resourceMgr = tm_resourceMgr t, tm_tpInstanceMap = Map.empty, tm_tpMap = Map.empty\<rparr>
       (st'\<lparr>kv_ops := n\<rparr>) tpID = Some tp"
    "\<And>s. kv_data st' (resource_instance_key s) =
      (if s = GetTechProfileInstanceKey t tpID name then Some (KvResourceInstance (res_inst tpID inst)) else None)"
proof -
  let ?t0 = "\<lparr>tm_resourceMgr = tm_resourceMgr t, tm_tpInstanceMap = Map.empty, tm_tpMap = Map.empty\<rparr>"
  let ?path = "GetTechProfileInstanceKey t tpID name"
  note tmpl = template_kept [OF assms(5,6)]
  obtain st1 where st1: "kv_data st1 = kv_data st"
    "CreateTechProfileInstance F tpID name intf t st = finish_creation tpID ?path (with_template tpID tp t)
       (allocateTPInstance F (with_template tpID tp t) name tp intf ?path st1)"
    using create_run [OF assms(1,4) tmpl(2)] tmpl(1) by metis
  obtain st2 where st2: "allocateTPInstance F (with_template tpID tp t) name tp intf ?path st1 = (Done (Some inst), st2)"
    "kv_data st' = (kv_data st2)(resource_instance_key ?path \<mapsto> KvResourceInstance (res_inst tpID inst))"
    using st1(2) assms(9) by (auto simp: finish_creation_def split: prod.splits outcome.splits option.splits)
  have "store_inv st1" "mgr_ready (tm_resourceMgr (with_template tpID tp t))" using assms(2,3) st1(1) by (simp_all add: store_inv_def)
  from allocate_built [OF this(2,1) assms(7) st2(1)] obtain a gems where inst: "inst = instance_of name tp a gems"
    "length gems = unat (tpl_NumGemPorts tp)"
    and frame: "\<forall>k. k \<noteq> alloc_key t intf \<and> k \<noteq> gem_key t intf \<longrightarrow> kv_data st2 k = kv_data st k"
    using st1(1) by (auto simp: alloc_key_def gem_key_def)
  note apart = pool_keys_apart [OF assms(2)]
  have "kv_data st' (tp_kv_key t tpID) = kv_data st (tp_kv_key t tpID)" using frame apart st2(2) by (metis fun_upd_other)
  then have stored: "stored_template ?t0 (st'\<lparr>kv_ops := n\<rparr>) tpID = Some tp" for n
    using assms(6) stored_template_cong [of ?t0 t "st'\<lparr>kv_ops := n\<rparr>" tpID st] by simp
  have "kv_data st2 (resource_instance_key s) = None" for s
    using frame assms(8) apart(1,2) [of intf s] by metis
  then have "kv_data st' (resource_instance_key s) =
      (if s = ?path then Some (KvResourceInstance (res_inst tpID inst)) else None)" for s
    using st2(2) by (simp add: resource_instance_key_def)
  with that [OF inst stored] show thesis by blast
qed

section \<open>Properties\<close>

text \<open>
  C26: a subscriber that is started with this library, whatever the store answers and whatever was created before, either ends the process or has an instance with
  two schedulers of one alloc ID for every configured profile and is ready for its workflow. The exit that records
  the profile failure and leaves the wait group unsignalled is never taken.
\<close>

theorem subscriber_start_with_library:
  assumes "tp_store E = library_answers F t st"
    and "run E (Subscriber_Start subs) w = (Done (s, flag), w')"
    and "pr_Technology (tm_resourceMgr t) \<in> gpon_family"
  shows "flag \<and> dom (TpInstance s) = set (TpIDList (TestConfig subs)) \<and>
     (\<forall>inst \<in> ran (TpInstance s). paired_schedulers inst) \<and>
     (TpIDList (TestConfig subs) \<noteq> [] \<longrightarrow> ready s)"
proof -
  have all: "flag \<and> s = subs\<lparr>TpInstance := TpInstance s\<rparr> \<and> dom (TpInstance s) = {} \<union> set (TpIDList (TestConfig subs)) \<and>
      (\<forall>k inst. TpInstance s k = Some inst \<longrightarrow> None = Some inst \<or> paired_schedulers inst)"
    using create_tp_instances_all [of E paired_schedulers "TpIDList (TestConfig subs)" "subs\<lparr>TpInstance := Map.empty\<rparr>" w s flag w']
      assms library_answers_cases [of F t st] by (simp add: Subscriber_Start_def)
  then have eq: "s = subs\<lparr>TpInstance := TpInstance s\<rparr>" and rest: "flag" "dom (TpInstance s) = set (TpIDList (TestConfig subs))"
    "\<And>k inst. TpInstance s k = Some inst \<Longrightarrow> paired_schedulers inst" by auto
  have cfg: "TestConfig s = TestConfig subs" using arg_cong [OF eq, of TestConfig] by simp
  have "ready s" if "TpIDList (TestConfig subs) \<noteq> []"
  proof -
    from that rest(2) obtain inst where "TpInstance s (hd (TpIDList (TestConfig subs))) = Some inst"
      by (metis domD hd_in_set)
    with rest(3) [OF this] that cfg show ?thesis
      by (auto simp: ready_def paired_schedulers_def split: option.splits)
  qed
  with rest show ?thesis by (auto simp: ran_def)
qed

theorem subscriber_start_with_library_witness:
  "\<exists>s w'. run (accepting\<lparr>tp_store := library_answers (\<lambda>n. KvOk) sample_tm tp_kv\<rparr>)
     (Subscriber_Start (sample_subscriber ''TT'' 0 1)) world_init = (Done (s, True), w') \<and> ready s"
proof -
  let ?E = "accepting\<lparr>tp_store := library_answers (\<lambda>n. KvOk) sample_tm tp_kv\<rparr>"
  let ?q = "\<lparr>tr_tpID = 64, tr_uniPortName = UniPortName 0 1 0, tr_intfID = 0\<rparr>"
  have "case library_answers (\<lambda>n. KvOk) sample_tm tp_kv [] ?q of (Some i, None) \<Rightarrow> True | _ \<Rightarrow> False" by code_simp
  then obtain inst where "library_answers (\<lambda>n. KvOk) sample_tm tp_kv [] ?q = (Some inst, None)"
    by (auto split: prod.splits option.splits)
  then obtain s w' where r: "run ?E (Subscriber_Start (sample_subscriber ''TT'' 0 1)) world_init = (Done (s, True), w')"
    by (simp add: Subscriber_Start_def Let_def world_init_def)
  from subscriber_start_with_library [OF _ r sample_gpon] r show ?thesis by auto
qed

text \<open>
  C33: when the resources of a new instance cannot be recorded, the process ends with a fatal log entry, whatever becomes of the
  identifiers: also when both releases succeed and nothing is left to clean up. The list of errors that is tested for
  being empty always has two entries.
\<close>

theorem record_failure_exits:
  assumes "mgr_ready (tm_resourceMgr t)" "store_inv st" "uniPortNameFormatRegexp name"
    and "chosen_template F t tpID st = (Done tp, st1)"
    and "allocateTPInstance F (with_template tpID tp t) name tp intf (GetTechProfileInstanceKey t tpID name) st1 = (Done (Some inst), st2)"
    and "F (kv_ops st2) = KvFails err applied"
    and "pr_Technology (tm_resourceMgr t) \<in> gpon_family"
  shows "\<exists>t' st'. CreateTechProfileInstance F tpID name intf t st = (Done (TpExits, t'), st')"
proof -
  let ?path = "GetTechProfileInstanceKey t tpID name"
  obtain r st1' where s1: "chosen_template F t tpID st = (r, st1')" "kv_data st1' = kv_data st" using chosen_template_data by blast
  then have inv1: "store_inv st1" using assms(2,4) by (simp add: store_inv_def)
  have ready: "mgr_ready (tm_resourceMgr (with_template tpID tp t))" using assms(1) by simp
  obtain r2 st2' where "allocateTPInstance F (with_template tpID tp t) name tp intf ?path st1 = (r2, st2')" "grows st1 st2'"
    using allocate_step [OF ready inv1] by blast
  then have inv2: "store_inv st2" using assms(5) by (simp add: grows_def)
  obtain st3 where st3: "kv_Put F (resource_instance_key ?path) (KvResourceInstance (res_inst tpID inst)) st2 = (Done (Some err), st3)"
    "kv_data st3 = kv_data st2 \<or> kv_data st3 = (kv_data st2)(resource_instance_key ?path := Some (KvResourceInstance (res_inst tpID inst)))"
    using assms(6) by (simp add: kv_Put_def kv_write_def Let_def)
  have inv3: "store_inv st3" using grows_record [OF inv2 st3(2)] by (simp add: grows_def)
  have free: "\<exists>e st'. tp_FreeResourceID F (tm_resourceMgr t) intf rt ids s = (Done e, st') \<and> store_inv st'"
    if "rt \<in> {''ALLOC_ID'', ''GEMPORT_ID''}" "store_inv s" for rt ids s
  proof -
    have "rt \<in> resource_types" using that(1) by (auto simp: resource_types_def)
    from FreeResourceID_step [OF assms(1) this that(2), of F intf ids] that(1) show ?thesis
      by (auto simp: tp_FreeResourceID_def)
  qed
  let ?g = "if ri_GemportIds (res_inst tpID inst) = [] then None else Some (ri_GemportIds (res_inst tpID inst))"
  obtain e1 st4 where 4: "tp_FreeResourceID F (tm_resourceMgr t) intf ''ALLOC_ID'' (Some [ri_AllocId (res_inst tpID inst)]) st3 = (Done e1, st4)"
    "store_inv st4" using free [OF _ inv3] by blast
  obtain e2 st5 where 5: "tp_FreeResourceID F (tm_resourceMgr t) intf ''GEMPORT_ID'' ?g st4 = (Done e2, st5)"
    using free [OF _ 4(2)] by blast
  have key: "GetTechProfileInstanceKey (t\<lparr>tm_tpMap := x, tm_tpInstanceMap := y\<rparr>) = GetTechProfileInstanceKey t" for x y
    by (simp add: GetTechProfileInstanceKey_def fun_eq_iff)
  show ?thesis
    using assms(3) key
    by (simp add: CreateTechProfileInstance_def Let_def addResourceInstanceToKVStore_def kret_def
        kbind_Done [where m = "chosen_template F t tpID", OF assms(4)]
        kbind_Done [where m = "allocateTPInstance F _ name tp intf ?path", OF assms(5) [unfolded with_template_def]]
        kbind_Done [where m = "kv_Put F (resource_instance_key ?path) (KvResourceInstance (res_inst tpID inst))", OF st3(1)]
        kbind_Done [where m = "tp_FreeResourceID F (tm_resourceMgr t) intf ''ALLOC_ID'' (Some [ri_AllocId (res_inst tpID inst)])", OF 4(1)]
        kbind_Done [where m = "tp_FreeResourceID F (tm_resourceMgr t) intf ''GEMPORT_ID'' ?g", OF 5])
qed

theorem record_failure_exits_witness:
  "\<exists>t' st'. CreateTechProfileInstance (\<lambda>n. if n = 5 then KvFails (ErrorString ''timeout'') False else KvOk) 64
     (UniPortName 0 1 0) 0 sample_tm tp_kv = (Done (TpExits, t'), st') \<and>
     kv_data st' (alloc_key sample_tm 0) = Some (KvResource sample_pool) \<and>
     kv_data st' (gem_key sample_tm 0) = Some (KvResource gem_pool)"
proof -
  let ?F = "\<lambda>n. if n = (5 :: nat) then KvFails (ErrorString ''timeout'') False else KvOk"
  let ?c = "chosen_template ?F sample_tm 64 tp_kv"
  let ?t = "with_template 64 (getDefaultTechProfile sample_tm) sample_tm" and ?path = "GetTechProfileInstanceKey sample_tm 64 (UniPortName 0 1 0)"
  let ?a = "allocateTPInstance ?F ?t (UniPortName 0 1 0) (getDefaultTechProfile sample_tm) 0 ?path (snd ?c)"
  have c: "?c = (Done (getDefaultTechProfile sample_tm), snd ?c)" 
  proof -
    have "fst ?c = Done (getDefaultTechProfile sample_tm)" by code_simp
    then show ?thesis by (metis prod.collapse)
  qed
  have "(case fst ?a of Done (Some i) \<Rightarrow> True | _ \<Rightarrow> False) \<and> kv_ops (snd ?a) = 5" by code_simp
  then obtain inst where a: "?a = (Done (Some inst), snd ?a)" "kv_ops (snd ?a) = 5"
    by (cases ?a) (auto split: outcome.splits option.splits)
  then have "?F (kv_ops (snd ?a)) = KvFails (ErrorString ''timeout'') False" by simp
  from record_failure_exits [OF sample_tm_facts(1,2) uni_port_name_conforms c a(1) this sample_gpon]
  obtain t' st' where r: "CreateTechProfileInstance ?F 64 (UniPortName 0 1 0) 0 sample_tm tp_kv = (Done (TpExits, t'), st')" by blast
  have "kv_data (snd (CreateTechProfileInstance ?F 64 (UniPortName 0 1 0) 0 sample_tm tp_kv)) (alloc_key sample_tm 0) =
      Some (KvResource sample_pool)" by code_simp
  moreover have "kv_data (snd (CreateTechProfileInstance ?F 64 (UniPortName 0 1 0) 0 sample_tm tp_kv)) (gem_key sample_tm 0) =
      Some (KvResource gem_pool)" by code_simp
  ultimately show ?thesis using r by auto
qed

text \<open>
  C27: an instance survives a restart. After a creation on a working store that held no instance, a new manager that reads the store back, in any order, has exactly this
  instance in its cache, under its path, with the same alloc ID and GEM ports; the template in the
  store must be one that the creation accepted.
\<close>

theorem restart_keeps_instance:
  assumes "\<forall>n. F n = KvOk" "mgr_ready (tm_resourceMgr t)" "store_inv st"
    and "pr_Technology (tm_resourceMgr t) \<in> gpon_family" "uniPortNameFormatRegexp name"
    and "tm_tpMap t tpID = None" "stored_template t st tpID = Some tp" "usable tp"
    and "\<forall>s. kv_data st (resource_instance_key s) = None"
    and "CreateTechProfileInstance F tpID name intf t st = (Done (TpReturns (Some inst, None), t'), st')"
  defines "path \<equiv> GetTechProfileInstanceKey t tpID name"
  assumes "resource_instance_key path \<in> set keys"
  shows "\<exists>t2 st2. NewTechProfile F keys (tm_resourceMgr t) st' = (Done (Some t2, None), st2) \<and>
     tm_tpInstanceMap t2 = [path \<mapsto> inst] \<and> GetTPInstance t2 path = (Some inst, None)"
proof -
  let ?t0 = "\<lparr>tm_resourceMgr = tm_resourceMgr t, tm_tpInstanceMap = Map.empty, tm_tpMap = Map.empty\<rparr>"
  obtain a gems where inst: "inst = instance_of name tp a gems" "length gems = unat (tpl_NumGemPorts tp)"
    and stored: "\<And>n. stored_template ?t0 (st'\<lparr>kv_ops := n\<rparr>) tpID = Some tp"
    and only: "\<And>s. kv_data st' (resource_instance_key s) =
      (if s = path then Some (KvResourceInstance (res_inst tpID inst)) else None)"
    using creation_left [OF assms(1-3,5-10)] unfolding path_def by blast
  have pre: "\<exists>s. k = resource_instance_key s" if "take (length (resource_instance_key x)) k = resource_instance_key x" for k x
    using that append_take_drop_id [of "length (resource_instance_key x)" k] by (metis append.assoc resource_instance_key_def)
  let ?tech = "pr_Technology (tm_resourceMgr t)"
  define pairs where "pairs = [(k, the (kv_data st' k)). k \<leftarrow> keys, take (length (resource_instance_key ?tech)) k = resource_instance_key ?tech \<and> kv_data st' k \<noteq> None]"
  have "take (length (resource_instance_key ?tech)) (resource_instance_key path) = resource_instance_key ?tech"
    by (simp add: path_def GetTechProfileInstanceKey_def resource_instance_key_def)
  then have "(resource_instance_key path, the (kv_data st' (resource_instance_key path))) \<in> set pairs"
    using only [of path] assms(12) by (auto simp: pairs_def)
  then have ne: "pairs \<noteq> []" by (metis empty_iff list.set(1))
  have all: "\<forall>x \<in> set pairs. x = (resource_instance_key path, KvResourceInstance (res_inst tpID inst))"
    using pre only unfolding pairs_def by (force split: if_splits)
  obtain n where "reconcile_pairs F pairs ?t0 (st'\<lparr>kv_ops := Suc (kv_ops st')\<rparr>) =
      (Done (with_instance path inst ?t0), st'\<lparr>kv_ops := n\<rparr>)"
    using reconcile_same [OF assms(1) _ stored inst(1) assms(8) inst(2) _ all] instance_key_format [OF assms(4,5)] ne
    unfolding path_def by auto
  moreover have "kv_List F keys (resource_instance_key ?tech) st' = (Done pairs, st'\<lparr>kv_ops := Suc (kv_ops st')\<rparr>)"
    using assms(1) by (simp add: kv_List_def pairs_def)
  ultimately have "NewTechProfile F keys (tm_resourceMgr t) st' = (Done (Some (with_instance path inst ?t0), None), st'\<lparr>kv_ops := n\<rparr>)"
    using assms(4) by (simp add: NewTechProfile_def reconcileTpInstancesToCache_def Let_def kvm_defs gpon_family_def)
  then show ?thesis using assms(4) by (simp add: with_instance_def GetTPInstance_def gpon_family_def)
qed

theorem restart_keeps_instance_witness:
  "\<exists>inst t' st' t2 st2. CreateTechProfileInstance (\<lambda>n. KvOk) 64 (UniPortName 0 1 0) 0 sample_tm tp_kv =
       (Done (TpReturns (Some inst, None), t'), st') \<and>
     NewTechProfile (\<lambda>n. KvOk) [resource_instance_key (GetTechProfileInstanceKey sample_tm 64 (UniPortName 0 1 0))]
       (tm_resourceMgr sample_tm) st' = (Done (Some t2, None), st2) \<and>
     GetTPInstance t2 (GetTechProfileInstanceKey sample_tm 64 (UniPortName 0 1 0)) = (Some inst, None)"
proof -
  let ?c = "CreateTechProfileInstance (\<lambda>n. KvOk) 64 (UniPortName 0 1 0) 0 sample_tm tp_kv"
  have "(case fst ?c of Done (TpReturns (Some i, None), _) \<Rightarrow> True | _ \<Rightarrow> False)" by code_simp
  then obtain inst t' where "fst ?c = Done (TpReturns (Some inst, None), t')"
    by (auto split: outcome.splits prod.splits option.splits tp_end.splits)
  then have c: "?c = (Done (TpReturns (Some inst, None), t'), snd ?c)" by (metis prod.collapse)
  have k: "kv_data tp_kv (resource_instance_key s) = None" for s
    using pool_keys_apart(1,2) [OF sample_tm_facts(1), of 0 s] by (simp add: tp_kv_def)
  have n: "kv_data tp_kv (tp_kv_key sample_tm 64) = None"
    using pool_keys_apart [OF sample_tm_facts(1)] by (simp add: tp_kv_def)
  have tmpl: "tm_tpMap sample_tm 64 = None" "stored_template sample_tm tp_kv 64 = Some (getDefaultTechProfile sample_tm)"
    using n by (simp_all only: stored_template_def option.case sample_tm_def TechProfileMgr.simps)
  have "\<exists>t2 st2. NewTechProfile (\<lambda>n. KvOk) [resource_instance_key (GetTechProfileInstanceKey sample_tm 64 (UniPortName 0 1 0))]
      (tm_resourceMgr sample_tm) (snd ?c) = (Done (Some t2, None), st2) \<and>
      tm_tpInstanceMap t2 = [GetTechProfileInstanceKey sample_tm 64 (UniPortName 0 1 0) \<mapsto> inst] \<and>
      GetTPInstance t2 (GetTechProfileInstanceKey sample_tm 64 (UniPortName 0 1 0)) = (Some inst, None)"
    by (rule restart_keeps_instance [OF _ sample_tm_facts(1,2) sample_gpon uni_port_name_conforms tmpl default_usable _ c])
      (simp_all add: k)
  with c show ?thesis by blast
qed

end
