(* ===== verification/Wait_Groups.thy ===== *)
theory Wait_Groups
  imports Onu_Manager
begin

text \<open>
  The wait groups that order the provisioning (\<open>core/olt\_manager.go\<close>, \<open>core/onu\_manager.go\<close>, \<open>core/subscriber\_manager.go\<close>): the provisioner adds one
  to its group for every ONU of a batch and waits for the group before the next batch; an ONU waits for the group of
  its subscribers before it signals; a subscriber signals when its deployment ends.

  The components are reduced to their phases, and everything they do between two phases to one step. \<open>onu_step\<close> moves one ONU,
  \<open>prov_step\<close> the provisioner or an ONU of the current batch. What a device or the profile
  library answers is a choice between steps.
\<close>

section \<open>State\<close>

text \<open>\<open>Gone\<close>: \<open>Subscriber.Start\<close> has returned early, without a deployment that would signal.\<close>

datatype sub_phase =
    Starting
  | Deploying
  | Signalled
  | Gone

text \<open>
  \<open>NotStarted\<close>: \<open>activateONU\<close> has ended without starting the ONU. \<open>Creating\<close> holds the subscribers started so far; with all of them
  started the ONU is in \<open>subWg.Wait()\<close>.
\<close>

datatype onu_phase =
    Activating
  | NotStarted
  | Creating "sub_phase list"
  | OnuDone "sub_phase list"

record prov =
  pw_batches :: nat
  pw_left :: nat
  pw_onuWg :: int
  pw_onus :: "onu_phase list"
  pw_past :: "onu_phase list list"

definition prov_init :: "nat \<Rightarrow> nat \<Rightarrow> prov" where
  "prov_init batches perBatch =
     \<lparr>pw_batches = batches, pw_left = perBatch, pw_onuWg = 0, pw_onus = [], pw_past = []\<rparr>"

text \<open>The counter of an ONU's own wait group: one \<open>Add\<close> for each subscriber, one \<open>Done\<close> for each signal.\<close>

definition subWg :: "sub_phase list \<Rightarrow> nat" where
  "subWg ss = length (filter (\<lambda>s. s \<noteq> Signalled) ss)"

section \<open>Steps\<close>

text \<open>A subscriber: \<open>go DeployWorkflow\<close>, the early return, the deferred \<open>subWg.Done()\<close>.\<close>

inductive sub_step :: "sub_phase \<Rightarrow> sub_phase \<Rightarrow> bool" where
  deploy: "sub_step Starting Deploying"
| no_instance: "sub_step Starting Gone"
| signal: "sub_step Deploying Signalled"

text \<open>An ONU with \<open>n\<close> subscribers; the flag is \<open>onuWg.Done()\<close>.\<close>

inductive onu_step :: "nat \<Rightarrow> onu_phase \<Rightarrow> onu_phase \<Rightarrow> bool \<Rightarrow> bool" for n where
  activated: "onu_step n Activating (Creating []) False"
| refused: "onu_step n Activating NotStarted False"
| start_subscriber: "length ss < n \<Longrightarrow> onu_step n (Creating ss) (Creating (ss @ [Starting])) False"
| subscriber: "j < length ss \<Longrightarrow> sub_step (ss ! j) s' \<Longrightarrow> onu_step n (Creating ss) (Creating (ss[j := s'])) False"
| finish: "\<not> length ss < n \<Longrightarrow> subWg ss = 0 \<Longrightarrow> onu_step n (Creating ss) (OnuDone ss) True"

text \<open>
  The provisioner with \<open>perBatch\<close> iterations of the inner loops: an iteration starts an ONU or passes it over when no ONU ID is to be had; then \<open>onuWg.Wait()\<close>.
\<close>

inductive prov_step :: "nat \<Rightarrow> nat \<Rightarrow> prov \<Rightarrow> prov \<Rightarrow> bool" for n perBatch where
  start_onu: "0 < pw_batches s \<Longrightarrow> pw_left s = Suc k \<Longrightarrow>
     prov_step n perBatch s (s\<lparr>pw_left := k, pw_onuWg := pw_onuWg s + 1, pw_onus := pw_onus s @ [Activating]\<rparr>)"
| skip_onu: "0 < pw_batches s \<Longrightarrow> pw_left s = Suc k \<Longrightarrow> prov_step n perBatch s (s\<lparr>pw_left := k\<rparr>)"
| next_batch: "pw_batches s = Suc b \<Longrightarrow> pw_left s = 0 \<Longrightarrow> pw_onuWg s = 0 \<Longrightarrow>
     prov_step n perBatch s
       (s\<lparr>pw_batches := b, pw_left := perBatch, pw_onus := [], pw_past := pw_past s @ [pw_onus s]\<rparr>)"
| onu: "i < length (pw_onus s) \<Longrightarrow> onu_step n (pw_onus s ! i) o' signals \<Longrightarrow>
     prov_step n perBatch s
       (s\<lparr>pw_onus := (pw_onus s)[i := o'], pw_onuWg := pw_onuWg s - (if signals then 1 else 0)\<rparr>)"

abbreviation prov_steps :: "nat \<Rightarrow> nat \<Rightarrow> prov \<Rightarrow> prov \<Rightarrow> bool" where
  "prov_steps n perBatch \<equiv> (prov_step n perBatch)\<^sup>*\<^sup>*"

inductive_simps sub_step_iff: "sub_step s s'"
inductive_cases onu_stepE: "onu_step n p p' signals"
inductive_cases prov_stepE: "prov_step n perBatch s s'"

section \<open>The invariant\<close>

definition complete :: "nat \<Rightarrow> onu_phase \<Rightarrow> bool" where
  "complete n p \<longleftrightarrow> p = OnuDone (replicate n Signalled)"

definition failed :: "onu_phase \<Rightarrow> bool" where
  "failed p \<longleftrightarrow> p = NotStarted \<or> (\<exists>ss. p = Creating ss \<and> Gone \<in> set ss)"

fun onu_ok :: "nat \<Rightarrow> onu_phase \<Rightarrow> bool" where
  "onu_ok n (Creating ss) = (length ss \<le> n)"
| "onu_ok n (OnuDone ss) = (ss = replicate n Signalled)"
| "onu_ok n _ = True"

definition prov_inv :: "nat \<Rightarrow> prov \<Rightarrow> bool" where
  "prov_inv n s \<longleftrightarrow>
     pw_onuWg s = int (length (filter (\<lambda>p. \<not> complete n p) (pw_onus s))) \<and>
     (\<forall>p \<in> set (pw_onus s). onu_ok n p) \<and>
     (\<forall>ps \<in> set (pw_past s). \<forall>p \<in> set ps. complete n p) \<and>
     (pw_batches s = 0 \<longrightarrow> pw_onus s = [])"

lemma subWg_zero: "subWg ss = 0 \<longleftrightarrow> ss = replicate (length ss) Signalled"
proof -
  have "subWg ss = 0 \<longleftrightarrow> (\<forall>s \<in> set ss. s = Signalled)" by (simp add: subWg_def filter_empty_conv)
  then show ?thesis by (metis replicate_length_same in_set_replicate)
qed

lemma onu_step_inv:
  assumes "onu_step n p p' signals" "onu_ok n p"
  shows "onu_ok n p' \<and> \<not> complete n p \<and> (complete n p' \<longleftrightarrow> signals)"
  using assms
  by (induction rule: onu_step.induct) (auto simp: complete_def subWg_zero)

lemma length_filter_update:
  assumes "i < length xs" "P (xs ! i)"
  shows "int (length (filter P (xs[i := y]))) = int (length (filter P xs)) - (if P y then 0 else 1)"
proof -
  have xs: "xs = take i xs @ xs ! i # drop (Suc i) xs" using assms(1) by (rule id_take_nth_drop)
  have "length (filter P xs) = length (filter P (take i xs)) + Suc (length (filter P (drop (Suc i) xs)))"
    using assms(2) by (subst xs) (simp del: append_take_drop_id)
  moreover have "length (filter P (xs[i := y])) =
      length (filter P (take i xs)) + (if P y then 1 else 0) + length (filter P (drop (Suc i) xs))"
    using assms(1) by (simp add: upd_conv_take_nth_drop)
  ultimately show ?thesis by simp
qed

lemma prov_step_inv:
  assumes "prov_step n m s s'" "prov_inv n s"
  shows "prov_inv n s'"
  using assms
proof (induction rule: prov_step.induct)
  case (next_batch s b)
  then have "\<forall>p \<in> set (pw_onus s). complete n p" by (simp add: prov_inv_def filter_empty_conv)
  with next_batch show ?case by (auto simp: prov_inv_def)
next
  case (onu i s o' signals)
  have ok: "onu_ok n (pw_onus s ! i)" using onu by (auto simp: prov_inv_def)
  note st = onu_step_inv [OF onu(2) ok]
  have "int (length (filter (\<lambda>p. \<not> complete n p) ((pw_onus s)[i := o']))) =
      int (length (filter (\<lambda>p. \<not> complete n p) (pw_onus s))) - (if signals then 1 else 0)"
    using st length_filter_update [OF onu(1), of "\<lambda>p. \<not> complete n p" o'] by auto
  moreover have "\<forall>p \<in> set ((pw_onus s)[i := o']). onu_ok n p"
    using onu(3) st set_update_subset_insert [of "pw_onus s" i o'] by (auto simp: prov_inv_def)
  ultimately show ?case using onu(1,3) by (auto simp: prov_inv_def)
qed (auto simp: prov_inv_def complete_def)

lemma prov_inv_init: "prov_inv n (prov_init b m)"
  by (simp add: prov_inv_def prov_init_def)

lemma prov_steps_inv: "prov_steps n m s s' \<Longrightarrow> prov_inv n s \<Longrightarrow> prov_inv n s'"
  by (induction rule: rtranclp_induct) (auto intro: prov_step_inv)

lemmas reachable_inv = prov_steps_inv [OF _ prov_inv_init]

section \<open>Progress\<close>

lemma onu_progress:
  assumes "onu_ok n p" "\<not> complete n p" "\<not> failed p"
  shows "\<exists>p' signals. onu_step n p p' signals"
proof (cases p)
  case (Creating ss)
  show ?thesis
  proof (cases "length ss < n")
    case False
    show ?thesis
    proof (cases "subWg ss = 0")
      case True
      with False Creating show ?thesis by (blast intro: onu_step.finish)
    next
      case notz: False
      then obtain j where j: "j < length ss" "ss ! j \<noteq> Signalled"
        by (auto simp: subWg_def filter_empty_conv in_set_conv_nth)
      moreover have "ss ! j \<noteq> Gone" using assms(3) Creating nth_mem [OF j(1)] by (auto simp: failed_def)
      ultimately obtain s' where "sub_step (ss ! j) s'" by (cases "ss ! j") (auto simp: sub_step_iff)
      with j(1) Creating show ?thesis by (blast intro: onu_step.subscriber)
    qed
  qed (use Creating in \<open>blast intro: onu_step.start_subscriber\<close>)
qed (use assms in \<open>auto simp: complete_def failed_def intro: onu_step.intros\<close>)

lemma onu_step_failed: "onu_step n p p' signals \<Longrightarrow> failed p \<Longrightarrow> failed p' \<and> \<not> signals"
proof (induction rule: onu_step.induct)
  case (subscriber j ss s')
  then have "Gone \<in> set ss" by (simp add: failed_def)
  then obtain k where k: "k < length ss" "ss ! k = Gone" by (auto simp: in_set_conv_nth)
  have "k \<noteq> j" using k(2) subscriber.hyps(2) by (auto simp: sub_step_iff)
  then have "ss[j := s'] ! k = Gone" using k by simp
  then have "Gone \<in> set (ss[j := s'])" using k(1) by (metis length_list_update nth_mem)
  then show ?case by (simp add: failed_def)
next
  case (finish ss)
  then have "Gone \<in> set ss" "Gone \<notin> set ss" by (auto simp: failed_def subWg_zero) (metis in_set_replicate sub_phase.distinct(11))
  then show ?case by simp
qed (auto simp: failed_def)

lemma prov_step_failed:
  assumes "prov_step n m s s'" "prov_inv n s" "p \<in> set (pw_onus s)" "failed p"
  shows "(\<exists>p' \<in> set (pw_onus s'). failed p') \<and> pw_batches s' = pw_batches s \<and> pw_past s' = pw_past s"
  using assms
proof (induction rule: prov_step.induct)
  case (next_batch s b)
  then have "complete n p" by (simp add: prov_inv_def filter_empty_conv)
  with next_batch(6) show ?case by (simp add: complete_def failed_def)
next
  case (onu i s o' signals)
  show ?case
  proof (cases "p = pw_onus s ! i")
    case True
    with onu onu_step_failed have "failed o'" by blast
    with onu(1) show ?thesis by (auto intro: set_update_memI)
  next
    case False
    obtain k where k: "k < length (pw_onus s)" "pw_onus s ! k = p" using onu.prems(2) by (auto simp: in_set_conv_nth)
    with False have "k \<noteq> i" by auto
    with k(2) have "(pw_onus s)[i := o'] ! k = p" by simp
    then have "p \<in> set ((pw_onus s)[i := o'])" using k(1) by (metis length_list_update nth_mem)
    with onu.prems(3) show ?thesis by auto
  qed
qed auto

text \<open>The work left: every step uses up some.\<close>

fun sub_work :: "sub_phase \<Rightarrow> nat" where
  "sub_work Starting = 2"
| "sub_work Deploying = 1"
| "sub_work _ = 0"

fun onu_work :: "nat \<Rightarrow> onu_phase \<Rightarrow> nat" where
  "onu_work n Activating = 2 + 3 * n"
| "onu_work n (Creating ss) = 1 + 3 * (n - length ss) + sum_list (map sub_work ss)"
| "onu_work n _ = 0"

definition prov_work :: "nat \<Rightarrow> nat \<Rightarrow> prov \<Rightarrow> nat" where
  "prov_work n m s =
     (if pw_batches s = 0 then 0
      else (3 + 3 * n) * pw_left s + 1 + (pw_batches s - 1) * ((3 + 3 * n) * m + 1)) +
     sum_list (map (onu_work n) (pw_onus s))"

lemma sum_list_less:
  fixes f :: "'a \<Rightarrow> nat"
  assumes "i < length xs" "f y < f (xs ! i)"
  shows "sum_list (map f (xs[i := y])) < sum_list (map f xs)"
  using assms by (induction xs arbitrary: i) (auto split: nat.split)

lemma onu_work_less: "onu_step n p p' signals \<Longrightarrow> onu_work n p' < onu_work n p"
proof (induction rule: onu_step.induct)
  case (subscriber j ss s')
  then have "sum_list (map sub_work (ss[j := s'])) < sum_list (map sub_work ss)"
    by (intro sum_list_less) (auto simp: sub_step_iff)
  then show ?case by simp
qed auto

lemma prov_work_less: "prov_step n m s s' \<Longrightarrow> prov_work n m s' < prov_work n m s"
proof (induction rule: prov_step.induct)
  case (next_batch s b)
  then show ?case by (cases b) (simp_all add: prov_work_def)
next
  case (onu i s o' signals)
  then have "sum_list (map (onu_work n) ((pw_onus s)[i := o'])) < sum_list (map (onu_work n) (pw_onus s))"
    by (intro sum_list_less onu_work_less)
  then show ?case by (simp add: prov_work_def)
qed (simp_all add: prov_work_def)

section \<open>Properties\<close>

text \<open>
  C17: the wait groups are a barrier. In every reachable state, whatever the device answered and however the goroutines
  were interleaved, every ONU of an earlier batch has all of its subscribers signalled, and the counter is the
  number of ONUs of the batch that have not signalled, so it never becomes negative.
\<close>

theorem batch_barrier:
  assumes "prov_steps n perBatch (prov_init batches perBatch) s"
  shows "(\<forall>ps \<in> set (pw_past s). \<forall>p \<in> set ps. p = OnuDone (replicate n Signalled)) \<and>
     pw_onuWg s = int (length (filter (\<lambda>p. p \<noteq> OnuDone (replicate n Signalled)) (pw_onus s)))"
  using reachable_inv [OF assms] by (simp add: prov_inv_def complete_def)

text \<open>One batch of one ONU, which the device refuses.\<close>

definition refused_state :: prov where
  "refused_state = \<lparr>pw_batches = 1, pw_left = 0, pw_onuWg = 1, pw_onus = [NotStarted], pw_past = []\<rparr>"

lemma refused_reachable: "prov_steps n 1 (prov_init 1 1) refused_state"
proof -
  let ?s = "\<lparr>pw_batches = 1, pw_left = 0, pw_onuWg = 1, pw_onus = [Activating], pw_past = []\<rparr>"
  have "prov_step n 1 (prov_init 1 1) ?s"
    using prov_step.start_onu [of "prov_init 1 1" 0 n 1] by (simp add: prov_init_def)
  moreover have "prov_step n 1 ?s refused_state"
    using prov_step.onu [of 0 ?s n NotStarted False 1] by (simp add: onu_step.refused refused_state_def)
  ultimately show ?thesis by (meson converse_rtranclp_into_rtranclp rtranclp.rtrancl_refl)
qed

lemma refused_stuck: "\<not> prov_step n m refused_state s'"
  by (auto simp: refused_state_def elim!: prov_stepE onu_stepE)

text \<open>
  Two batches of one ONU with one subscriber: the first goes through, the ONU of the second is refused.
\<close>

definition second_refused :: prov where
  "second_refused = \<lparr>pw_batches = 1, pw_left = 0, pw_onuWg = 1, pw_onus = [NotStarted], pw_past = [[OnuDone [Signalled]]]\<rparr>"

lemma prov_trans [trans]:
  "prov_steps n m s s' \<Longrightarrow> prov_step n m s' s'' \<Longrightarrow> prov_steps n m s s''"
  by (rule rtranclp.rtrancl_into_rtrancl)

lemma onu_only:
  "onu_step n p p' signals \<Longrightarrow>
     prov_step n m \<lparr>pw_batches = b, pw_left = l, pw_onuWg = w, pw_onus = [p], pw_past = ps\<rparr>
       \<lparr>pw_batches = b, pw_left = l, pw_onuWg = w - (if signals then 1 else 0), pw_onus = [p'], pw_past = ps\<rparr>"
  using prov_step.onu [of 0 "\<lparr>pw_batches = b, pw_left = l, pw_onuWg = w, pw_onus = [p], pw_past = ps\<rparr>" n p' signals m]
  by simp

lemma second_refused_reachable: "prov_steps 1 1 (prov_init 2 1) second_refused"
proof -
  let ?st = "\<lambda>b l w ps past. \<lparr>pw_batches = b, pw_left = l, pw_onuWg = w, pw_onus = ps, pw_past = past\<rparr>"
  let ?past = "[[OnuDone [Signalled]]]"
  have "prov_steps 1 1 (prov_init 2 1) (?st 2 1 0 [] [])" by (simp add: prov_init_def)
  also have "prov_step 1 1 (?st 2 1 0 [] []) (?st 2 0 1 [Activating] [])"
    using prov_step.start_onu [of "?st 2 1 0 [] []" 0 1 1] by simp
  also have "prov_step 1 1 (?st 2 0 1 [Activating] []) (?st 2 0 1 [Creating []] [])"
    using onu_only [OF onu_step.activated] by simp
  also have "prov_step 1 1 (?st 2 0 1 [Creating []] []) (?st 2 0 1 [Creating [Starting]] [])"
    using onu_only [OF onu_step.start_subscriber [of "[]" 1]] by simp
  also have "prov_step 1 1 (?st 2 0 1 [Creating [Starting]] []) (?st 2 0 1 [Creating [Deploying]] [])"
    using onu_only [OF onu_step.subscriber [of 0 "[Starting]" Deploying 1]] by (simp add: sub_step.deploy)
  also have "prov_step 1 1 (?st 2 0 1 [Creating [Deploying]] []) (?st 2 0 1 [Creating [Signalled]] [])"
    using onu_only [OF onu_step.subscriber [of 0 "[Deploying]" Signalled 1]] by (simp add: sub_step.signal)
  also have "prov_step 1 1 (?st 2 0 1 [Creating [Signalled]] []) (?st 2 0 0 [OnuDone [Signalled]] [])"
    using onu_only [OF onu_step.finish [of "[Signalled]" 1], where w = 1] by (simp add: subWg_def)
  also have "prov_step 1 1 (?st 2 0 0 [OnuDone [Signalled]] []) (?st 1 1 0 [] ?past)"
    using prov_step.next_batch [of "?st 2 0 0 [OnuDone [Signalled]] []" 1 1 1] by simp
  also have "prov_step 1 1 (?st 1 1 0 [] ?past) (?st 1 0 1 [Activating] ?past)"
    using prov_step.start_onu [of "?st 1 1 0 [] ?past" 0 1 1] by simp
  also have "prov_step 1 1 (?st 1 0 1 [Activating] ?past) (?st 1 0 1 [NotStarted] ?past)"
    using onu_only [OF onu_step.refused] by simp
  finally show ?thesis by (simp add: second_refused_def)
qed

theorem batch_barrier_witness:
  "prov_steps 1 1 (prov_init 2 1) second_refused \<and> pw_past second_refused \<noteq> [] \<and>
   list_all (list_all (\<lambda>p. p = OnuDone (replicate 1 Signalled))) (pw_past second_refused) \<and>
   pw_onuWg second_refused = 1 \<and>
   pw_onuWg second_refused = int (length (filter (\<lambda>p. p \<noteq> OnuDone (replicate 1 Signalled)) (pw_onus second_refused)))"
proof (intro conjI second_refused_reachable)
  note barrier = batch_barrier [OF second_refused_reachable]
  then show "list_all (list_all (\<lambda>p. p = OnuDone (replicate 1 Signalled))) (pw_past second_refused)"
    "pw_onuWg second_refused = int (length (filter (\<lambda>p. p \<noteq> OnuDone (replicate 1 Signalled)) (pw_onus second_refused)))"
    by (simp_all add: list_all_iff)
qed (simp_all add: second_refused_def)

text \<open>
  C16: provisioning always comes to rest, and it rests at the end of the last batch exactly when no failure blocks it: when
  nothing can move any more, either all batches are done, or some ONU of the current batch was refused by the
  device (also with the answer that it exists already) or has a subscriber that ended without signalling, and then the provisioner
  waits forever.
\<close>

theorem provisioning_rests:
  "wf {(s', s). prov_step n perBatch s s'} \<and>
   (prov_steps n perBatch (prov_init batches perBatch) s \<and> \<not> (\<exists>s'. prov_step n perBatch s s') \<longrightarrow>
      (pw_batches s = 0 \<longleftrightarrow> \<not> (\<exists>p \<in> set (pw_onus s). failed p)))"
proof (intro conjI impI)
  show "wf {(s', s). prov_step n perBatch s s'}"
    by (rule wf_subset [OF wf_measure [of "prov_work n perBatch"]]) (auto simp: prov_work_less)
  assume a: "prov_steps n perBatch (prov_init batches perBatch) s \<and> \<not> (\<exists>s'. prov_step n perBatch s s')"
  then have inv: "prov_inv n s" using reachable_inv by blast
  have stuck: "\<not> prov_step n perBatch s s'" for s' using a by blast
  show "pw_batches s = 0 \<longleftrightarrow> \<not> (\<exists>p \<in> set (pw_onus s). failed p)"
  proof
    assume "pw_batches s = 0"
    with inv show "\<not> (\<exists>p \<in> set (pw_onus s). failed p)" by (simp add: prov_inv_def)
  next
    assume nf: "\<not> (\<exists>p \<in> set (pw_onus s). failed p)"
    show "pw_batches s = 0"
    proof (rule ccontr)
      assume b: "pw_batches s \<noteq> 0"
      with stuck have "pw_left s = 0" by (cases "pw_left s") (auto intro: prov_step.skip_onu)
      moreover obtain b' where "pw_batches s = Suc b'" using b by (cases "pw_batches s") auto
      ultimately have "pw_onuWg s \<noteq> 0" using stuck prov_step.next_batch by blast
      then obtain i where i: "i < length (pw_onus s)" "\<not> complete n (pw_onus s ! i)"
        using inv by (auto simp: prov_inv_def filter_empty_conv in_set_conv_nth)
      moreover have "onu_ok n (pw_onus s ! i)" "\<not> failed (pw_onus s ! i)"
        using inv nf nth_mem [OF i(1)] by (auto simp: prov_inv_def)
      ultimately obtain p' signals where "onu_step n (pw_onus s ! i) p' signals" using onu_progress by blast
      with i(1) stuck show False by (blast intro: prov_step.onu)
    qed
  qed
qed

theorem provisioning_rests_witness:
  "prov_steps 3 1 (prov_init 1 1) refused_state \<and> pw_batches refused_state \<noteq> 0 \<and> list_ex failed (pw_onus refused_state)"
  using provisioning_rests [of 3 1 1 refused_state] refused_reachable [of 3] refused_stuck
  by (auto simp: refused_state_def list_ex_iff)

text \<open>
  C18: one refused activation, or one subscriber without a profile instance, stops the provisioning for good: from a state with
  such an ONU on, the batch is never completed.
\<close>

theorem failure_blocks_batch:
  assumes "prov_steps n perBatch (prov_init batches perBatch) s" "p \<in> set (pw_onus s)" "failed p"
    and "prov_steps n perBatch s s'"
  shows "pw_batches s' = pw_batches s \<and> 0 < pw_batches s' \<and> pw_past s' = pw_past s"
proof -
  have "prov_inv n s' \<and> (\<exists>p' \<in> set (pw_onus s'). failed p') \<and> pw_batches s' = pw_batches s \<and> pw_past s' = pw_past s"
    using assms(4)
  proof (induction rule: rtranclp_induct)
    case base
    with assms show ?case using reachable_inv [OF assms(1)] by blast
  next
    case (step s1 s2)
    then show ?case using prov_step_failed [OF step(2)] prov_step_inv [OF step(2)] by metis
  qed
  moreover have "0 < pw_batches s"
    using reachable_inv [OF assms(1)] assms(2) by (cases "pw_batches s") (auto simp: prov_inv_def)
  ultimately show ?thesis by simp
qed

text \<open>
  Two batches of two ONUs with one subscriber each: the first ONU is refused, the second is then activated, its subscriber
  is deployed and it signals, and the first batch still is the current one.
\<close>

definition first_of_two_refused :: "int \<Rightarrow> onu_phase \<Rightarrow> prov" where
  "first_of_two_refused w p =
     \<lparr>pw_batches = 2, pw_left = 0, pw_onuWg = w, pw_onus = [NotStarted, p], pw_past = []\<rparr>"

lemma first_of_two_reachable: "prov_steps 1 2 (prov_init 2 2) (first_of_two_refused 2 Activating)"
proof -
  let ?st = "\<lambda>l w ps. \<lparr>pw_batches = 2, pw_left = l, pw_onuWg = w, pw_onus = ps, pw_past = []\<rparr>"
  have "prov_steps 1 2 (prov_init 2 2) (?st 2 0 [])" by (simp add: prov_init_def)
  also have "prov_step 1 2 (?st 2 0 []) (?st 1 1 [Activating])"
    using prov_step.start_onu [of "?st 2 0 []" 1 1 2] by simp
  also have "prov_step 1 2 (?st 1 1 [Activating]) (?st 1 1 [NotStarted])"
    using onu_only [OF onu_step.refused] by simp
  also have "prov_step 1 2 (?st 1 1 [NotStarted]) (?st 0 2 [NotStarted, Activating])"
    using prov_step.start_onu [of "?st 1 1 [NotStarted]" 0 1 2] by simp
  finally show ?thesis by (simp add: first_of_two_refused_def)
qed

lemma second_moves:
  "onu_step n p p' signals \<Longrightarrow>
     prov_step n m (first_of_two_refused w p) (first_of_two_refused (w - (if signals then 1 else 0)) p')"
  using prov_step.onu [of 1 "first_of_two_refused w p" n p' signals m] by (simp add: first_of_two_refused_def)

lemma second_of_two_done:
  "prov_steps 1 2 (first_of_two_refused 2 Activating) (first_of_two_refused 1 (OnuDone [Signalled]))"
proof -
  have "prov_steps 1 2 (first_of_two_refused 2 Activating) (first_of_two_refused 2 Activating)" by simp
  also have "prov_step 1 2 (first_of_two_refused 2 Activating) (first_of_two_refused 2 (Creating []))"
    using second_moves [OF onu_step.activated] by simp
  also have "prov_step 1 2 (first_of_two_refused 2 (Creating [])) (first_of_two_refused 2 (Creating [Starting]))"
    using second_moves [OF onu_step.start_subscriber [of "[]" 1]] by simp
  also have "prov_step 1 2 (first_of_two_refused 2 (Creating [Starting])) (first_of_two_refused 2 (Creating [Deploying]))"
    using second_moves [OF onu_step.subscriber [of 0 "[Starting]" Deploying 1]] by (simp add: sub_step.deploy)
  also have "prov_step 1 2 (first_of_two_refused 2 (Creating [Deploying])) (first_of_two_refused 2 (Creating [Signalled]))"
    using second_moves [OF onu_step.subscriber [of 0 "[Deploying]" Signalled 1]] by (simp add: sub_step.signal)
  also have "prov_step 1 2 (first_of_two_refused 2 (Creating [Signalled])) (first_of_two_refused 1 (OnuDone [Signalled]))"
    using second_moves [OF onu_step.finish [of "[Signalled]" 1], of 2 2] by (simp add: subWg_def)
  finally show ?thesis .
qed

theorem failure_blocks_batch_witness:
  "let s = first_of_two_refused 2 Activating; s' = first_of_two_refused 1 (OnuDone [Signalled])
   in prov_steps 1 2 (prov_init 2 2) s \<and> NotStarted \<in> set (pw_onus s) \<and> failed NotStarted \<and> prov_steps 1 2 s s' \<and> s' \<noteq> s \<and>
      pw_left s' = 0 \<and> pw_batches s' = pw_batches s \<and> 0 < pw_batches s' \<and> pw_past s' = pw_past s"
proof -
  have f: "NotStarted \<in> set (pw_onus (first_of_two_refused 2 Activating))" "failed NotStarted"
    "first_of_two_refused 1 (OnuDone [Signalled]) \<noteq> first_of_two_refused 2 Activating"
    "pw_left (first_of_two_refused 1 (OnuDone [Signalled])) = 0"
    by (simp_all add: first_of_two_refused_def failed_def)
  from failure_blocks_batch [OF first_of_two_reachable f(1,2) second_of_two_done] f first_of_two_reachable second_of_two_done
  show ?thesis unfolding Let_def by blast
qed

end
