(* ===== verification/Goroutines.thy ===== *)
theory Goroutines
  imports Olt_Start Wait_Groups "HOL-Library.Multiset"
begin

text \<open>
  The provisioning as the goroutines it consists of: the provisioner of \<open>core/olt\_manager.go\<close>, a goroutine per ONU
  (\<open>activateONU\<close>, then \<open>OnuDevice.Start\<close>) and a goroutine per subscriber. Each runs the program that
  models its code, all on one world and one map of ONU devices, one atomic action at a time in any order; a panic in any
  of them ends the process.

  \<open>paths\<close> bounds what a program can do on every path. The lemmas show that this system implements the phases of
  \<open>Wait_Groups\<close>, that it terminates, and, with a working library and known workflow, that nothing in it panics.
\<close>

section \<open>State\<close>

type_synonym sub_prog = "(Subscriber \<times> bool) prog"

text \<open>
  The goroutine of an ONU: in \<open>activateONU\<close>; after the device is stored, before it is looked up again and started; ended
  without a start; in iteration \<open>k\<close> of the loop of \<open>OnuDevice.Start\<close>; waiting for the subscribers; ended. The lists hold
  the goroutines of the subscribers, which return whether they signalled the wait group.
\<close>

datatype onu_go =
    InActivate "(OnuDevice \<times> bool) prog"
  | Looking "uint32 \<times> uint32"
  | Over
  | Loop OnuDevice nat "Subscriber prog" "sub_prog list"
  | Joining OnuDevice "sub_prog list"
  | Finished OnuDevice "sub_prog list"

text \<open>What stays the same: the environment, the pools, the configuration, the managers, and the ports of a batch.\<close>

record plant =
  pl_env :: env
  pl_pools :: onu_pools
  pl_cfg :: OpenOltScaleTesterConfig
  pl_mgrs :: "OpenOltResourceMgr list"
  pl_ports :: "uint32 list"

record sys =
  sy_world :: world
  sy_map :: onu_map
  sy_pv :: prov_state
  sy_batch :: nat
  sy_batches :: nat
  sy_ports :: "uint32 list"
  sy_onuWg :: int
  sy_onus :: "onu_go list"
  sy_past :: "onu_go list list"
  sy_panic :: "go_panic option"

definition sys_init :: "plant \<Rightarrow> nat \<Rightarrow> uint64 \<Rightarrow> world \<Rightarrow> sys" where
  "sys_init P batches vendorId w =
     \<lparr>sy_world = w, sy_map = Map.empty, sy_pv = \<lparr>pv_vendorSpecificId = vendorId, pv_calls = []\<rparr>,
      sy_batch = 0, sy_batches = batches, sy_ports = pl_ports P, sy_onuWg = 0, sy_onus = [], sy_past = [],
      sy_panic = None\<rparr>"

section \<open>Steps\<close>

text \<open>The head of the loop of \<open>OnuDevice.Start\<close>.\<close>

definition loop_at :: "OnuDevice \<Rightarrow> nat \<Rightarrow> sub_prog list \<Rightarrow> onu_go" where
  "loop_at dev k ss =
     (if k < unat (SubscribersPerOnu (od_testConfig dev)) then Loop dev k (make_subscriber dev k) ss
      else Joining dev ss)"

text \<open>
  One action of an ONU's goroutine or of one of its subscribers; the flag is \<open>onuWg.Done()\<close>. The device is started through the
  map, under its key, after the lock on the map was released.
\<close>

inductive go_step :: "env \<Rightarrow> onu_go \<times> world \<times> onu_map \<Rightarrow> onu_go \<times> world \<times> onu_map \<Rightarrow> bool \<Rightarrow> bool" for E where
  activate: "step1 E p w = Some (p', w') \<Longrightarrow> go_step E (InActivate p, w, m) (InActivate p', w', m) False"
| store: "go_step E (InActivate (Ret (dev, ok)), w, m)
     (if ok then Looking (od_OnuID dev, od_PonIntf dev) else Over, w, store_onu dev m) False"
| start: "m key = Some dev \<Longrightarrow>
     go_step E (Looking key, w, m) (loop_at (dev\<lparr>od_SubscriberMap := Map.empty\<rparr>) 0 [], w, m) False"
| build: "step1 E p w = Some (p', w') \<Longrightarrow> go_step E (Loop dev k p ss, w, m) (Loop dev k p' ss, w', m) False"
| spawn: "go_step E (Loop dev k (Ret subs) ss, w, m)
     (loop_at (dev\<lparr>od_SubscriberMap := (od_SubscriberMap dev)(SubscriberName subs \<mapsto> subs)\<rparr>) (Suc k)
        (ss @ [subscriber_life subs (IsGroupTest (od_testConfig dev))]), w, m) False"
| early: "j < length ss \<Longrightarrow> step1 E (ss ! j) w = Some (q, w') \<Longrightarrow>
     go_step E (Loop dev k p ss, w, m) (Loop dev k p (ss[j := q]), w', m) False"
| late: "j < length ss \<Longrightarrow> step1 E (ss ! j) w = Some (q, w') \<Longrightarrow>
     go_step E (Joining dev ss, w, m) (Joining dev (ss[j := q]), w', m) False"
| wait: "\<forall>q \<in> set ss. \<exists>s. q = Ret (s, True) \<Longrightarrow> go_step E (Joining dev ss, w, m) (Finished dev ss, w, m) True"

text \<open>The panics a goroutine is about to raise.\<close>

definition panics_of :: "'a prog \<Rightarrow> go_panic set" where
  "panics_of p = (case p of Panic e \<Rightarrow> {e} | _ \<Rightarrow> {})"

fun go_panics :: "onu_map \<Rightarrow> onu_go \<Rightarrow> go_panic set" where
  "go_panics m (InActivate p) = panics_of p"
| "go_panics m (Looking key) = (if m key = None then {NilDereference} else {})"
| "go_panics m Over = {}"
| "go_panics m (Loop dev k p ss) = panics_of p \<union> \<Union> (panics_of ` set ss)"
| "go_panics m (Joining dev ss) = \<Union> (panics_of ` set ss)"
| "go_panics m (Finished dev ss) = \<Union> (panics_of ` set ss)"

text \<open>
  The system: the loops of \<open>provisionONUs\<close>, \<open>onuWg.Wait()\<close> at the end of a batch, and the goroutines of the batch. \<open>now\<close> is
  what the clock shows.
\<close>

inductive sys_step :: "plant \<Rightarrow> sys \<Rightarrow> sys \<Rightarrow> bool" for P where
  start_onu: "sy_panic s = None \<Longrightarrow> 0 < sy_batches s \<Longrightarrow> sy_ports s = j # js \<Longrightarrow>
     provision_one (pl_pools P) (pl_mgrs P) (of_nat (sy_batch s)) j (sy_pv s) = (Done (Some x), pv') \<Longrightarrow>
     sys_step P s (s\<lparr>sy_pv := pv', sy_ports := js, sy_onuWg := sy_onuWg s + 1,
       sy_onus := sy_onus s @ [InActivate (activateONU (pl_cfg P) (pl_mgrs P) (sp_intfID x) (sp_onuID x)
         (sp_serial x) (sp_serialNumber x) now)]\<rparr>)"
| skip_onu: "sy_panic s = None \<Longrightarrow> 0 < sy_batches s \<Longrightarrow> sy_ports s = j # js \<Longrightarrow>
     provision_one (pl_pools P) (pl_mgrs P) (of_nat (sy_batch s)) j (sy_pv s) = (Done None, pv') \<Longrightarrow>
     sys_step P s (s\<lparr>sy_pv := pv', sy_ports := js\<rparr>)"
| prov_panic: "sy_panic s = None \<Longrightarrow> 0 < sy_batches s \<Longrightarrow> sy_ports s = j # js \<Longrightarrow>
     provision_one (pl_pools P) (pl_mgrs P) (of_nat (sy_batch s)) j (sy_pv s) = (Crashed e, pv') \<Longrightarrow>
     sys_step P s (s\<lparr>sy_pv := pv', sy_panic := Some e\<rparr>)"
| next_batch: "sy_panic s = None \<Longrightarrow> sy_batches s = Suc b \<Longrightarrow> sy_ports s = [] \<Longrightarrow> sy_onuWg s = 0 \<Longrightarrow>
     sys_step P s (s\<lparr>sy_batch := Suc (sy_batch s), sy_batches := b, sy_ports := pl_ports P,
       sy_onus := [], sy_past := sy_past s @ [sy_onus s]\<rparr>)"
| onu: "sy_panic s = None \<Longrightarrow> i < length (sy_onus s) \<Longrightarrow>
     go_step (pl_env P) (sy_onus s ! i, sy_world s, sy_map s) (g, w', m') signals \<Longrightarrow>
     sys_step P s (s\<lparr>sy_world := w', sy_map := m', sy_onus := (sy_onus s)[i := g],
       sy_onuWg := sy_onuWg s - (if signals then 1 else 0)\<rparr>)"
| onu_panic: "sy_panic s = None \<Longrightarrow> i < length (sy_onus s) \<Longrightarrow> e \<in> go_panics (sy_map s) (sy_onus s ! i) \<Longrightarrow>
     sys_step P s (s\<lparr>sy_panic := Some e\<rparr>)"

abbreviation sys_steps :: "plant \<Rightarrow> sys \<Rightarrow> sys \<Rightarrow> bool" where
  "sys_steps P \<equiv> (sys_step P)\<^sup>*\<^sup>*"

inductive_cases go_stepE: "go_step E c d signals"
inductive_cases sys_stepE: "sys_step P s s'"

section \<open>Bounds on programs\<close>

text \<open>
  \<open>paths T C X Q p\<close>: on every path on which the library answers in \<open>T\<close> and the device in \<open>C\<close>, \<open>p\<close> ends with a value in \<open>Q\<close>, or with a
  panic if \<open>X\<close> allows panics.
\<close>

primrec paths :: "(tp_result \<Rightarrow> bool) \<Rightarrow> (rpc \<Rightarrow> go_error option \<Rightarrow> bool) \<Rightarrow> bool \<Rightarrow> ('a \<Rightarrow> bool) \<Rightarrow> 'a prog \<Rightarrow> bool" where
  "paths T C X Q (Ret x) = Q x"
| "paths T C X Q (Panic e) = X"
| "paths T C X Q (NextFlowID m k) = (\<forall>v. paths T C X Q (k v))"
| "paths T C X Q (Tag r k) = (\<forall>v. paths T C X Q (k v))"
| "paths T C X Q (LoadPon k) = (\<forall>v. paths T C X Q (k v))"
| "paths T C X Q (AddPon d k) = (\<forall>v. paths T C X Q (k v))"
| "paths T C X Q (Rand n k) = ((X \<or> 0 < n) \<and> (\<forall>v. n = 0 \<or> v < n \<longrightarrow> paths T C X Q (k v)))"
| "paths T C X Q (Call r k) = (\<forall>v. C r v \<longrightarrow> paths T C X Q (k v))"
| "paths T C X Q (TpCreate r k) = (\<forall>v. T v \<longrightarrow> paths T C X Q (k v))"

lemma paths_any [simp]: "paths T C True (\<lambda>_. True) p"
  by (induction p) auto

lemma paths_mono: "paths T C X Q p \<Longrightarrow> (\<And>x. Q x \<Longrightarrow> Q' x) \<Longrightarrow> paths T C X Q' p"
  by (induction p) auto

lemma paths_bindp: "paths T C X R m \<Longrightarrow> (\<And>x. R x \<Longrightarrow> paths T C X Q (f x)) \<Longrightarrow> paths T C X Q (bindp m f)"
  by (induction m) auto

lemma safe_paths: "safe P Q p \<Longrightarrow> paths T C X Q p"
  by (induction p) auto

lemma paths_step1:
  assumes "paths T C X Q p" "step1 E p w = Some (p', w')" "\<And>h r. T (tp_store E h r)" "\<And>h r. C r (reply E h r)"
  shows "paths T C X Q p'"
  using assms(1,2)
proof (cases p)
  case (Call r k)
  with assms(1,2) assms(4) [of r "sent w"] show ?thesis by auto
next
  case (Rand n k)
  have "n = 0 \<or> rand_src E (draws w) mod n < n" by (cases n) simp_all
  with assms(1,2) Rand show ?thesis by auto
next
  case (TpCreate r k)
  with assms(1,2) assms(3) [of "tp_calls w" r] show ?thesis by (auto simp del: split_paired_All)
qed auto

lemma paths_panics: "paths T C X Q p \<Longrightarrow> e \<in> panics_of p \<Longrightarrow> X"
  by (cases p) (auto simp: panics_of_def)

lemma panics_of_Ret [simp]: "panics_of (Ret x) = {}"
  by (simp add: panics_of_def)

section \<open>The phases of the system\<close>

definition abs_sub :: "sub_prog \<Rightarrow> sub_phase" where
  "abs_sub p = (case p of Ret (s, signalled) \<Rightarrow> if signalled then Signalled else Gone | _ \<Rightarrow> Starting)"

fun abs_onu :: "onu_go \<Rightarrow> onu_phase" where
  "abs_onu (InActivate p) = Activating"
| "abs_onu (Looking key) = Activating"
| "abs_onu Over = onu_phase.NotStarted"
| "abs_onu (Loop dev k p ss) = Creating (map abs_sub ss)"
| "abs_onu (Joining dev ss) = Creating (map abs_sub ss)"
| "abs_onu (Finished dev ss) = OnuDone (map abs_sub ss)"

definition abs_sys :: "sys \<Rightarrow> prov" where
  "abs_sys s = \<lparr>pw_batches = sy_batches s, pw_left = length (sy_ports s), pw_onuWg = sy_onuWg s,
     pw_onus = map abs_onu (sy_onus s), pw_past = map (map abs_onu) (sy_past s)\<rparr>"

lemma abs_sub_simps [simp]:
  "abs_sub (Ret (s, True)) = Signalled" "abs_sub (Ret (s, False)) = Gone"
  by (simp_all add: abs_sub_def)

lemma abs_sub_running: "step1 E p w = Some c \<Longrightarrow> abs_sub p = Starting"
  by (cases p) (auto simp: abs_sub_def)

lemma sub_reaches: "sub_step\<^sup>*\<^sup>* Starting (abs_sub p)"
proof -
  have "sub_step\<^sup>*\<^sup>* Starting Signalled"
    by (meson converse_rtranclp_into_rtranclp rtranclp.rtrancl_refl sub_step.intros)
  moreover have "sub_step\<^sup>*\<^sup>* Starting Gone" by (blast intro: sub_step.intros)
  ultimately show ?thesis by (cases p) (auto simp: abs_sub_def)
qed

text \<open>Steps of a phase without a signal, and their lifting to the ONU and to the system.\<close>

abbreviation quiet :: "nat \<Rightarrow> onu_phase \<Rightarrow> onu_phase \<Rightarrow> bool" where
  "quiet n p p' \<equiv> (\<lambda>p p'. onu_step n p p' False)\<^sup>*\<^sup>* p p'"

lemma quiet_sub:
  assumes "sub_step\<^sup>*\<^sup>* (ss ! j) x" "j < length ss"
  shows "quiet n (Creating ss) (Creating (ss[j := x]))"
  using assms(1)
proof (induction rule: rtranclp_induct)
  case (step y z)
  have "onu_step n (Creating (ss[j := y])) (Creating (ss[j := y, j := z])) False"
    using step.hyps(2) assms(2) by (intro onu_step.subscriber) simp_all
  with step.IH show ?case by (simp add: rtranclp.rtrancl_into_rtrancl)
qed simp

lemma quiet_lift:
  assumes "quiet n (pw_onus s ! i) p" "i < length (pw_onus s)"
  shows "prov_steps n L s (s\<lparr>pw_onus := (pw_onus s)[i := p]\<rparr>)"
  using assms(1)
proof (induction rule: rtranclp_induct)
  case (step y z)
  let ?s = "s\<lparr>pw_onus := (pw_onus s)[i := y]\<rparr>"
  have "prov_step n L ?s (?s\<lparr>pw_onus := (pw_onus ?s)[i := z], pw_onuWg := pw_onuWg ?s - (if False then 1 else 0)\<rparr>)"
    using step.hyps(2) assms(2) by (intro prov_step.onu) simp_all
  with step.IH show ?case by (simp add: rtranclp.rtrancl_into_rtrancl)
qed simp

section \<open>The invariant\<close>

text \<open>
  \<open>act_ok\<close> is what activations return, \<open>dev_ok\<close> is kept by devices, \<open>sub_ok\<close> by new subscribers and \<open>end_ok\<close> by what subscriber goroutines return.
  The locale collects what they need.
\<close>

locale system =
  fixes P :: plant
    and T :: "tp_result \<Rightarrow> bool"
    and C :: "rpc \<Rightarrow> go_error option \<Rightarrow> bool"
    and X :: bool
    and act_ok :: "OnuDevice \<times> bool \<Rightarrow> bool"
    and dev_ok :: "OnuDevice \<Rightarrow> bool"
    and end_ok :: "Subscriber \<times> bool \<Rightarrow> bool"
  assumes library: "T (tp_store (pl_env P) h r)"
    and answers: "C q (reply (pl_env P) h' q)"
    and activates: "provision_one (pl_pools P) (pl_mgrs P) i j pv = (Done (Some x), pv') \<Longrightarrow> j \<in> set (pl_ports P) \<Longrightarrow>
      paths T C X act_ok (activateONU (pl_cfg P) (pl_mgrs P) (sp_intfID x) (sp_onuID x)
        (sp_serial x) (sp_serialNumber x) now)"
    and activated: "act_ok (dev, ok) \<Longrightarrow> dev_ok dev"
    and config: "dev_ok dev \<Longrightarrow> od_testConfig dev = pl_cfg P"
    and device: "dev_ok (dev\<lparr>od_SubscriberMap := M\<rparr>) = dev_ok dev"
    and builds: "dev_ok dev \<Longrightarrow>
      paths T C X (\<lambda>s. paths T C X end_ok (subscriber_life s (IsGroupTest (od_testConfig dev)))) (make_subscriber dev k)"
begin

definition N :: nat where "N = unat (SubscribersPerOnu (pl_cfg P))"

fun go_ok :: "onu_map \<Rightarrow> onu_go \<Rightarrow> bool" where
  "go_ok m (InActivate p) = paths T C X act_ok p"
| "go_ok m (Looking key) = (\<exists>dev. m key = Some dev)"
| "go_ok m Over = (\<exists>dev. act_ok (dev, False))"
| "go_ok m (Loop dev k p ss) =
     (dev_ok dev \<and> k = length ss \<and> k < N \<and> (\<forall>q \<in> set ss. paths T C X end_ok q) \<and>
      paths T C X (\<lambda>s. paths T C X end_ok (subscriber_life s (IsGroupTest (od_testConfig dev)))) p)"
| "go_ok m (Joining dev ss) = (dev_ok dev \<and> length ss = N \<and> (\<forall>q \<in> set ss. paths T C X end_ok q))"
| "go_ok m (Finished dev ss) =
     (length ss = N \<and> (\<forall>q \<in> set ss. \<exists>s. q = Ret (s, True) \<and> end_ok (s, True)))"

definition sys_inv :: "sys \<Rightarrow> bool" where
  "sys_inv s \<longleftrightarrow> (\<forall>g \<in> set (sy_onus s). go_ok (sy_map s) g) \<and> (\<forall>dev \<in> ran (sy_map s). dev_ok dev) \<and>
     set (sy_ports s) \<subseteq> set (pl_ports P) \<and>
     (\<forall>gs \<in> set (sy_past s). \<forall>g \<in> set gs. \<exists>dev ss. g = Finished dev ss \<and> go_ok Map.empty g)"

lemma loop_at_ok:
  assumes "dev_ok dev" "k = length ss" "k \<le> N" "\<forall>q \<in> set ss. paths T C X end_ok q"
  shows "go_ok m (loop_at dev k ss)"
  using assms builds [OF assms(1)] config [OF assms(1)] by (simp add: loop_at_def N_def)

lemma go_ok_mono: "go_ok m g \<Longrightarrow> dom m \<subseteq> dom m' \<Longrightarrow> go_ok m' g"
  by (cases g) (auto simp: dom_def)

lemma go_step_ok:
  assumes "go_step (pl_env P) (g, w, m) (g', w', m') signals" "go_ok m g" "\<forall>dev \<in> ran m. dev_ok dev"
  shows "go_ok m' g' \<and> (\<forall>dev \<in> ran m'. dev_ok dev) \<and> dom m \<subseteq> dom m'"
  using assms
proof (cases rule: go_step.cases)
  case (store dev ok)
  with assms(2) have a: "act_ok (dev, ok)" by simp
  from activated [OF this] store assms(3) a show ?thesis by (auto simp: store_onu_def ran_def)
next
  case (start key dev)
  with assms(3) have "dev_ok dev" by (metis ranI)
  with start assms(3) show ?thesis using loop_at_ok [of "dev\<lparr>od_SubscriberMap := Map.empty\<rparr>" 0 "[]"] by (simp add: device)
next
  case (spawn dev k subs ss)
  with assms(2,3) show ?thesis by (auto simp: device intro!: loop_at_ok)
next
  case (early j ss q dev k p)
  with assms(2,3) show ?thesis
    using paths_step1 [of T C X end_ok "ss ! j" "pl_env P" _ q] library answers set_update_subset_insert [of ss j q] by auto
next
  case (late j ss q dev)
  with assms(2,3) show ?thesis
    using paths_step1 [of T C X end_ok "ss ! j" "pl_env P" _ q] library answers set_update_subset_insert [of ss j q] by auto
next
  case (wait ss dev)
  with assms(2,3) show ?thesis by fastforce
qed (auto intro: paths_step1 library answers)

text \<open>Every action of an ONU's goroutine is a signal, or phases without one.\<close>

lemma abs_loop_at [simp]: "abs_onu (loop_at dev k ss) = Creating (map abs_sub ss)"
  by (simp add: loop_at_def)

lemma subscriber_phase:
  assumes "step1 E (ss ! j) w = Some c" "j < length ss"
  shows "quiet n (Creating (map abs_sub ss)) (Creating (map abs_sub (ss[j := q])))"
proof -
  have "map abs_sub ss ! j = Starting" using assms by (simp add: abs_sub_running)
  then show ?thesis using quiet_sub [of "map abs_sub ss" j "abs_sub q" n] sub_reaches assms(2) by (simp add: map_update)
qed

lemma spawn_phase:
  assumes "length ss < n"
  shows "quiet n (Creating (map abs_sub ss)) (Creating (map abs_sub (ss @ [q])))"
proof -
  let ?ss = "map abs_sub ss @ [Starting]"
  have "onu_step n (Creating (map abs_sub ss)) (Creating ?ss) False" using assms by (intro onu_step.start_subscriber) simp
  moreover have "quiet n (Creating ?ss) (Creating (?ss[length ss := abs_sub q]))"
    by (rule quiet_sub) (simp_all add: nth_append sub_reaches)
  moreover have "?ss[length ss := abs_sub q] = map abs_sub (ss @ [q])" by (simp add: list_update_append)
  ultimately show ?thesis by (simp add: converse_rtranclp_into_rtranclp)
qed

lemma go_step_phase:
  assumes "go_step E (g, w, m) (g', w', m') signals" "go_ok m g"
  shows "if signals then onu_step N (abs_onu g) (abs_onu g') True else quiet N (abs_onu g) (abs_onu g')"
  using assms
proof (cases rule: go_step.cases)
  case (store dev ok)
  then show ?thesis by (auto intro: onu_step.refused)
next
  case (start key dev)
  then show ?thesis by (auto intro: onu_step.activated)
next
  case (spawn dev k subs ss)
  with assms(2) spawn_phase [of ss N] show ?thesis by simp
next
  case (early j ss q dev k p)
  with subscriber_phase show ?thesis by simp
next
  case (late j ss q dev)
  with subscriber_phase show ?thesis by simp
next
  case (wait ss dev)
  then have "\<forall>q \<in> set ss. abs_sub q = Signalled" by fastforce
  then have "subWg (map abs_sub ss) = 0" by (simp add: subWg_def filter_empty_conv)
  with wait assms(2) onu_step.finish [of "map abs_sub ss" N] show ?thesis by simp
qed auto

lemma sys_step_phase:
  assumes "sys_step P s s'" "sys_inv s"
  shows "prov_steps N (length (pl_ports P)) (abs_sys s) (abs_sys s')"
  using assms
proof (cases rule: sys_step.cases)
  case (start_onu j js x pv' now)
  then have "prov_step N (length (pl_ports P)) (abs_sys s) (abs_sys s')"
    using prov_step.start_onu [of "abs_sys s" "length js"] by (simp add: abs_sys_def)
  then show ?thesis by blast
next
  case (skip_onu j js pv')
  then have "prov_step N (length (pl_ports P)) (abs_sys s) (abs_sys s')"
    using prov_step.skip_onu [of "abs_sys s" "length js"] by (simp add: abs_sys_def)
  then show ?thesis by blast
next
  case (next_batch b)
  then have "prov_step N (length (pl_ports P)) (abs_sys s) (abs_sys s')"
    using prov_step.next_batch [of "abs_sys s" b] by (simp add: abs_sys_def)
  then show ?thesis by blast
next
  case (onu i g w' m' signals)
  then have "go_ok (sy_map s) (sy_onus s ! i)" using assms(2) by (simp add: sys_inv_def)
  note phase = go_step_phase [OF onu(4) this]
  show ?thesis
  proof (cases signals)
    case True
    with onu phase prov_step.onu [of i "abs_sys s" N "abs_onu g" True "length (pl_ports P)"]
    have "prov_step N (length (pl_ports P)) (abs_sys s) (abs_sys s')" by (simp add: abs_sys_def map_update)
    then show ?thesis by blast
  next
    case False
    with onu phase quiet_lift [of N "abs_sys s" i "abs_onu g" "length (pl_ports P)"]
    show ?thesis by (simp add: abs_sys_def map_update)
  qed
qed (simp_all add: abs_sys_def)

lemma sys_step_inv:
  assumes "sys_step P s s'" "sys_inv s" "prov_inv N (abs_sys s)"
  shows "sys_inv s'"
proof -
  have onus: "\<And>g. g \<in> set (sy_onus s) \<Longrightarrow> go_ok (sy_map s) g" and devs: "\<forall>dev \<in> ran (sy_map s). dev_ok dev"
    and ports: "set (sy_ports s) \<subseteq> set (pl_ports P)"
    and past: "\<And>gs g. gs \<in> set (sy_past s) \<Longrightarrow> g \<in> set gs \<Longrightarrow> \<exists>dev ss. g = Finished dev ss \<and> go_ok Map.empty g"
    using assms(2) by (auto simp: sys_inv_def)
  from assms(1) show ?thesis
  proof (cases rule: sys_step.cases)
    case (start_onu j js x pv' now)
    then have "go_ok (sy_map s) (InActivate (activateONU (pl_cfg P) (pl_mgrs P) (sp_intfID x) (sp_onuID x)
        (sp_serial x) (sp_serialNumber x) now))"
      using activates [OF start_onu(5)] ports by simp
    with start_onu assms(2) show ?thesis by (auto simp: sys_inv_def)
  next
    case (onu i g w' m' signals)
    note ok = go_step_ok [OF onu(4) onus devs]
    have "go_ok m' g'" if "g' \<in> set ((sy_onus s)[i := g])" for g'
      using that ok onus onu(3) set_update_subset_insert [of "sy_onus s" i g] go_ok_mono by (metis insert_iff nth_mem subsetD)
    with onu ok assms(2) show ?thesis by (simp add: sys_inv_def)
  next
    case (next_batch b)
    have "\<exists>dev ss. g = Finished dev ss \<and> go_ok Map.empty g" if g: "g \<in> set (sy_onus s)" for g
    proof -
      have "complete N (abs_onu g)"
        using assms(3) next_batch(5) g by (auto simp: prov_inv_def abs_sys_def filter_empty_conv)
      with onus [OF g] show ?thesis by (cases g) (simp_all add: complete_def)
    qed
    with next_batch assms(2) show ?thesis by (auto simp: sys_inv_def)
  qed (use assms(2) in \<open>auto simp: sys_inv_def\<close>)
qed

lemma sys_init_inv: "sys_inv (sys_init P b v w)"
  by (simp add: sys_inv_def sys_init_def)

lemma reachable:
  assumes "sys_steps P (sys_init P b v w) s"
  shows "sys_inv s \<and> prov_inv N (abs_sys s) \<and>
     prov_steps N (length (pl_ports P)) (prov_init b (length (pl_ports P))) (abs_sys s) \<and>
     sy_batch s + sy_batches s = b"
  using assms
proof (induction rule: rtranclp_induct)
  case base
  have "abs_sys (sys_init P b v w) = prov_init b (length (pl_ports P))"
    by (simp add: abs_sys_def sys_init_def prov_init_def)
  then show ?case using sys_init_inv prov_inv_init by (simp add: sys_init_def)
next
  case (step y z)
  note steps = sys_step_phase [OF step.hyps(2)]
  have "sy_batch z + sy_batches z = sy_batch y + sy_batches y"
    using step.hyps(2) by (cases rule: sys_step.cases) simp_all
  with step.IH steps sys_step_inv [OF step.hyps(2)] show ?case
    by (auto intro: prov_steps_inv rtranclp_trans)
qed

text \<open>What is left when nothing can move.\<close>

lemma sub_stuck:
  assumes "step1 E q w = None" "panics_of q = {}"
  shows "\<exists>s signalled. q = Ret (s, signalled)"
  using assms step1_progress [of q E w] by (auto simp: panics_of_def)

lemma go_panics_allowed: "go_ok m g \<Longrightarrow> e \<in> go_panics m g \<Longrightarrow> X"
  by (cases g) (auto dest: paths_panics split: if_splits)

lemma onu_panics_allowed:
  "sys_inv s \<Longrightarrow> i < length (sy_onus s) \<Longrightarrow> e \<in> go_panics (sy_map s) (sy_onus s ! i) \<Longrightarrow> X"
  by (rule go_panics_allowed) (simp_all add: sys_inv_def)

lemma go_stuck:
  assumes "go_ok m g" "go_panics m g = {}" "\<not> (\<exists>c signals. go_step E (g, w, m) c signals)"
  shows "g = Over \<or> (\<exists>dev ss. g = Finished dev ss) \<or>
     (\<exists>dev ss s. g = Joining dev ss \<and> Ret (s, False) \<in> set ss)"
proof (cases g)
  case (InActivate p)
  have "step1 E p w = None" using assms(3) InActivate go_step.activate [of E p w _ _ m] by (cases "step1 E p w") force+
  moreover have "panics_of p = {}" using assms(2) InActivate by simp
  ultimately obtain dev ok where "p = Ret (dev, ok)"
    using step1_progress [of p E w] by (auto simp: panics_of_def)
  with assms(3) InActivate go_step.store [of E dev ok w m] show ?thesis by blast
next
  case (Looking key)
  with assms(1) obtain dev where "m key = Some dev" by auto
  with go_step.start [of m key dev E w] assms(3) Looking show ?thesis by blast
next
  case (Loop dev k p ss)
  have "step1 E p w = None" using assms(3) Loop go_step.build [of E p w _ _ dev k ss m] by (cases "step1 E p w") force+
  moreover have "panics_of p = {}" using assms(2) Loop by simp
  ultimately obtain subs where "p = Ret subs" using step1_progress [of p E w] by (auto simp: panics_of_def)
  with assms(3) Loop go_step.spawn [of E dev k subs ss w m] show ?thesis by blast
next
  case (Joining dev ss)
  have "\<exists>s signalled. q = Ret (s, signalled)" if q: "q \<in> set ss" for q
  proof -
    obtain j where j: "j < length ss" "ss ! j = q" using q by (auto simp: in_set_conv_nth)
    have "step1 E q w = None"
      using assms(3) Joining j go_step.late [of j ss E w _ _ dev m] by (cases "step1 E q w") force+
    moreover have "panics_of q = {}" using assms(2) Joining q by auto
    ultimately show ?thesis by (rule sub_stuck)
  qed
  then have "(\<forall>q \<in> set ss. \<exists>s. q = Ret (s, True)) \<or> (\<exists>s. Ret (s, False) \<in> set ss)" by (metis (full_types))
  with assms(3) Joining go_step.wait [of ss E dev w m] show ?thesis by blast
qed auto

lemma stuck:
  assumes "sys_inv s" "prov_inv N (abs_sys s)" "\<not> (\<exists>s'. sys_step P s s')" "sy_panic s = None"
  shows "sy_batches s = 0 \<or>
     (\<exists>g \<in> set (sy_onus s). g = Over \<or> (\<exists>dev ss x. g = Joining dev ss \<and> Ret (x, False) \<in> set ss))"
proof (rule disjCI)
  assume none: "\<not> (\<exists>g \<in> set (sy_onus s). g = Over \<or> (\<exists>dev ss x. g = Joining dev ss \<and> Ret (x, False) \<in> set ss))"
  have fin: "\<exists>dev ss. g = Finished dev ss" if g: "g \<in> set (sy_onus s)" for g
  proof -
    obtain i where i: "i < length (sy_onus s)" "sy_onus s ! i = g" using g by (auto simp: in_set_conv_nth)
    have "go_panics (sy_map s) g = {}"
      using assms(3,4) i sys_step.onu_panic [of s i] by blast
    moreover have "\<not> (\<exists>c signals. go_step (pl_env P) (g, sy_world s, sy_map s) c signals)"
      using assms(3,4) i sys_step.onu [of s i] by (metis prod_cases3)
    moreover have "go_ok (sy_map s) g" using assms(1) g by (simp add: sys_inv_def)
    ultimately show ?thesis using go_stuck none g by metis
  qed
  show "sy_batches s = 0"
  proof (rule ccontr)
    assume b: "sy_batches s \<noteq> 0"
    show False
    proof (cases "sy_ports s")
      case (Cons j js)
      obtain r pv' where r: "provision_one (pl_pools P) (pl_mgrs P) (of_nat (sy_batch s)) j (sy_pv s) = (r, pv')" by fastforce
      show False
      proof (cases r)
        case (Done x)
        with assms(3,4) b Cons r sys_step.start_onu [of s j js P] sys_step.skip_onu [of s j js P] show False
          by (cases x) blast+
      next
        case (Crashed e)
        with assms(3,4) b Cons r sys_step.prov_panic [of s j js P] show False by blast
      qed
    next
      case Nil
      have "\<forall>g \<in> set (sy_onus s). complete N (abs_onu g)"
      proof
        fix g assume g: "g \<in> set (sy_onus s)"
        then have "onu_ok N (abs_onu g)" using assms(2) by (simp add: prov_inv_def abs_sys_def)
        with fin [OF g] show "complete N (abs_onu g)" by (auto simp: complete_def)
      qed
      then have "sy_onuWg s = 0" using assms(2) by (simp add: prov_inv_def abs_sys_def filter_empty_conv)
      moreover obtain b' where "sy_batches s = Suc b'" using b not0_implies_Suc by blast
      ultimately show False using assms(3,4) Nil sys_step.next_batch [of s] by blast
    qed
  qed
qed

end

section \<open>Termination\<close>

text \<open>
  The work of the system is a multiset of tasks: the provisioner, and what the goroutines of ONUs and subscribers have in
  front of them. A task is ranked by its kind, then by the iterations left, then by its program. Every
  step replaces a task by smaller ones.
\<close>

definition strip_prog :: "'a prog \<Rightarrow> unit prog" where
  "strip_prog p = bindp p (\<lambda>_. Ret ())"

lemma step1_bindp: "step1 E p w = Some (p', w') \<Longrightarrow> step1 E (bindp p f) w = Some (bindp p' f, w')"
  by (cases p) auto

lemma strip_next: "step1 E p w = Some (p', w') \<Longrightarrow> (strip_prog p', strip_prog p) \<in> next_rel E"
  using step1_bindp unfolding strip_prog_def next_rel_def by blast

type_synonym task = "nat \<times> nat \<times> unit prog"

definition task_rel :: "env \<Rightarrow> (task \<times> task) set" where
  "task_rel E = less_than <*lex*> less_than <*lex*> next_rel E"

lemma wf_task_rel: "wf (task_rel E)"
  by (simp add: task_rel_def wf_next_rel wf_lex_prod)

lemma task_rel_iff:
  "((r', n', p'), (r, n, p)) \<in> task_rel E \<longleftrightarrow> r' < r \<or> r' = r \<and> (n' < n \<or> n' = n \<and> (p', p) \<in> next_rel E)"
  by (simp add: task_rel_def)

definition sub_tasks :: "sub_prog list \<Rightarrow> task multiset" where
  "sub_tasks ss = mset (map (\<lambda>p. (0, 0, strip_prog p)) ss)"

fun onu_tasks :: "onu_go \<Rightarrow> task multiset" where
  "onu_tasks (InActivate p) = {#(4, 0, strip_prog p)#}"
| "onu_tasks (Looking key) = {#(3, 0, Ret ())#}"
| "onu_tasks Over = {#}"
| "onu_tasks (Loop dev k p ss) =
     add_mset (2, unat (SubscribersPerOnu (od_testConfig dev)) - k, strip_prog p) (sub_tasks ss)"
| "onu_tasks (Joining dev ss) = add_mset (1, 0, Ret ()) (sub_tasks ss)"
| "onu_tasks (Finished dev ss) = sub_tasks ss"

definition sys_tasks :: "plant \<Rightarrow> sys \<Rightarrow> task multiset" where
  "sys_tasks P s =
     add_mset (5, sy_batches s * Suc (length (pl_ports P)) + length (sy_ports s), Ret ())
       (\<Sum>\<^sub># (mset (map onu_tasks (sy_onus s))))"

text \<open>One task is replaced by smaller ones.\<close>

definition drops :: "('a \<times> 'a) set \<Rightarrow> 'a multiset \<Rightarrow> 'a multiset \<Rightarrow> bool" where
  "drops r A B \<longleftrightarrow> (\<exists>I j K. B = add_mset j I \<and> A = I + K \<and> (\<forall>k \<in># K. (k, j) \<in> r))"

lemma dropsI: "\<forall>k \<in># K. (k, j) \<in> r \<Longrightarrow> drops r (I + K) (add_mset j I)"
  by (auto simp: drops_def)

lemma drops_one: "(k, j) \<in> r \<Longrightarrow> drops r (add_mset k I) (add_mset j I)"
  using dropsI [of "{#k#}" j r I] by simp

lemma drops_none: "drops r I (add_mset j I)"
  using dropsI [of "{#}" j r I] by simp

lemma drops_add: "drops r A B \<Longrightarrow> drops r (A + R) (B + R)"
  unfolding drops_def by (metis union_mset_add_mset_left union_assoc union_commute)

lemma drops_mult: "drops r A B \<Longrightarrow> (A, B) \<in> mult r"
proof -
  assume "drops r A B"
  then obtain I j K where "B = I + {#j#}" "A = I + K" "\<forall>k \<in># K. \<exists>l \<in># {#j#}. (k, l) \<in> r"
    by (auto simp: drops_def)
  then show ?thesis using one_step_implies_mult [of "{#j#}" K r I] by simp
qed

lemma mset_map_update:
  assumes "j < length xs"
  shows "\<exists>R. mset (map f xs) = add_mset (f (xs ! j)) R \<and> mset (map f (xs[j := y])) = add_mset (f y) R"
proof -
  have "f (xs ! j) \<in># mset (map f xs)" using assms by simp
  then have "mset (map f xs) = add_mset (f (xs ! j)) (mset (map f xs) - {#f (xs ! j)#})" by simp
  with assms show ?thesis by (auto simp: map_update mset_update)
qed

lemma sub_tasks_step:
  assumes "j < length ss" "step1 E (ss ! j) w = Some (q, w')"
  shows "drops (task_rel E) (sub_tasks (ss[j := q])) (sub_tasks ss)"
proof -
  let ?f = "\<lambda>p. (0, 0, strip_prog p) :: task"
  obtain R where "sub_tasks ss = add_mset (?f (ss ! j)) R" "sub_tasks (ss[j := q]) = add_mset (?f q) R"
    using mset_map_update [OF assms(1), of ?f q] by (auto simp: sub_tasks_def)
  with strip_next [OF assms(2)] show ?thesis by (simp add: drops_one task_rel_iff)
qed

lemma drops_add_mset: "drops r A B \<Longrightarrow> drops r (add_mset x A) (add_mset x B)"
  using drops_add [of r A B "{#x#}"] by simp

lemma go_step_drops:
  assumes "go_step E (g, w, m) (g', w', m') signals"
  shows "drops (task_rel E) (onu_tasks g') (onu_tasks g)"
  using assms
proof (cases rule: go_step.cases)
  case (activate p p')
  then show ?thesis by (auto simp: task_rel_iff intro!: drops_one strip_next)
next
  case (store dev ok)
  then show ?thesis by (auto simp: task_rel_iff intro: drops_one drops_none)
next
  case (start key dev)
  then show ?thesis by (auto simp: task_rel_iff loop_at_def sub_tasks_def intro: drops_one)
next
  case (build p p' dev k ss)
  then show ?thesis by (auto simp: task_rel_iff intro!: drops_one strip_next)
next
  case (spawn dev k subs ss)
  let ?n = "unat (SubscribersPerOnu (od_testConfig dev))"
    and ?q = "(0, 0, strip_prog (subscriber_life subs (IsGroupTest (od_testConfig dev)))) :: task"
    and ?dev = "dev\<lparr>od_SubscriberMap := (od_SubscriberMap dev)(SubscriberName subs \<mapsto> subs)\<rparr>"
  define x :: task where "x = (if Suc k < ?n then (2, ?n - Suc k, strip_prog (make_subscriber ?dev (Suc k))) else (1, 0, Ret ()))"
  have "onu_tasks g' = sub_tasks ss + {#?q, x#}"
    using spawn by (simp add: loop_at_def sub_tasks_def x_def)
  moreover have "\<forall>t \<in># {#?q, x#}. (t, (2, ?n - k, strip_prog (Ret subs))) \<in> task_rel E"
    by (auto simp: task_rel_iff x_def)
  ultimately show ?thesis using spawn dropsI [of "{#?q, x#}"] by simp
next
  case (early j ss q dev k p)
  with sub_tasks_step [of j ss E w q w'] show ?thesis by (simp add: drops_add_mset)
next
  case (late j ss q dev)
  with sub_tasks_step [of j ss E w q w'] show ?thesis by (simp add: drops_add_mset)
next
  case (wait ss dev)
  then show ?thesis by (simp add: drops_none)
qed

text \<open>Nothing moves after a panic, so a panic counts as progress.\<close>

definition sys_rel :: "plant \<Rightarrow> (sys \<times> sys) set" where
  "sys_rel P = inv_image (less_than <*lex*> mult (task_rel (pl_env P)))
     (\<lambda>s. (if sy_panic s = None then 1 else 0 :: nat, sys_tasks P s))"

lemma wf_sys_rel: "wf (sys_rel P)"
  by (simp add: sys_rel_def wf_lex_prod wf_mult wf_task_rel)

lemma sys_relI: "sy_panic s' = sy_panic s \<Longrightarrow> drops (task_rel (pl_env P)) (sys_tasks P s') (sys_tasks P s) \<Longrightarrow> (s', s) \<in> sys_rel P"
  by (simp add: sys_rel_def drops_mult)

lemma sys_step_less:
  assumes "sys_step P s s'"
  shows "(s', s) \<in> sys_rel P"
  using assms
proof (cases rule: sys_step.cases)
  case (start_onu j js x pv' now)
  let ?S = "\<Sum>\<^sub># (mset (map onu_tasks (sy_onus s)))" and ?b = "sy_batches s * Suc (length (pl_ports P))"
  define q where "q = strip_prog (activateONU (pl_cfg P) (pl_mgrs P) (sp_intfID x) (sp_onuID x) (sp_serial x) (sp_serialNumber x) now)"
  have "sys_tasks P s' = ?S + {#(4, 0, q), (5, ?b + length js, Ret ())#}"
    using start_onu by (simp add: sys_tasks_def q_def)
  moreover have "sys_tasks P s = add_mset (5, ?b + Suc (length js), Ret ()) ?S" using start_onu by (simp add: sys_tasks_def)
  ultimately have "drops (task_rel (pl_env P)) (sys_tasks P s') (sys_tasks P s)"
    using dropsI [of "{#(4, 0, q), (5, ?b + length js, Ret ())#}" _ _ ?S] by (simp add: task_rel_iff)
  with start_onu show ?thesis by (intro sys_relI) simp_all
next
  case (skip_onu j js pv')
  then show ?thesis by (intro sys_relI) (simp_all add: sys_tasks_def task_rel_iff drops_one)
next
  case (next_batch b)
  let ?K = "{#(5, b * Suc (length (pl_ports P)) + length (pl_ports P), Ret ()) :: task#}"
  have "sys_tasks P s' = {#} + ?K" using next_batch by (simp add: sys_tasks_def)
  moreover have "\<forall>k \<in># ?K. \<exists>j \<in># sys_tasks P s. (k, j) \<in> task_rel (pl_env P)"
    using next_batch by (simp add: sys_tasks_def task_rel_iff)
  moreover have "sys_tasks P s \<noteq> {#}" by (simp add: sys_tasks_def)
  ultimately have "(sys_tasks P s', {#} + sys_tasks P s) \<in> mult (task_rel (pl_env P))"
    using one_step_implies_mult by metis
  with next_batch show ?thesis by (simp add: sys_rel_def)
next
  case (onu i g w' m' signals)
  obtain R where R: "mset (map onu_tasks (sy_onus s)) = add_mset (onu_tasks (sy_onus s ! i)) R"
    "mset (map onu_tasks ((sy_onus s)[i := g])) = add_mset (onu_tasks g) R"
    using mset_map_update [OF onu(3)] by blast
  have "drops (task_rel (pl_env P)) (onu_tasks g + \<Sum>\<^sub># R) (onu_tasks (sy_onus s ! i) + \<Sum>\<^sub># R)"
    by (intro drops_add go_step_drops [OF onu(4)])
  with R onu show ?thesis by (intro sys_relI) (simp_all add: sys_tasks_def drops_add_mset)
qed (simp_all add: sys_rel_def)

lemma sys_terminates: "wf {(s', s). sys_step P s s'}"
  by (rule wf_subset [OF wf_sys_rel [of P]]) (auto simp: sys_step_less)

section \<open>The contract on the code\<close>

text \<open>Any environment: nothing is excluded, and the devices carry the configuration.\<close>

lemma activate_config: "paths T C True (\<lambda>r. od_testConfig (fst r) = cfg) (activateONU cfg mgrs i o' sn s now)"
  by (simp add: activateONU_def Let_def split: option.split)

interpretation phases: system P "\<lambda>_. True" "\<lambda>_ _. True" True "\<lambda>r. od_testConfig (fst r) = pl_cfg P"
  "\<lambda>dev. od_testConfig dev = pl_cfg P" "\<lambda>_. True" for P
  by unfold_locales (simp_all add: activate_config)

text \<open>From every state the system comes to rest.\<close>

lemma wf_rests:
  assumes "wf {(s', s). R s s'}"
  shows "\<exists>s'. R\<^sup>*\<^sup>* s s' \<and> \<not> (\<exists>t. R s' t)"
  using assms
proof (induction s)
  case (less s)
  show ?case
  proof (cases "\<exists>t. R s t")
    case True
    then obtain t where t: "R s t" by blast
    with less obtain u where "R\<^sup>*\<^sup>* t u" "\<not> (\<exists>v. R u v)" by blast
    with t show ?thesis by (meson converse_rtranclp_into_rtranclp)
  qed blast
qed

lemmas sys_rests = wf_rests [OF sys_terminates]

lemma finished_past:
  assumes "system P T C X act_ok dev_ok end_ok" "system.sys_inv P T C X act_ok dev_ok end_ok s" "gs \<in> set (sy_past s)" "g \<in> set gs"
  shows "\<exists>dev ss. g = Finished dev ss \<and> length ss = unat (SubscribersPerOnu (pl_cfg P)) \<and>
     (\<forall>q \<in> set ss. \<exists>x. q = Ret (x, True) \<and> end_ok (x, True))"
  using assms(2-4) unfolding system.sys_inv_def [OF assms(1)]
  by (force simp: system.go_ok.simps [OF assms(1)] system.N_def [OF assms(1)])

text \<open>Two ports, one ONU each.\<close>

definition sample_plant :: plant where
  "sample_plant = \<lparr>pl_env = accepting, pl_pools = (\<lambda>h i j. Done ([of_nat (length h)], None)), pl_cfg = sample_config ''TT'',
     pl_mgrs = [sample_manager 0, sample_manager 1], pl_ports = [0, 1]\<rparr>"

section \<open>Properties\<close>

text \<open>
  C11: the goroutines implement the phases of the wait groups. Whatever device, library and pools answer, every run of the provisioner, the ONUs and the
  subscribers is a run of the phases; in particular every ONU of an earlier batch has ended, with all of its
  subscribers created and signalled.
\<close>

theorem system_refines_phases:
  assumes "sys_steps P (sys_init P batches v w) s"
  shows "prov_steps (unat (SubscribersPerOnu (pl_cfg P))) (length (pl_ports P)) (prov_init batches (length (pl_ports P))) (abs_sys s) \<and>
     (\<forall>gs \<in> set (sy_past s). \<forall>g \<in> set gs. \<exists>dev ss. g = Finished dev ss \<and>
        length ss = unat (SubscribersPerOnu (pl_cfg P)) \<and> (\<forall>q \<in> set ss. \<exists>x. q = Ret (x, True)))"
  using phases.reachable [OF assms] finished_past [OF phases.system_axioms] by (fastforce simp: phases.N_def)

theorem system_refines_phases_witness:
  "\<exists>s. sys_steps sample_plant (sys_init sample_plant 1 1000 world_init) s \<and> \<not> (\<exists>s'. sys_step sample_plant s s') \<and>
     prov_steps 1 2 (prov_init 1 2) (abs_sys s)"
proof -
  obtain s where s: "sys_steps sample_plant (sys_init sample_plant 1 1000 world_init) s" "\<not> (\<exists>s'. sys_step sample_plant s s')"
    using sys_rests by blast
  moreover have "unat (SubscribersPerOnu (pl_cfg sample_plant)) = 1" "length (pl_ports sample_plant) = 2"
    by (simp_all add: sample_plant_def sample_config_def NewOpenOltScaleTesterConfig_def config_defaults)
  ultimately show ?thesis using system_refines_phases [OF s(1)] by auto
qed

text \<open>
  C13: provisioning comes to rest, for any environment: no run is infinite, and when nothing can move any more then a goroutine has
  panicked, or all batches are done, or the current batch has an ONU that the device refused or a subscriber that
  ended without signalling.
\<close>

theorem system_rests:
  assumes "sys_steps P (sys_init P batches v w) s" "\<not> (\<exists>s'. sys_step P s s')"
  shows "wf {(s', s). sys_step P s s'} \<and>
     (sy_panic s \<noteq> None \<or> sy_batches s = 0 \<or>
      (\<exists>g \<in> set (sy_onus s). g = Over \<or> (\<exists>dev ss x. g = Joining dev ss \<and> Ret (x, False) \<in> set ss)))"
  using phases.reachable [OF assms(1)] phases.stuck [OF _ _ assms(2)] sys_terminates [of P] by blast

text \<open>A device that refuses every ONU.\<close>

definition refusing_plant :: plant where
  "refusing_plant = sample_plant\<lparr>pl_env := accepting\<lparr>reply := (\<lambda>h r. Some (StatusError AlreadyExists []))\<rparr>\<rparr>"

theorem system_rests_witness:
  "\<exists>s. sys_steps refusing_plant (sys_init refusing_plant 1 1000 world_init) s \<and>
     (sy_panic s \<noteq> None \<or> sy_batches s = 0 \<or>
      (\<exists>g \<in> set (sy_onus s). g = Over \<or> (\<exists>dev ss x. g = Joining dev ss \<and> Ret (x, False) \<in> set ss)))"
proof -
  obtain s where s: "sys_steps refusing_plant (sys_init refusing_plant 1 1000 world_init) s" "\<not> (\<exists>s'. sys_step refusing_plant s s')"
    using sys_rests by blast
  from s(1) system_rests [OF s] show ?thesis by blast
qed

end
