(* ===== verification/Healthy_Run.thy ===== *)
theory Healthy_Run
  imports Goroutines Onu_Ids
begin

text \<open>
  The provisioning in an environment that works: the library delivers, the device accepts the ONUs, there are IDs and managers
  enough. The lemmas instantiate the contract of \<open>Goroutines\<close> for it and count the ONUs; the property is total correctness.
\<close>

section \<open>Working environments\<close>

text \<open>
  A working environment: the library delivers instances with schedulers, the device accepts ONUs, the pools have an ID for
  each planned ONU, the managers suffice for the batches and the ports, and the configuration names a workflow and a
  profile.
\<close>

definition delivered :: "tp_result \<Rightarrow> bool" where
  "delivered v \<longleftrightarrow>
     (case v of (Some inst, None) \<Rightarrow> tp_UsScheduler inst \<noteq> None \<and> tp_DsScheduler inst \<noteq> None | _ \<Rightarrow> False)"

definition accepts_onus :: "rpc \<Rightarrow> go_error option \<Rightarrow> bool" where
  "accepts_onus r v \<longleftrightarrow> (case r of ActivateOnu onu \<Rightarrow> v = None | _ \<Rightarrow> True)"

definition plentiful :: "onu_pools \<Rightarrow> nat \<Rightarrow> nat \<Rightarrow> uint32 list \<Rightarrow> bool" where
  "plentiful pools mgrs batches ports \<longleftrightarrow>
     (\<forall>h i j. list_all (\<lambda>c. unat (fst c) < mgrs) h \<and> unat i < mgrs \<and>
        (\<forall>k. count_list (map snd h) k \<le> batches * count_list ports k) \<and>
        count_list (map snd h) j < batches * count_list ports j \<longrightarrow>
        (\<exists>onuID rest. pools h i j = Done (onuID # rest, None)))"

definition plant_ok :: "plant \<Rightarrow> nat \<Rightarrow> bool" where
  "plant_ok P batches \<longleftrightarrow>
     (\<forall>h r. accepts_onus r (reply (pl_env P) h r)) \<and>
     plentiful (pl_pools P) (length (pl_mgrs P)) batches (pl_ports P) \<and> batches \<le> length (pl_mgrs P) \<and> (\<forall>j \<in> set (pl_ports P). unat j < length (pl_mgrs P)) \<and>
     WorkflowName (pl_cfg P) \<in> {''ATT'', ''DT'', ''TT''} \<and> TpIDList (pl_cfg P) \<noteq> [] \<and>
     (IsGroupTest (pl_cfg P) \<longrightarrow> (\<forall>m \<in> set (pl_mgrs P). di_PonPorts (rm_deviceInfo m) \<noteq> 0))"

definition healthy_plant :: "plant \<Rightarrow> nat \<Rightarrow> bool" where
  "healthy_plant P batches \<longleftrightarrow> (\<forall>h r. delivered (tp_store (pl_env P) h r)) \<and> plant_ok P batches"

definition good_device :: "plant \<Rightarrow> OnuDevice \<Rightarrow> bool" where
  "good_device P dev \<longleftrightarrow> od_testConfig dev = pl_cfg P \<and> od_rsrMgr dev \<in> set (pl_mgrs P)"

definition deployed :: "bool \<Rightarrow> Subscriber \<times> bool \<Rightarrow> bool" where
  "deployed isGroup r \<longleftrightarrow> snd r \<and> (\<exists>subs err. deployable isGroup subs \<and> fst r = with_reason subs err \<and>
     (\<not> isGroup \<longrightarrow> reason_error err))"

lemma deliveredD:
  "delivered (i, err) \<Longrightarrow> \<exists>inst. i = Some inst \<and> err = None \<and> tp_UsScheduler inst \<noteq> None \<and> tp_DsScheduler inst \<noteq> None"
  by (simp add: delivered_def split: option.splits)

lemma paths_create:
  assumes "\<forall>inst \<in> ran (TpInstance subs). tp_UsScheduler inst \<noteq> None \<and> tp_DsScheduler inst \<noteq> None"
  shows "paths delivered C X (\<lambda>(s, flag). flag \<and> s = subs\<lparr>TpInstance := TpInstance s\<rparr> \<and>
      set ids \<union> dom (TpInstance subs) \<subseteq> dom (TpInstance s) \<and>
      (\<forall>inst \<in> ran (TpInstance s). tp_UsScheduler inst \<noteq> None \<and> tp_DsScheduler inst \<noteq> None))
    (create_tp_instances ids subs)"
  using assms
proof (induction ids arbitrary: subs)
  case (Cons tpID ids)
  have "paths delivered C X (\<lambda>(s, flag). flag \<and> s = subs\<lparr>TpInstance := TpInstance s\<rparr> \<and>
      set (tpID # ids) \<union> dom (TpInstance subs) \<subseteq> dom (TpInstance s) \<and>
      (\<forall>inst \<in> ran (TpInstance s). tp_UsScheduler inst \<noteq> None \<and> tp_DsScheduler inst \<noteq> None))
    (create_tp_instances ids (subs\<lparr>TpInstance := (TpInstance subs)(tpID \<mapsto> inst)\<rparr>))"
    if "tp_UsScheduler inst \<noteq> None" "tp_DsScheduler inst \<noteq> None" for inst
  proof (rule paths_mono [OF Cons.IH])
    show "\<forall>i \<in> ran (TpInstance (subs\<lparr>TpInstance := (TpInstance subs)(tpID \<mapsto> inst)\<rparr>)). tp_UsScheduler i \<noteq> None \<and> tp_DsScheduler i \<noteq> None"
      using Cons.prems that by (auto simp: ran_def)
  next
    fix r assume r: "case r of (s, flag) \<Rightarrow> flag \<and>
      s = subs\<lparr>TpInstance := (TpInstance subs)(tpID \<mapsto> inst), TpInstance := TpInstance s\<rparr> \<and>
      set ids \<union> dom (TpInstance (subs\<lparr>TpInstance := (TpInstance subs)(tpID \<mapsto> inst)\<rparr>)) \<subseteq> dom (TpInstance s) \<and>
      (\<forall>inst \<in> ran (TpInstance s). tp_UsScheduler inst \<noteq> None \<and> tp_DsScheduler inst \<noteq> None)"
    have "dom (TpInstance (subs\<lparr>TpInstance := (TpInstance subs)(tpID \<mapsto> inst)\<rparr>)) = insert tpID (dom (TpInstance subs))"
      by simp
    with r show "case r of (s, flag) \<Rightarrow> flag \<and> s = subs\<lparr>TpInstance := TpInstance s\<rparr> \<and>
      set (tpID # ids) \<union> dom (TpInstance subs) \<subseteq> dom (TpInstance s) \<and>
      (\<forall>inst \<in> ran (TpInstance s). tp_UsScheduler inst \<noteq> None \<and> tp_DsScheduler inst \<noteq> None)"
      by (cases r) simp
  qed
  then show ?case by (auto simp: Let_def dest!: deliveredD)
qed simp

lemma paths_start:
  assumes "WorkflowName (TestConfig subs) \<in> {''ATT'', ''DT'', ''TT''}" "TpIDList (TestConfig subs) \<noteq> []"
    and "isGroup \<longrightarrow> di_PonPorts (rm_deviceInfo (RsrMgr subs)) \<noteq> 0"
  shows "paths delivered C X (\<lambda>(s, flag). flag \<and> deployable isGroup s) (Subscriber_Start subs)"
  unfolding Subscriber_Start_def
proof (rule paths_mono [OF paths_create])
  fix r assume "case r of (s, flag) \<Rightarrow> flag \<and> s = subs\<lparr>TpInstance := Map.empty, TpInstance := TpInstance s\<rparr> \<and>
    set (TpIDList (TestConfig subs)) \<union> dom (TpInstance (subs\<lparr>TpInstance := Map.empty\<rparr>)) \<subseteq> dom (TpInstance s) \<and>
    (\<forall>inst \<in> ran (TpInstance s). tp_UsScheduler inst \<noteq> None \<and> tp_DsScheduler inst \<noteq> None)"
  then obtain s where s: "r = (s, True)" "s = subs\<lparr>TpInstance := TpInstance s\<rparr>"
    "set (TpIDList (TestConfig subs)) \<subseteq> dom (TpInstance s)"
    "\<forall>inst \<in> ran (TpInstance s). tp_UsScheduler inst \<noteq> None \<and> tp_DsScheduler inst \<noteq> None"
    by (cases r) auto
  have same: "TestConfig s = TestConfig subs" "RsrMgr s = RsrMgr subs"
    using arg_cong [OF s(2), of TestConfig] arg_cong [OF s(2), of RsrMgr] by simp_all
  obtain inst where "TpInstance s (hd (TpIDList (TestConfig subs))) = Some inst"
    using s(3) assms(2) by (metis domD hd_in_set subsetD)
  with s(4) have "ready s" using assms(2) by (auto simp: ready_def same intro: ranI)
  with assms(1,3) show "case r of (s, flag) \<Rightarrow> flag \<and> deployable isGroup s"
    by (auto simp: s(1) deployable_def same getWorkFlow_def)
qed simp

lemma paths_life:
  assumes "WorkflowName (TestConfig subs) \<in> {''ATT'', ''DT'', ''TT''}" "TpIDList (TestConfig subs) \<noteq> []"
    and "isGroup \<longrightarrow> di_PonPorts (rm_deviceInfo (RsrMgr subs)) \<noteq> 0"
  shows "paths delivered C X (deployed isGroup) (subscriber_life subs isGroup)"
proof -
  note start = paths_start [OF assms]
  have "paths delivered C X (\<lambda>s'. deployed isGroup (s', True)) (DeployWorkflow s isGroup)" if "deployable isGroup s" for s
    by (rule paths_mono [OF safe_paths [OF safe_DeployWorkflow [OF that]]]) (use that in \<open>auto simp: deployed_def\<close>)
  then show ?thesis unfolding subscriber_life_def
    by (intro paths_bindp [OF start]) (auto intro!: paths_bindp)
qed

lemma healthy_system:
  assumes "healthy_plant P batches"
  shows "system P delivered accepts_onus False (\<lambda>r. good_device P (fst r) \<and> snd r) (good_device P) (deployed (IsGroupTest (pl_cfg P)))"
proof
  show "delivered (tp_store (pl_env P) h r)" "accepts_onus q (reply (pl_env P) h' q)" for h r h' q
    using assms by (simp_all add: healthy_plant_def plant_ok_def)
  fix i j pv x pv' now
  assume one: "provision_one (pl_pools P) (pl_mgrs P) i j pv = (Done (Some x), pv')" and j: "j \<in> set (pl_ports P)"
  have "sp_intfID x = j"
    using one by (auto simp: provision_one_def Let_def split: if_splits outcome.splits option.splits list.splits)
  moreover have "unat j < length (pl_mgrs P)" using assms j by (simp add: healthy_plant_def plant_ok_def)
  ultimately show "paths delivered accepts_onus False (\<lambda>r. good_device P (fst r) \<and> snd r)
      (activateONU (pl_cfg P) (pl_mgrs P) (sp_intfID x) (sp_onuID x) (sp_serial x) (sp_serialNumber x) now)"
    by (simp add: activateONU_def accepts_onus_def good_device_def Let_def)
next
  fix dev k assume "good_device P dev"
  then show "paths delivered accepts_onus False
      (\<lambda>s. paths delivered accepts_onus False (deployed (IsGroupTest (pl_cfg P))) (subscriber_life s (IsGroupTest (od_testConfig dev))))
      (make_subscriber dev k)"
    using assms by (auto simp: make_subscriber_def Let_def good_device_def healthy_plant_def plant_ok_def intro!: paths_life)
qed (simp_all add: good_device_def)

text \<open>A healthy system never panics, and starts an ONU in every iteration.\<close>

definition vendor_room :: "plant \<Rightarrow> nat \<Rightarrow> uint64 \<Rightarrow> bool" where
  "vendor_room P batches v \<longleftrightarrow> 1000 \<le> unat v \<and> unat v + batches * length (pl_ports P) < 2 ^ 63"

definition on_course :: "plant \<Rightarrow> uint64 \<Rightarrow> sys \<Rightarrow> bool" where
  "on_course P v s \<longleftrightarrow> sy_panic s = None \<and> length (sy_onus s) + length (sy_ports s) = length (pl_ports P) \<and>
     (\<forall>gs \<in> set (sy_past s). length gs = length (pl_ports P)) \<and> length (sy_past s) = sy_batch s \<and>
     unat (pv_vendorSpecificId (sy_pv s)) = unat v + sy_batch s * length (pl_ports P) + length (sy_onus s) \<and>
     list_all (\<lambda>c. unat (fst c) < length (pl_mgrs P)) (pv_calls (sy_pv s)) \<and>
     count_list (map snd (pv_calls (sy_pv s)) @ sy_ports s) = (\<lambda>k. Suc (sy_batch s) * count_list (pl_ports P) k)"

lemma provision_one_given:
  assumes "pools (pv_calls st) i j = Done (onuID # rest, None)" "unat i < length mgrs"
    and "1000 \<le> unat (pv_vendorSpecificId st)" "unat (pv_vendorSpecificId st) + 1 < 2 ^ 63"
  shows "\<exists>s. provision_one pools mgrs i j st = (Done (Some s),
     \<lparr>pv_vendorSpecificId = pv_vendorSpecificId st + 1, pv_calls = pv_calls st @ [(i, j)]\<rparr>)"
proof -
  let ?v = "pv_vendorSpecificId st"
  have "snd (GenerateNextONUSerialNumber ?v) = ?v + 1" by (simp add: GenerateNextONUSerialNumber_def Let_def)
  with assms(1,2) stringify_next [OF assms(3,4)] show ?thesis by (simp add: provision_one_def Let_def)
qed

lemma healthy_one:
  assumes "healthy_plant P b" "vendor_room P b v" "on_course P v s" "sy_batch s < b" "sy_ports s = j # js"
  shows "\<exists>x pv'. provision_one (pl_pools P) (pl_mgrs P) (of_nat (sy_batch s)) j (sy_pv s) = (Done (Some x), pv') \<and>
     unat (pv_vendorSpecificId pv') = Suc (unat (pv_vendorSpecificId (sy_pv s))) \<and>
     list_all (\<lambda>c. unat (fst c) < length (pl_mgrs P)) (pv_calls pv') \<and>
     map snd (pv_calls pv') = map snd (pv_calls (sy_pv s)) @ [j]"
proof -
  let ?v = "pv_vendorSpecificId (sy_pv s)" and ?L = "length (pl_ports P)" and ?h = "pv_calls (sy_pv s)"
  have "sy_batch s * ?L + length (sy_onus s) < Suc (sy_batch s) * ?L"
    using assms(3,5) by (simp add: on_course_def)
  also have "\<dots> \<le> b * ?L" using assms(4) by (intro mult_le_mono1) simp
  finally have room: "unat ?v + 1 < 2 ^ 63" "1000 \<le> unat ?v"
    using assms(2,3) by (simp_all add: on_course_def vendor_room_def)
  have "unat (of_nat (sy_batch s) :: uint32) \<le> sy_batch s" by (simp add: unat_of_nat)
  then have i: "unat (of_nat (sy_batch s) :: uint32) < length (pl_mgrs P)"
    using assms(1,4) by (simp add: healthy_plant_def plant_ok_def)
  have calls: "list_all (\<lambda>c. unat (fst c) < length (pl_mgrs P)) ?h"
    and eq: "count_list (map snd ?h) k + count_list (j # js) k = Suc (sy_batch s) * count_list (pl_ports P) k" for k
    using assms(3,5) by (simp_all add: on_course_def fun_eq_iff)
  have le: "Suc (sy_batch s) * count_list (pl_ports P) k \<le> b * count_list (pl_ports P) k" for k
    using assms(4) by (intro mult_le_mono1) simp
  have "count_list (map snd ?h) k \<le> b * count_list (pl_ports P) k" for k using eq [of k] le [of k] by linarith
  moreover have "count_list (map snd ?h) j < b * count_list (pl_ports P) j" using eq [of j] le [of j] by simp
  ultimately obtain onuID rest where "pl_pools P ?h (of_nat (sy_batch s)) j = Done (onuID # rest, None)"
    using assms(1) calls i unfolding healthy_plant_def plant_ok_def plentiful_def by blast
  from provision_one_given [where pools = "pl_pools P" and st = "sy_pv s", OF this i room(2,1)]
  obtain x where "provision_one (pl_pools P) (pl_mgrs P) (of_nat (sy_batch s)) j (sy_pv s) =
    (Done (Some x), \<lparr>pv_vendorSpecificId = ?v + 1, pv_calls = ?h @ [(of_nat (sy_batch s), j)]\<rparr>)" by blast
  moreover have "unat (?v + 1) = Suc (unat ?v)" using room(1) by (simp add: unat_word_ariths)
  ultimately show ?thesis using calls i by simp
qed

lemma on_course_reachable:
  assumes "healthy_plant P b" "vendor_room P b v" "sys_steps P (sys_init P b v w) s"
  shows "on_course P v s"
  using assms(3)
proof (induction rule: rtranclp_induct)
  case base
  then show ?case by (simp add: on_course_def sys_init_def fun_eq_iff)
next
  case (step y z)
  note r = system.reachable [OF healthy_system [OF assms(1)] step.hyps(1)]
  have one: "\<exists>x pv'. provision_one (pl_pools P) (pl_mgrs P) (of_nat (sy_batch y)) j (sy_pv y) = (Done (Some x), pv') \<and>
      unat (pv_vendorSpecificId pv') = Suc (unat (pv_vendorSpecificId (sy_pv y))) \<and>
      list_all (\<lambda>c. unat (fst c) < length (pl_mgrs P)) (pv_calls pv') \<and>
      map snd (pv_calls pv') = map snd (pv_calls (sy_pv y)) @ [j]" if "0 < sy_batches y" "sy_ports y = j # js" for j js
    using healthy_one [OF assms(1,2) step.IH, of j js] r that by simp
  from step.hyps(2) show ?case
  proof (cases rule: sys_step.cases)
    case (start_onu j js x pv' now)
    with one [OF start_onu(3,4)] step.IH show ?thesis by (auto simp: on_course_def)
  next
    case (skip_onu j js pv')
    with one [OF skip_onu(3,4)] show ?thesis by simp
  next
    case (prov_panic j js e pv')
    with one [OF prov_panic(3,4)] show ?thesis by simp
  next
    case (next_batch b')
    with step.IH show ?thesis by (auto simp: on_course_def fun_eq_iff)
  next
    case (onu_panic i e)
    with system.onu_panics_allowed [OF healthy_system [OF assms(1)]] r show ?thesis by blast
  qed (use step.IH in \<open>simp add: on_course_def\<close>)
qed

lemma healthy_rest:
  assumes "healthy_plant P b" "vendor_room P b v" "sys_steps P (sys_init P b v w) s" "\<not> (\<exists>s'. sys_step P s s')"
  shows "sy_batches s = 0"
proof -
  note sys = healthy_system [OF assms(1)]
  note r = system.reachable [OF sys assms(3)]
  have "sy_panic s = None" using on_course_reachable [OF assms(1-3)] by (simp add: on_course_def)
  with system.stuck [OF sys _ _ assms(4)] r
  have "sy_batches s = 0 \<or>
     (\<exists>g \<in> set (sy_onus s). g = Over \<or> (\<exists>dev ss x. g = Joining dev ss \<and> Ret (x, False) \<in> set ss))" by blast
  moreover have False if g: "g \<in> set (sy_onus s)" "g = Over \<or> (\<exists>dev ss x. g = Joining dev ss \<and> Ret (x, False) \<in> set ss)" for g
  proof -
    have "system.go_ok P delivered accepts_onus False (\<lambda>r. good_device P (fst r) \<and> snd r) (good_device P)
        (deployed (IsGroupTest (pl_cfg P))) (sy_map s) g"
      using r g(1) by (simp add: system.sys_inv_def [OF sys])
    with g(2) show False by (force simp: system.go_ok.simps [OF sys] deployed_def)
  qed
  ultimately show ?thesis by blast
qed

text \<open>What a complete run leaves: every iteration of every batch has an ONU that has ended, with all its subscribers deployed.\<close>

definition all_deployed :: "plant \<Rightarrow> nat \<Rightarrow> sys \<Rightarrow> bool" where
  "all_deployed P batches s \<longleftrightarrow> sy_batches s = 0 \<and> length (sy_past s) = batches \<and>
     (\<forall>gs \<in> set (sy_past s). length gs = length (pl_ports P) \<and>
        (\<forall>g \<in> set gs. \<exists>dev ss. g = Finished dev ss \<and> length ss = unat (SubscribersPerOnu (pl_cfg P)) \<and>
           (\<forall>q \<in> set ss. \<exists>x. q = Ret (x, True) \<and> deployed (IsGroupTest (pl_cfg P)) (x, True))))"

lemma healthy_done:
  assumes "healthy_plant P b" "vendor_room P b v" "sys_steps P (sys_init P b v w) s" "sy_batches s = 0"
  shows "all_deployed P b s"
proof -
  note r = system.reachable [OF healthy_system [OF assms(1)] assms(3)]
  note c = on_course_reachable [OF assms(1-3)]
  from r c assms(4) finished_past [OF healthy_system [OF assms(1)]] show ?thesis by (auto simp: on_course_def all_deployed_def)
qed

text \<open>What is needed of a plant by the process around it.\<close>

definition works :: "plant \<Rightarrow> nat \<Rightarrow> uint64 \<Rightarrow> world \<Rightarrow> bool" where
  "works P batches v w \<longleftrightarrow>
     (\<forall>s. sys_steps P (sys_init P batches v w) s \<longrightarrow> sy_panic s = None \<and>
        (\<not> (\<exists>s'. sys_step P s s') \<longrightarrow> sy_batches s = 0) \<and> (sy_batches s = 0 \<longrightarrow> all_deployed P batches s))"

lemma healthy_works: "healthy_plant P b \<Longrightarrow> vendor_room P b v \<Longrightarrow> works P b v w"
  using on_course_reachable healthy_done healthy_rest by (auto simp: works_def on_course_def)

lemma sample_healthy: "healthy_plant sample_plant 1" "vendor_room sample_plant 1 1000"
proof -
  have "delivered (Some sample_instance, None)" by (simp add: delivered_def sample_instance_def)
  moreover have "accepts_onus r None" for r by (cases r) (simp_all add: accepts_onus_def)
  ultimately show "healthy_plant sample_plant 1"
    by (simp add: healthy_plant_def plant_ok_def sample_plant_def plentiful_def)
  show "vendor_room sample_plant 1 1000" by (simp add: vendor_room_def sample_plant_def)
qed

section \<open>Properties\<close>

text \<open>
  C12: in a working environment the provisioning is totally correct. No goroutine panics in any reachable state, and when nothing can move any more, all
  batches are done: every iteration has activated an ONU, and each of these has ended with all of its configured subscribers deployed,
  each with the reason of its own deployment.
\<close>

theorem healthy_provisioning:
  assumes "healthy_plant P batches" "vendor_room P batches v" "sys_steps P (sys_init P batches v w) s"
  shows "sy_panic s = None \<and> (\<not> (\<exists>s'. sys_step P s s') \<longrightarrow> all_deployed P batches s)"
  using healthy_works [OF assms(1,2)] assms(3) by (auto simp: works_def)

theorem healthy_provisioning_witness:
  "\<exists>s. sys_steps sample_plant (sys_init sample_plant 1 1000 world_init) s \<and> sy_panic s = None \<and> all_deployed sample_plant 1 s"
proof -
  obtain s where s: "sys_steps sample_plant (sys_init sample_plant 1 1000 world_init) s" "\<not> (\<exists>s'. sys_step sample_plant s s')"
    using sys_rests by blast
  from s healthy_provisioning [OF sample_healthy s(1)] show ?thesis by blast
qed

end
