(* ===== verification/Tp_Library.thy ===== *)
theory Tp_Library
  imports Tp_Lifecycle Healthy_Run
begin

text \<open>
  The technology profile managers of all PON ports as the library of the program: every port's resource manager has one of its own
  (\<open>TechprofileRef\<close>, \<open>core/resource\_manager.go\<close>), and all of them work on one store. The lemmas follow the identifiers
  through any calls: on a working store every call is answered with an instance as long as the pools have room for
  all the calls.
\<close>

section \<open>Definitions\<close>

text \<open>
  The managers and the store after some calls, and the answer to the next one, as in \<open>library_answers\<close>: a call goes to the
  manager of its port.
\<close>

fun libs_replay ::
  "(nat \<Rightarrow> kv_answer) \<Rightarrow> tp_req list \<Rightarrow> (uint32 \<Rightarrow> TechProfileMgr) \<times> kv \<Rightarrow> (uint32 \<Rightarrow> TechProfileMgr) \<times> kv" where
  "libs_replay F [] (T, st) = (T, st)"
| "libs_replay F (r # calls) (T, st) =
     (case CreateTechProfileInstance F (tr_tpID r) (tr_uniPortName r) (tr_intfID r) (T (tr_intfID r)) st of
        (Done (e, t'), st') \<Rightarrow> libs_replay F calls (T(tr_intfID r := t'), st')
      | (Crashed p, st') \<Rightarrow> libs_replay F calls (T, st'))"

text \<open>
  A call is one action, though the source locks each request to a pool on its own. A call that panics or ends the process has no
  answer; it is given one here that the caller dies of (a nil interface without an error). \<open>Library_Run\<close> shows that in the
  runs it considers every call returns.
\<close>

definition port_libraries ::
  "(nat \<Rightarrow> kv_answer) \<Rightarrow> (uint32 \<Rightarrow> TechProfileMgr) \<Rightarrow> kv \<Rightarrow> tp_req list \<Rightarrow> tp_req \<Rightarrow> tp_result" where
  "port_libraries F T st calls r =
     (let (T', st') = libs_replay F calls (T, st)
      in case CreateTechProfileInstance F (tr_tpID r) (tr_uniPortName r) (tr_intfID r) (T' (tr_intfID r)) st' of
           (Done (TpReturns res, _), _) \<Rightarrow> res
         | _ \<Rightarrow> (None, None))"

text \<open>
  What the managers need: one PON resource manager, of a technology that is served, usable templates of at most \<open>G\<close> GEM ports for the
  profiles \<open>ids\<close>, and cached instances with a scheduler.
\<close>

definition good_libs ::
  "PONResourceManager \<Rightarrow> uint32 set \<Rightarrow> uint32 set \<Rightarrow> nat \<Rightarrow> (uint32 \<Rightarrow> TechProfileMgr) \<Rightarrow> kv \<Rightarrow> bool" where
  "good_libs m ports ids G T st \<longleftrightarrow> mgr_ready m \<and> pr_Technology m \<in> gpon_family \<and>
     (\<forall>j \<in> ports. tm_resourceMgr (T j) = m \<and> (\<forall>inst \<in> ran (tm_tpInstanceMap (T j)). tp_UsScheduler inst \<noteq> None) \<and>
        (\<forall>tpID \<in> ids. has_control (T j) st tpID \<and> usable (template_in_use (T j) st tpID) \<and>
           unat (tpl_NumGemPorts (template_in_use (T j) st tpID)) \<le> G))"

text \<open>There are identifiers for \<open>n\<close> more instances, wherever they are created.\<close>

definition pool_room :: "kv \<Rightarrow> string \<Rightarrow> nat \<Rightarrow> bool" where
  "pool_room st k n \<longleftrightarrow> (\<exists>r. kv_data st k = Some (KvResource r) \<and> pool_inv r \<and> n \<le> card (free_ids r))"

definition lib_room :: "PONResourceManager \<Rightarrow> uint32 set \<Rightarrow> nat \<Rightarrow> kv \<Rightarrow> nat \<Rightarrow> bool" where
  "lib_room m ports G st n \<longleftrightarrow>
     (\<forall>j \<in> ports. pool_room st (pool_key m j ''ALLOC_ID'') n \<and> pool_room st (pool_key m j ''GEMPORT_ID'') (n * G))"

text \<open>A call of a subscriber of one of the ports, for one of the profiles.\<close>

definition lib_call :: "uint32 set \<Rightarrow> uint32 set \<Rightarrow> tp_req \<Rightarrow> bool" where
  "lib_call ports ids r \<longleftrightarrow> tr_intfID r \<in> ports \<and> tr_tpID r \<in> ids \<and> (\<exists>p onu u. tr_uniPortName r = UniPortName p onu u)"

section \<open>Lemmas\<close>

text \<open>The pools of a key after some identifiers are taken from the pool of another or the same.\<close>

lemma pool_room_taken:
  assumes "pool_room st k (n + length ids)" "kv_data st k' = Some (KvResource r)"
    and "pool_taken r' = pool_taken r \<union> set ids" "pool_ids r' = pool_ids r" "pool_inv r'"
    and "kv_data st' = (kv_data st)(k' \<mapsto> KvResource r')"
  shows "pool_room st' k n"
proof (cases "k = k'")
  case True
  with assms(1,2) have n: "n + length ids \<le> card (free_ids r)" by (simp add: pool_room_def)
  have "free_ids r' = free_ids r - set ids" using assms(3,4) by (auto simp: free_ids_def)
  then have "card (free_ids r) - card (set ids) \<le> card (free_ids r')" by (simp add: diff_card_le_card_Diff)
  with n card_length [of ids] have "n \<le> card (free_ids r')" by linarith
  with True assms(5,6) show ?thesis by (simp add: pool_room_def)
next
  case False
  with assms(1,6) show ?thesis by (auto simp: pool_room_def)
qed

lemma pool_room_mono: "pool_room st k n \<Longrightarrow> n' \<le> n \<Longrightarrow> pool_room st k n'"
  unfolding pool_room_def using le_trans by blast

lemma pool_room_same: "kv_data st' k = kv_data st k \<Longrightarrow> pool_room st' k = pool_room st k"
  by (simp add: pool_room_def fun_eq_iff)

text \<open>The alloc ID of a new instance, taken or shared.\<close>

lemma tcont_room:
  assumes "\<forall>n. F n = KvOk" "mgr_ready m" "tm_resourceMgr t = m" "usable tp" "pool_room st (pool_key m j ''ALLOC_ID'') 1"
    and "\<forall>inst \<in> ran (tm_tpInstanceMap t). tp_UsScheduler inst \<noteq> None"
  shows "\<exists>a st'. tcont_ids F t tp j path st = (Done (Some [a]), st') \<and>
     (\<forall>k. k \<noteq> pool_key m j ''ALLOC_ID'' \<longrightarrow> kv_data st' k = kv_data st k) \<and>
     (\<forall>k n. pool_room st k (Suc n) \<longrightarrow> pool_room st' k n)"
proof (cases "shares t tp path")
  case None
  obtain r where r: "kv_data st (alloc_key t j) = Some (KvResource r)" "pool_inv r" "1 \<le> card (free_ids r)"
    using assms(3,5) by (auto simp: pool_room_def alloc_key_def)
  have "mgr_ready (tm_resourceMgr t)" "free_ids r \<noteq> {}" using assms(2,3) r(3) by auto
  with tcont_new [OF assms(1) _ assms(4) None r(1,2)] obtain a r' where a: "tcont_ids F t tp j path st = (Done (Some [a]),
      st\<lparr>kv_ops := Suc (Suc (kv_ops st)), kv_data := (kv_data st)(alloc_key t j \<mapsto> KvResource r')\<rparr>)"
    "pool_taken r' = pool_taken r \<union> set [a]" "pool_ids r' = pool_ids r" "pool_inv r'" by auto
  let ?st = "st\<lparr>kv_ops := Suc (Suc (kv_ops st)), kv_data := (kv_data st)(alloc_key t j \<mapsto> KvResource r')\<rparr>"
  have "pool_room ?st k n" if "pool_room st k (Suc n)" for k n
    by (rule pool_room_taken [OF _ r(1) a(2-4)]) (use that in simp_all)
  with a(1) assms(3) show ?thesis by (intro exI [of _ a] exI [of _ ?st]) (simp add: alloc_key_def)
next
  case (Some inst)
  then have single: "ic_Onu (the (tpl_InstanceControl tp)) \<noteq> ''multi-instance''" "getSingleInstanceTp t path = Some inst"
    by (auto simp: shares_def split: if_splits)
  then have "inst \<in> ran (tm_tpInstanceMap t)"
    by (auto simp: getSingleInstanceTp_def find_instance_find Option.bind_eq_Some_conv intro: ranI)
  with assms(6) obtain us where us: "tp_UsScheduler inst = Some us" by blast
  obtain ctl where "tpl_InstanceControl tp = Some ctl" using assms(4) by (auto simp: usable_def split: option.splits)
  with single us have "tcont_ids F t tp j path st = (Done (Some [sa_AllocId us]), st)"
    by (simp add: tcont_ids_def Let_def kvm_defs)
  then show ?thesis by (auto intro: pool_room_mono)
qed

text \<open>The allocation of an instance with room in both pools.\<close>

lemma allocate_room:
  assumes "\<forall>n. F n = KvOk" "mgr_ready m" "tm_resourceMgr t = m" "usable tp" "unat (tpl_NumGemPorts tp) \<le> G"
    and "pool_room st (pool_key m j ''ALLOC_ID'') 1" "pool_room st (pool_key m j ''GEMPORT_ID'') G"
    and "\<forall>inst \<in> ran (tm_tpInstanceMap t). tp_UsScheduler inst \<noteq> None"
  shows "\<exists>inst st'. allocateTPInstance F t name tp j path st = (Done (Some inst), st') \<and>
     tp_UsScheduler inst \<noteq> None \<and> tp_DsScheduler inst \<noteq> None \<and>
     (\<forall>k. k \<notin> {pool_key m j ''ALLOC_ID'', pool_key m j ''GEMPORT_ID''} \<longrightarrow> kv_data st' k = kv_data st k) \<and>
     (\<forall>i n. pool_room st (pool_key m i ''ALLOC_ID'') (Suc n) \<longrightarrow> pool_room st' (pool_key m i ''ALLOC_ID'') n) \<and>
     (\<forall>i n. pool_room st (pool_key m i ''GEMPORT_ID'') (n + G) \<longrightarrow> pool_room st' (pool_key m i ''GEMPORT_ID'') n)"
proof -
  have apart: "pool_key m i ''GEMPORT_ID'' \<noteq> pool_key m i' ''ALLOC_ID''" for i i'
    using alloc_gem_keys [of t i' i] assms(2,3) by (simp add: alloc_key_def gem_key_def)
  obtain a st1 where a: "tcont_ids F t tp j path st = (Done (Some [a]), st1)"
    "\<forall>k. k \<noteq> pool_key m j ''ALLOC_ID'' \<longrightarrow> kv_data st1 k = kv_data st k"
    "\<forall>k n. pool_room st k (Suc n) \<longrightarrow> pool_room st1 k n"
    using tcont_room [OF assms(1-4,6,8)] by blast
  have gem: "kv_data st1 (pool_key m i ''GEMPORT_ID'') = kv_data st (pool_key m i ''GEMPORT_ID'')" for i
    using a(2) apart by blast
  then have "pool_room st1 (pool_key m j ''GEMPORT_ID'') G" using assms(7) pool_room_same by metis
  then obtain r where r: "kv_data st1 (gem_key t j) = Some (KvResource r)" "pool_inv r" "G \<le> card (free_ids r)"
    using assms(3) by (auto simp: pool_room_def gem_key_def)
  have "mgr_ready (tm_resourceMgr t)" "unat (tpl_NumGemPorts tp) \<le> card (free_ids r)" using assms(2,3,5) r(3) by auto
  with allocate_gems [OF assms(1) _ assms(4) r(1,2) a(1), of name] obtain gems r' where g:
    "allocateTPInstance F t name tp j path st = (Done (Some (instance_of name tp a gems)),
       st1\<lparr>kv_ops := Suc (Suc (kv_ops st1)), kv_data := (kv_data st1)(gem_key t j \<mapsto> KvResource r')\<rparr>)"
    "length gems = unat (tpl_NumGemPorts tp)" "pool_taken r' = pool_taken r \<union> set gems" "pool_ids r' = pool_ids r" "pool_inv r'"
    by auto
  let ?st = "st1\<lparr>kv_ops := Suc (Suc (kv_ops st1)), kv_data := (kv_data st1)(gem_key t j \<mapsto> KvResource r')\<rparr>"
  have key: "gem_key t j = pool_key m j ''GEMPORT_ID''" using assms(3) by (simp add: gem_key_def)
  have "pool_room ?st (pool_key m i ''ALLOC_ID'') n" if "pool_room st (pool_key m i ''ALLOC_ID'') (Suc n)" for i n
  proof -
    have "pool_room st1 (pool_key m i ''ALLOC_ID'') n" using a(3) that by blast
    with apart [THEN not_sym] show ?thesis by (subst pool_room_same [of _ _ st1]) (auto simp: key)
  qed
  moreover have "pool_room ?st (pool_key m i ''GEMPORT_ID'') n" if "pool_room st (pool_key m i ''GEMPORT_ID'') (n + G)" for i n
  proof (rule pool_room_taken [OF _ r(1) g(3-5)])
    have "pool_room st1 (pool_key m i ''GEMPORT_ID'') (n + G)" using that gem pool_room_same by metis
    then show "pool_room st1 (pool_key m i ''GEMPORT_ID'') (n + length gems)"
      by (rule pool_room_mono) (use g(2) assms(5) in simp)
  qed simp
  moreover have "kv_data ?st k = kv_data st k" if "k \<notin> {pool_key m j ''ALLOC_ID'', pool_key m j ''GEMPORT_ID''}" for k
    using that a(2) by (simp add: key)
  ultimately show ?thesis using g(1)
    by (intro exI [of _ "instance_of name tp a gems"] exI [of _ ?st]) (simp add: instance_of_def)
qed

text \<open>The templates after a creation are those before it.\<close>

lemma template_after:
  assumes "kv_data st' (tp_kv_key t tpID) = kv_data st (tp_kv_key t tpID)" "valid tp" "tpl_InstanceControl tp \<noteq> None"
    and "tp = template_in_use t st i"
  shows "template_in_use (with_instance path inst (with_template i tp t)) st' tpID = template_in_use t st tpID"
    "has_control (with_instance path inst (with_template i tp t)) st' tpID = (tpID = i \<or> has_control t st tpID)"
proof -
  let ?t = "with_instance path inst (with_template i tp t)"
  have t: "tm_tpMap ?t = (tm_tpMap t)(i \<mapsto> tp)" "tp_kv_key ?t = tp_kv_key t" "getDefaultTechProfile ?t = getDefaultTechProfile t"
    by (simp_all add: with_instance_def with_template_def tp_kv_key_def getDefaultTechProfile_def fun_eq_iff)
  show "template_in_use ?t st' tpID = template_in_use t st tpID"
  proof (cases "tpID = i")
    case True
    have "template_in_use ?t st' i = tp" using assms(2) by (simp add: template_in_use_def t)
    with True assms(4) show ?thesis by simp
  next
    case False
    then show ?thesis unfolding template_in_use_def t assms(1) by simp
  qed
  show "has_control ?t st' tpID = (tpID = i \<or> has_control t st tpID)"
    unfolding has_control_def t assms(1) using assms(3) by simp
qed

text \<open>A call with room for it is answered, and leaves room for one call less.\<close>

lemma library_step:
  assumes F: "\<forall>n. F n = KvOk" and good: "good_libs m ports ids G T st" and room: "lib_room m ports G st (Suc n)"
    and call: "lib_call ports ids r"
  shows "\<exists>inst t' st'. CreateTechProfileInstance F (tr_tpID r) (tr_uniPortName r) (tr_intfID r) (T (tr_intfID r)) st =
       (Done (TpReturns (Some inst, None), t'), st') \<and> tp_UsScheduler inst \<noteq> None \<and> tp_DsScheduler inst \<noteq> None \<and>
     good_libs m ports ids G (T(tr_intfID r := t')) st' \<and> lib_room m ports G st' n"
proof -
  let ?j = "tr_intfID r" and ?id = "tr_tpID r" and ?name = "tr_uniPortName r"
  let ?t = "T ?j" and ?tp = "template_in_use (T ?j) st ?id" and ?path = "GetTechProfileInstanceKey (T ?j) ?id ?name"
  let ?t1 = "with_template ?id ?tp ?t"
  have c: "?j \<in> ports" "?id \<in> ids" "uniPortNameFormatRegexp ?name"
    using call uni_port_name_conforms by (auto simp: lib_call_def)
  from good c have m: "mgr_ready m" "tm_resourceMgr ?t = m" "has_control ?t st ?id" "usable ?tp" "unat (tpl_NumGemPorts ?tp) \<le> G"
    "\<forall>inst \<in> ran (tm_tpInstanceMap ?t). tp_UsScheduler inst \<noteq> None"
    by (auto simp: good_libs_def)
  obtain st1 where st1: "kv_data st1 = kv_data st"
    "CreateTechProfileInstance F ?id ?name ?j ?t st = finish_creation ?id ?path ?t1 (allocateTPInstance F ?t1 ?name ?tp ?j ?path st1)"
    using create_run [OF F c(3) m(3) refl refl] by metis
  have room1: "pool_room st1 k i = pool_room st k i" for k i using pool_room_same [of st1 k st] st1(1) by (simp add: fun_eq_iff)
  have "pool_room st (pool_key m ?j ''ALLOC_ID'') (Suc n)" "pool_room st (pool_key m ?j ''GEMPORT_ID'') (Suc n * G)"
    using room c(1) by (auto simp: lib_room_def)
  then have "pool_room st1 (pool_key m ?j ''ALLOC_ID'') 1" "pool_room st1 (pool_key m ?j ''GEMPORT_ID'') G"
    by (auto simp: room1 intro: pool_room_mono)
  moreover have "\<forall>inst \<in> ran (tm_tpInstanceMap ?t1). tp_UsScheduler inst \<noteq> None" using m(6) by (simp add: with_template_def)
  ultimately obtain inst st2 where a: "allocateTPInstance F ?t1 ?name ?tp ?j ?path st1 = (Done (Some inst), st2)"
    "tp_UsScheduler inst \<noteq> None" "tp_DsScheduler inst \<noteq> None"
    "\<forall>k. k \<notin> {pool_key m ?j ''ALLOC_ID'', pool_key m ?j ''GEMPORT_ID''} \<longrightarrow> kv_data st2 k = kv_data st1 k"
    "\<forall>i n. pool_room st1 (pool_key m i ''ALLOC_ID'') (Suc n) \<longrightarrow> pool_room st2 (pool_key m i ''ALLOC_ID'') n"
    "\<forall>i n. pool_room st1 (pool_key m i ''GEMPORT_ID'') (n + G) \<longrightarrow> pool_room st2 (pool_key m i ''GEMPORT_ID'') n"
    using allocate_room [OF F m(1) _ m(4,5), of ?t1 st1 ?j ?name ?path] m(2) by auto
  let ?t' = "with_instance ?path inst ?t1"
  let ?st = "st2\<lparr>kv_ops := Suc (kv_ops st2),
    kv_data := (kv_data st2)(resource_instance_key ?path \<mapsto> KvResourceInstance (res_inst ?id inst))\<rparr>"
  note keys = pool_keys_apart [where t = ?t, unfolded m(2) alloc_key_def gem_key_def, OF m(1)]
  have "lib_room m ports G ?st n"
    unfolding lib_room_def
  proof
    fix i assume i: "i \<in> ports"
    with room have "pool_room st1 (pool_key m i ''ALLOC_ID'') (Suc n)" "pool_room st1 (pool_key m i ''GEMPORT_ID'') (n * G + G)"
      by (auto simp: lib_room_def room1 add.commute)
    then have "pool_room st2 (pool_key m i ''ALLOC_ID'') n" "pool_room st2 (pool_key m i ''GEMPORT_ID'') (n * G)"
      using a(5,6) by blast+
    then show "pool_room ?st (pool_key m i ''ALLOC_ID'') n \<and> pool_room ?st (pool_key m i ''GEMPORT_ID'') (n * G)"
      using keys(1,2) [of i ?path] by (auto simp: pool_room_same [of ?st _ st2])
  qed
  moreover have "good_libs m ports ids G (T(?j := ?t')) ?st"
  proof -
    have stored: "kv_data ?st (tp_kv_key t tpID) = kv_data st (tp_kv_key t tpID)" if "tm_resourceMgr t = m" for t tpID
      using pool_keys_apart(3-5) [of t, unfolded that alloc_key_def gem_key_def, OF m(1)] a(4) st1(1) by simp
    have u: "valid ?tp" "tpl_InstanceControl ?tp \<noteq> None" using m(4) by (auto simp: usable_def valid_def split: option.splits)
    have same: "template_in_use t ?st tpID = template_in_use t st tpID" "has_control t ?st tpID = has_control t st tpID"
      if "tm_resourceMgr t = m" for t tpID
      unfolding template_in_use_def has_control_def stored [OF that] by (rule refl)+
    note new = template_after [OF _ u refl, of ?st _ ?path inst]
    have new: "template_in_use ?t' ?st tpID = template_in_use ?t st tpID" "has_control ?t' ?st tpID = (tpID = ?id \<or> has_control ?t st tpID)"
      for tpID using new stored [OF m(2)] by blast+
    have "tp_UsScheduler i \<noteq> None" if "i \<in> ran (tm_tpInstanceMap ?t')" for i
      using that m(6) a(2) by (auto simp: with_instance_def with_template_def ran_def split: if_splits)
    then show ?thesis
      using good same new by (auto simp: good_libs_def)
  qed
  ultimately show ?thesis using st1(2) a(1-3) by (intro exI [of _ inst] exI [of _ ?t'] exI [of _ ?st]) simp
qed

text \<open>Any calls there is room for, and the answer to the next one.\<close>

lemma libs_replay_room:
  assumes "\<forall>n. F n = KvOk" "good_libs m ports ids G T st" "lib_room m ports G st (length h + n)" "list_all (lib_call ports ids) h"
  shows "\<exists>T' st'. libs_replay F h (T, st) = (T', st') \<and> good_libs m ports ids G T' st' \<and> lib_room m ports G st' n"
  using assms(2-4)
proof (induction h arbitrary: T st)
  case (Cons r h)
  have "lib_room m ports G st (Suc (length h + n))" "lib_call ports ids r" using Cons.prems(2,3) by simp_all
  from library_step [OF assms(1) Cons.prems(1) this] obtain inst t' st' where
    "CreateTechProfileInstance F (tr_tpID r) (tr_uniPortName r) (tr_intfID r) (T (tr_intfID r)) st = (Done (TpReturns (Some inst, None), t'), st')"
    "good_libs m ports ids G (T(tr_intfID r := t')) st'" "lib_room m ports G st' (length h + n)" by blast
  moreover from this obtain T2 st2 where "libs_replay F h (T(tr_intfID r := t'), st') = (T2, st2)"
    "good_libs m ports ids G T2 st2" "lib_room m ports G st2 n" using Cons.IH Cons.prems(3) by fastforce
  ultimately show ?case by (intro exI [of _ T2] exI [of _ st2]) (simp del: fun_upd_apply)
qed simp

lemma port_libraries_deliver:
  assumes "\<forall>n. F n = KvOk" "good_libs m ports ids G T st" "lib_room m ports G st N"
    and "list_all (lib_call ports ids) h" "lib_call ports ids r" "length h < N"
  shows "delivered (port_libraries F T st h r)"
proof -
  from assms(6) obtain n where n: "N = length h + Suc n" using less_imp_Suc_add by fastforce
  obtain T' st' where r: "libs_replay F h (T, st) = (T', st')" "good_libs m ports ids G T' st'" "lib_room m ports G st' (Suc n)"
    using libs_replay_room [OF assms(1,2) _ assms(4), of "Suc n"] assms(3) n by auto
  from library_step [OF assms(1) r(2,3) assms(5)] r(1) show ?thesis
    by (auto simp: port_libraries_def delivered_def)
qed

end
