(* ===== verification/First_Start.thy ===== *)
theory First_Start
  imports Tp_Library
begin

text \<open>
  The pools that a first start leaves in the store: every port gets the pools it finds nowhere, of all types, formed over the range of the
  device information. They give the room that \<open>Tp_Library\<close> speaks of.
\<close>

section \<open>New pools\<close>

text \<open>The start and the end that a type of identifiers has.\<close>

definition pool_range :: "ResourceRanges \<Rightarrow> string \<Rightarrow> uint32 \<times> uint32" where
  "pool_range g rt =
     (if rt = ''ONU_ID'' then (rg_ONUIDStart g, rg_ONUIDEnd g)
      else if rt = ''ALLOC_ID'' then (rg_AllocIDStart g, rg_AllocIDEnd g)
      else if rt = ''GEMPORT_ID'' then (rg_GEMPortIDStart g, rg_GEMPortIDEnd g)
      else (rg_flowIDStart g, rg_flowIDEnd g))"

definition new_pool :: "uint32 \<times> uint32 \<Rightarrow> kv \<Rightarrow> string \<Rightarrow> bool" where
  "new_pool se st k \<longleftrightarrow> (\<exists>j r. FormatResource j (fst se) (snd se) [] = Done r \<and> kv_data st k = Some (KvResource r))"

text \<open>One pool is created where there was none, and nothing else changes. No GEM ports are reserved.\<close>

definition unreserved :: "kv \<Rightarrow> bool" where
  "unreserved st \<longleftrightarrow> kv_data st reserved_gems_key = None"

definition new_or_kept :: "uint32 \<times> uint32 \<Rightarrow> string \<Rightarrow> kv \<Rightarrow> kv \<Rightarrow> bool" where
  "new_or_kept se k st st' \<longleftrightarrow> (if kv_data st k = None then new_pool se st' k else kv_data st' k = kv_data st k)"

definition inits :: "uint32 \<times> uint32 \<Rightarrow> string \<Rightarrow> kv \<Rightarrow> kv \<Rightarrow> bool" where
  "inits se k st st' \<longleftrightarrow> new_or_kept se k st st' \<and> (\<forall>k'. k' \<noteq> k \<longrightarrow> kv_data st' k' = kv_data st k')"

lemma new_or_kept_cong:
  "kv_data st1 k = kv_data st k \<Longrightarrow> kv_data st2 k = kv_data st' k \<Longrightarrow> new_or_kept se k st1 st2 = new_or_kept se k st st'"
  by (simp add: new_or_kept_def new_pool_def)

lemma reserved_no_pool: "reserved_gems_key \<noteq> full_key m p"
  by (simp add: reserved_gems_key_def full_key_def)

lemma init_inits:
  assumes "mgr_ready m" "rt \<in> resource_types" "\<forall>n. F n = KvOk" "healthy_store st" "unreserved st"
    and "pr_PonResourceRanges m sk = Some (fst se)" "pr_PonResourceRanges m ek = Some (snd se)"
  shows "\<exists>st'. healthy_store st' \<and> unreserved st' \<and> inits se (pool_key m i rt) st st' \<and>
     init_pool_then F m i rt sk ek rest st = rest st'"
proof -
  obtain p where p: "GetPath m i rt = Done p" "p \<noteq> []" "pool_key m i rt = full_key m p"
    using GetPath_ready [OF assms(1,2)] by blast
  let ?s = "fst se" and ?e = "snd se"
  obtain st' r where st': "InitResourceIDPool F m i rt ?s ?e st = (Done None, st')" "healthy_store st'"
    "kv_data st' = (kv_data st)(full_key m p \<mapsto> KvResource r)"
    using healthy_init [OF p(1,2) assms(3,4), of ?s ?e] by blast
  have "inits se (full_key m p) st st'"
  proof (cases "kv_data st (full_key m p)")
    case None
    have "InitResourceIDPool F m i rt ?s ?e st = (Done None, st') \<Longrightarrow> FormatResource i ?s ?e [] = Done q \<Longrightarrow>
      kv_data st' (full_key m p) = Some (KvResource q)" for q
      using p(1,2) None assms(3,5)
      by (auto simp: InitResourceIDPool_def GetResource_def getReservedGemPortIdsFromKVStore_def kvm_defs kv_Get_def kv_Put_def
          kv_write_def unreserved_def Let_def split: if_splits)
    moreover obtain q where "FormatResource i ?s ?e [] = Done q" using FormatResource_Done by blast
    ultimately have "new_pool se st' (full_key m p)" using st'(1) unfolding new_pool_def by blast
    with None st'(3) show ?thesis by (simp add: inits_def new_or_kept_def)
  next
    case (Some v)
    then obtain q where "kv_data st (full_key m p) = Some (KvResource q)"
      using assms(4) unfolding healthy_store_def by (metis option.distinct(1))
    then have "InitResourceIDPool F m i rt ?s ?e st = (Done None, st\<lparr>kv_ops := Suc (kv_ops st)\<rparr>)"
      using p(1,2) assms(3) by (simp add: InitResourceIDPool_def GetResource_def kvm_defs kv_Get_def)
    with st'(1) have "kv_data st' = kv_data st" by auto
    with Some show ?thesis by (simp add: inits_def new_or_kept_def)
  qed
  moreover have "unreserved st'" using assms(5) st'(3) reserved_no_pool [of m p] by (simp add: unreserved_def)
  ultimately show ?thesis using st' assms(6,7) p(3) by (intro exI [of _ st']) (simp add: init_pool_then_def kvm_defs)
qed

text \<open>All four pools of a port.\<close>

lemma init_device_all:
  assumes "\<forall>n. F n = KvOk" "healthy_store st" "unreserved st" "ranges_complete g"
  shows "\<exists>st'. InitDeviceResourcePoolForIntf F (new_manager t d g) i st = (Done None, st') \<and> healthy_store st' \<and> unreserved st' \<and>
     (\<forall>k. k \<notin> pool_key (new_manager t d g) i ` resource_types \<longrightarrow> kv_data st' k = kv_data st k) \<and>
     (\<forall>rt \<in> resource_types. new_or_kept (pool_range g rt) (pool_key (new_manager t d g) i rt) st st')"
proof -
  let ?m = "new_manager t d g"
  note r = new_manager_ranges resource_types_def pool_range_def nonzero_def
  note go = init_inits [OF new_manager_ready _ assms(1)]
  let ?k4 = "init_pool_then F ?m i ''FLOW_ID'' ''flow_id_start'' ''flow_id_end'' (kret None)"
  let ?k3 = "init_pool_then F ?m i ''GEMPORT_ID'' ''gemport_id_start'' ''gemport_id_end'' ?k4"
  let ?k2 = "init_pool_then F ?m i ''ALLOC_ID'' ''alloc_id_start'' ''alloc_id_end'' ?k3"
  obtain st1 where 1: "healthy_store st1" "unreserved st1" "inits (pool_range g ''ONU_ID'') (pool_key ?m i ''ONU_ID'') st st1"
    "InitDeviceResourcePoolForIntf F ?m i st = ?k2 st1"
    unfolding InitDeviceResourcePoolForIntf_def
    using go [of "''ONU_ID''" st t d g "''onu_id_start''" "pool_range g ''ONU_ID''" "''onu_id_end''" i ?k2] assms(2-4)
    by (auto simp: r ranges_complete_def)
  obtain st2 where 2: "healthy_store st2" "unreserved st2" "inits (pool_range g ''ALLOC_ID'') (pool_key ?m i ''ALLOC_ID'') st1 st2"
    "?k2 st1 = ?k3 st2"
    using go [of "''ALLOC_ID''" st1 t d g "''alloc_id_start''" "pool_range g ''ALLOC_ID''" "''alloc_id_end''" i ?k3] 1 assms(4)
    by (auto simp: r ranges_complete_def)
  obtain st3 where 3: "healthy_store st3" "unreserved st3" "inits (pool_range g ''GEMPORT_ID'') (pool_key ?m i ''GEMPORT_ID'') st2 st3"
    "?k3 st2 = ?k4 st3"
    using go [of "''GEMPORT_ID''" st2 t d g "''gemport_id_start''" "pool_range g ''GEMPORT_ID''" "''gemport_id_end''" i ?k4] 2 assms(4)
    by (auto simp: r ranges_complete_def)
  obtain st4 where 4: "healthy_store st4" "unreserved st4" "inits (pool_range g ''FLOW_ID'') (pool_key ?m i ''FLOW_ID'') st3 st4"
    "?k4 st3 = kret None st4"
    using go [of "''FLOW_ID''" st3 t d g "''flow_id_start''" "pool_range g ''FLOW_ID''" "''flow_id_end''" i "kret None"] 3 assms(4)
    by (auto simp: r ranges_complete_def)
  have apart: "pool_key ?m i rt = pool_key ?m i rt' \<longleftrightarrow> rt = rt'" if "rt \<in> resource_types" "rt' \<in> resource_types" for rt rt'
    using pool_key_inj [OF new_manager_ready new_manager_ready that] by auto
  have "new_or_kept (pool_range g rt) (pool_key ?m i rt) st st4" if "rt \<in> resource_types" for rt
  proof -
    from that consider "rt = ''ONU_ID''" | "rt = ''ALLOC_ID''" | "rt = ''GEMPORT_ID''" | "rt = ''FLOW_ID''"
      by (auto simp: resource_types_def)
    then obtain sa sb where "new_or_kept (pool_range g rt) (pool_key ?m i rt) sa sb"
      "kv_data sa (pool_key ?m i rt) = kv_data st (pool_key ?m i rt)" "kv_data st4 (pool_key ?m i rt) = kv_data sb (pool_key ?m i rt)"
    proof cases
      case a: 1
      show thesis by (rule that [of st st1]) (use 1 2 3 4 a in \<open>simp_all add: inits_def apart resource_types_def\<close>)
    next
      case a: 2
      show thesis by (rule that [of st1 st2]) (use 1 2 3 4 a in \<open>simp_all add: inits_def apart resource_types_def\<close>)
    next
      case a: 3
      show thesis by (rule that [of st2 st3]) (use 1 2 3 4 a in \<open>simp_all add: inits_def apart resource_types_def\<close>)
    next
      case a: 4
      show thesis by (rule that [of st3 st4]) (use 1 2 3 4 a in \<open>simp_all add: inits_def apart resource_types_def\<close>)
    qed
    then show ?thesis using new_or_kept_cong by metis
  qed
  moreover have "kv_data st4 k = kv_data st k" if "k \<notin> pool_key ?m i ` resource_types" for k
    using that 1(3) 2(3) 3(3) 4(3) by (simp add: inits_def resource_types_def)
  ultimately show ?thesis using 1 2 3 4 by (intro exI [of _ st4]) (simp add: kret_def)
qed

section \<open>The pools of all ports\<close>

text \<open>The managers of the ports of one range have the same PON resource manager.\<close>

abbreviation range_mgr :: "DeviceInfo \<Rightarrow> DeviceResourceRanges \<Rightarrow> PONResourceManager" where
  "range_mgr \<equiv> range_manager ''ABCD''"

abbreviation port_pool :: "DeviceInfo \<Rightarrow> DeviceResourceRanges \<Rightarrow> kv \<Rightarrow> uint32 \<Rightarrow> string \<Rightarrow> bool" where
  "port_pool dev r st j rt \<equiv> new_pool (pool_range (device_ranges r dev) rt) st (pool_key (range_mgr dev r) j rt)"

text \<open>The store of a first start, on the way: every pool is missing or new.\<close>

definition starting_pools :: "DeviceInfo \<Rightarrow> DeviceResourceRanges \<Rightarrow> kv \<Rightarrow> bool" where
  "starting_pools dev r st \<longleftrightarrow> healthy_store st \<and> unreserved st \<and>
     (\<forall>j. \<forall>rt \<in> resource_types. kv_data st (pool_key (range_mgr dev r) j rt) = None \<or> port_pool dev r st j rt)"

lemma range_mgr_ready [simp]: "mgr_ready (range_mgr dev r)"
  by (simp add: range_manager_def new_manager_ready)

lemma port_starts:
  assumes "starting_pools dev r st" "\<forall>n. F n = KvOk" "ranges_complete (device_ranges r dev)"
  shows "\<exists>st'. InitDeviceResourcePoolForIntf F (range_mgr dev r) i st = (Done None, st') \<and> starting_pools dev r st' \<and>
     (\<forall>rt \<in> resource_types. port_pool dev r st' i rt) \<and> (\<forall>k. kv_data st k \<noteq> None \<longrightarrow> kv_data st' k \<noteq> None) \<and>
     (\<forall>k. (\<forall>p. k \<noteq> full_key (range_mgr dev r) p) \<longrightarrow> kv_data st' k = kv_data st k)"
proof -
  let ?m = "range_mgr dev r" and ?g = "device_ranges r dev"
  obtain st' where st': "InitDeviceResourcePoolForIntf F ?m i st = (Done None, st')" "healthy_store st'" "unreserved st'"
    "\<forall>k. k \<notin> pool_key ?m i ` resource_types \<longrightarrow> kv_data st' k = kv_data st k"
    "\<forall>rt \<in> resource_types. new_or_kept (pool_range ?g rt) (pool_key ?m i rt) st st'"
    using init_device_all [OF assms(2) _ _ assms(3), of st] assms(1) unfolding starting_pools_def range_manager_def by blast
  have new: "port_pool dev r st' i rt" if "rt \<in> resource_types" for rt
  proof -
    have "new_or_kept (pool_range ?g rt) (pool_key ?m i rt) st st'"
      "kv_data st (pool_key ?m i rt) = None \<or> port_pool dev r st i rt"
      using st'(5) assms(1) that by (auto simp: starting_pools_def)
    then show ?thesis by (auto simp: new_or_kept_def new_pool_def)
  qed
  have "kv_data st' (pool_key ?m j rt) = None \<or> port_pool dev r st' j rt" if rt: "rt \<in> resource_types" for j rt
  proof (cases "pool_key ?m j rt \<in> pool_key ?m i ` resource_types")
    case True
    then obtain rt' where k: "rt' \<in> resource_types" "pool_key ?m j rt = pool_key ?m i rt'" by blast
    from pool_key_inj [OF range_mgr_ready range_mgr_ready rt k(1) refl refl k(2)] k new [OF rt] show ?thesis by simp
  next
    case False
    with st'(4) assms(1) rt show ?thesis by (simp add: starting_pools_def new_pool_def)
  qed
  with st'(2,3) have "starting_pools dev r st'" by (simp add: starting_pools_def)
  moreover have "kv_data st' k \<noteq> None" if "kv_data st k \<noteq> None" for k
  proof (cases "k \<in> pool_key ?m i ` resource_types")
    case True
    with new show ?thesis by (auto simp: new_pool_def)
  qed (use that st'(4) in simp)
  moreover have "kv_data st' k = kv_data st k" if "\<forall>p. k \<noteq> full_key ?m p" for k
  proof -
    have "k \<notin> pool_key ?m i ` resource_types" using that ready_key [OF range_mgr_ready] by blast
    with st'(4) show ?thesis by blast
  qed
  ultimately show ?thesis using st'(1) new by blast
qed

lemma ports_start:
  assumes "\<forall>t. new_pon_ok D t" "\<forall>n. kv_answers D n = KvOk" "new_tp_ok D" "single_range dev r"
    and "starting_pools dev r st" "\<forall>j \<in> set js. j < di_PonPorts dev"
  shows "\<exists>st'. new_managers D dev js st = (Done (Inr (map (\<lambda>j. Some (port_manager dev j)) js)), st') \<and> starting_pools dev r st' \<and>
     (\<forall>j \<in> set js. \<forall>rt \<in> resource_types. port_pool dev r st' j rt) \<and> (\<forall>k. kv_data st k \<noteq> None \<longrightarrow> kv_data st' k \<noteq> None) \<and>
     (\<forall>k. (\<forall>p. k \<noteq> full_key (range_mgr dev r) p) \<longrightarrow> kv_data st' k = kv_data st k)"
  using assms(5,6)
proof (induction js arbitrary: st)
  case (Cons j js)
  have pr: "port_ranges dev j = [r]" "ranges_complete (device_ranges r dev)" using assms(4) Cons.prems(2) by (auto simp: single_range_def)
  obtain st1 where 1: "InitDeviceResourcePoolForIntf (kv_answers D) (range_mgr dev r) j st = (Done None, st1)" "starting_pools dev r st1"
    "\<forall>rt \<in> resource_types. port_pool dev r st1 j rt" "\<forall>k. kv_data st k \<noteq> None \<longrightarrow> kv_data st1 k \<noteq> None"
    "\<forall>k. (\<forall>p. k \<noteq> full_key (range_mgr dev r) p) \<longrightarrow> kv_data st1 k = kv_data st k"
    using port_starts [OF Cons.prems(1) assms(2) pr(2)] by blast
  have m: "NewResourceMgr D ''ABCD'' j dev st = (RmOk (port_manager dev j), st1)"
    using NewResourceMgr_one [OF pr(1) _ assms(3) 1(1)] assms(1) pr(1) by (simp add: port_manager_def)
  obtain st2 where 2: "new_managers D dev js st1 = (Done (Inr (map (\<lambda>j. Some (port_manager dev j)) js)), st2)" "starting_pools dev r st2"
    "\<forall>j \<in> set js. \<forall>rt \<in> resource_types. port_pool dev r st2 j rt" "\<forall>k. kv_data st1 k \<noteq> None \<longrightarrow> kv_data st2 k \<noteq> None"
    "\<forall>k. (\<forall>p. k \<noteq> full_key (range_mgr dev r) p) \<longrightarrow> kv_data st2 k = kv_data st1 k"
    using Cons.IH [OF 1(2)] Cons.prems(2) by auto
  have "port_pool dev r st2 j rt" if "rt \<in> resource_types" for rt
  proof -
    from 1(3) that have "kv_data st1 (pool_key (range_mgr dev r) j rt) \<noteq> None" by (auto simp: new_pool_def)
    with 2(2,4) that show ?thesis unfolding starting_pools_def by blast
  qed
  with m 2 1(4,5) show ?case by (intro exI [of _ st2]) simp
qed simp

text \<open>The room of a new pool is its bitmap: the end of its range, rounded up to whole bytes.\<close>

definition pool_size :: "uint32 \<Rightarrow> nat" where
  "pool_size EndID = 8 * ((unat EndID + 7) div 8)"

lemma new_pool_room:
  assumes "new_pool (s, e) st k" "unat e \<le> 2 ^ 32 - 8" "n \<le> pool_size e"
  shows "pool_room st k n"
proof -
  obtain r where r: "kv_data st k = Some (KvResource r)" "bm_Len (res_pool r) = pool_size e" "used (res_pool r) = {}"
    using assms(1) by (auto simp: new_pool_def FormatResource_def bm_Len_mult length_NewSlice pool_size_def)
  have "pool_inv r" using assms(2) r(2) by (simp add: pool_inv_def pool_size_def)
  moreover from card_image [OF index_inj [OF this]] r(2,3) have "card (free_ids r) = pool_size e"
    by (simp add: free_ids_def pool_ids_def pool_taken_def)
  ultimately show ?thesis using r(1) assms(3) by (simp add: pool_room_def)
qed

end
