(* ===== verification/Library_Run.thy ===== *)
theory Library_Run
  imports Tp_Library
begin

text \<open>
  The goroutines on the modelled technology profile library. The calls a run can make are bounded before it starts, by the ONUs, the
  subscribers of an ONU and the profiles; \<open>asks\<close> bounds the calls a program has in front of it, and the bounds of the goroutines
  add up to a potential that every call uses up. While it lasts, the library cannot be told from one that always
  delivers, so what \<open>Healthy_Run\<close> shows of such a library carries over.
\<close>

section \<open>Bounds on the calls of a program\<close>

text \<open>At most \<open>n\<close> calls of the library, all in \<open>R\<close>, on the paths on which the library answers in \<open>T\<close> and the device in \<open>C\<close>.\<close>

primrec asks ::
  "(tp_result \<Rightarrow> bool) \<Rightarrow> (rpc \<Rightarrow> go_error option \<Rightarrow> bool) \<Rightarrow> (tp_req \<Rightarrow> bool) \<Rightarrow> 'a prog \<Rightarrow> nat \<Rightarrow> bool" where
  "asks T C R (Ret x) n = True"
| "asks T C R (Panic e) n = True"
| "asks T C R (NextFlowID m k) n = (\<forall>v. asks T C R (k v) n)"
| "asks T C R (Tag r k) n = (\<forall>v. asks T C R (k v) n)"
| "asks T C R (LoadPon k) n = (\<forall>v. asks T C R (k v) n)"
| "asks T C R (AddPon d k) n = (\<forall>v. asks T C R (k v) n)"
| "asks T C R (Rand m k) n = (\<forall>v. m = 0 \<or> v < m \<longrightarrow> asks T C R (k v) n)"
| "asks T C R (Call r k) n = (\<forall>v. C r v \<longrightarrow> asks T C R (k v) n)"
| "asks T C R (TpCreate r k) n = (case n of 0 \<Rightarrow> False | Suc n' \<Rightarrow> R r \<and> (\<forall>v. T v \<longrightarrow> asks T C R (k v) n'))"

lemma asks_mono: "asks T C R p n \<Longrightarrow> n \<le> n' \<Longrightarrow> asks T C R p n'"
proof (induction p arbitrary: n n')
  case (TpCreate r k)
  obtain m m' where m: "n = Suc m" "n' = Suc m'" "m \<le> m'"
    using TpCreate.prems by (cases n; cases n') auto
  with TpCreate.prems TpCreate.IH [OF rangeI] show ?case by (auto simp del: split_paired_All)
qed (simp; metis rangeI)+

lemma asks_bindp:
  "paths T C X Q m \<Longrightarrow> asks T C R m a \<Longrightarrow> (\<And>x. Q x \<Longrightarrow> asks T C R (f x) b) \<Longrightarrow> asks T C R (bindp m f) (a + b)"
  by (induction m arbitrary: a) (auto intro: asks_mono [OF _ le_add2] split: nat.splits simp del: split_paired_All)

lemma safe_asks: "safe P Q p \<Longrightarrow> asks T C R p n"
  by (induction p) auto

text \<open>An action is a call, which uses up one of the bound, or no call.\<close>

definition uses :: "(tp_req \<Rightarrow> bool) \<Rightarrow> world \<Rightarrow> world \<Rightarrow> nat \<Rightarrow> nat \<Rightarrow> bool" where
  "uses R w w' n n' \<longleftrightarrow> tp_calls w' = tp_calls w \<and> n' \<le> n \<or> (\<exists>r. tp_calls w' = tp_calls w @ [r] \<and> R r \<and> Suc n' \<le> n)"

lemma uses_add: "uses R w w' n n' \<Longrightarrow> uses R w w' (k + n) (k + n')"
  by (auto simp: uses_def)

lemma asks_step:
  assumes "asks T C R p n" "step1 E p w = Some (p', w')" "\<And>h r. T (tp_store E h r)" "\<And>h r. C r (reply E h r)"
  shows "\<exists>n'. asks T C R p' n' \<and> uses R w w' n n'"
proof (cases p)
  case (Rand m k)
  have "m = 0 \<or> rand_src E (draws w) mod m < m" by (cases m) simp_all
  with assms(1,2) Rand show ?thesis by (auto simp: uses_def)
next
  case (Call r k)
  with assms(1,2) assms(4) [of r "sent w"] show ?thesis by (auto simp: uses_def)
next
  case (TpCreate r k)
  with assms(1) obtain m where "n = Suc m" "R r" "\<forall>v. T v \<longrightarrow> asks T C R (k v) m"
    by (cases n) (auto simp del: split_paired_All)
  with TpCreate assms(2) assms(3) [of "tp_calls w" r] show ?thesis
    by (intro exI [of _ m]) (auto simp: uses_def simp del: split_paired_All)
qed (use assms(1,2) in \<open>auto simp: uses_def flow_id_section_def Let_def\<close>)

text \<open>The program of a subscriber calls the library once per profile.\<close>

lemma asks_create:
  assumes "\<And>i. i \<in> set ids \<Longrightarrow>
    R \<lparr>tr_tpID = of_int i, tr_uniPortName = UniPortName (PonIntf subs) (OnuID subs) (UniID subs), tr_intfID = PonIntf subs\<rparr>"
  shows "asks delivered C R (create_tp_instances ids subs) (length ids)"
  using assms
proof (induction ids arbitrary: subs)
  case (Cons i ids)
  have "asks delivered C R (create_tp_instances ids (subs\<lparr>TpInstance := (TpInstance subs)(i \<mapsto> inst)\<rparr>)) (length ids)" for inst
    using Cons by (intro Cons.IH) auto
  then show ?case using Cons.prems by (auto simp: Let_def dest!: deliveredD)
qed simp

lemma asks_life:
  assumes "WorkflowName (TestConfig subs) \<in> {''ATT'', ''DT'', ''TT''}" "TpIDList (TestConfig subs) \<noteq> []"
    and "isGroup \<longrightarrow> di_PonPorts (rm_deviceInfo (RsrMgr subs)) \<noteq> 0"
    and "PonIntf subs \<in> ports" "of_int ` set (TpIDList (TestConfig subs)) \<subseteq> ids"
  shows "asks delivered C (lib_call ports ids) (subscriber_life subs isGroup) (length (TpIDList (TestConfig subs)))"
proof -
  have start: "asks delivered C (lib_call ports ids) (Subscriber_Start subs) (length (TpIDList (TestConfig subs)))"
    unfolding Subscriber_Start_def using assms(4,5) by (intro asks_create) (auto simp: lib_call_def)
  have deploy: "asks delivered C R (bindp (DeployWorkflow s isGroup) (\<lambda>s. Ret (s, True))) 0" if "deployable isGroup s" for R s
    using asks_bindp [OF safe_paths [OF safe_DeployWorkflow [OF that]] safe_asks [OF safe_DeployWorkflow [OF that], where n = 0], where b = 0 and f = "\<lambda>s. Ret (s, True)"] by simp
  have "asks delivered C (lib_call ports ids) (subscriber_life subs isGroup) (length (TpIDList (TestConfig subs)) + 0)"
    unfolding subscriber_life_def by (rule asks_bindp [OF paths_start [OF assms(1-3)] start]) (use deploy in auto)
  then show ?thesis by simp
qed

section \<open>Bounds on the goroutines\<close>

definition port_device :: "plant \<Rightarrow> OnuDevice \<Rightarrow> bool" where
  "port_device P dev \<longleftrightarrow> good_device P dev \<and> od_PonIntf dev \<in> set (pl_ports P)"

abbreviation plant_call :: "plant \<Rightarrow> tp_req \<Rightarrow> bool" where
  "plant_call P \<equiv> lib_call (set (pl_ports P)) (of_int ` set (TpIDList (pl_cfg P)))"

abbreviation sub_asks :: "plant \<Rightarrow> 'a prog \<Rightarrow> nat \<Rightarrow> bool" where
  "sub_asks P \<equiv> asks delivered accepts_onus (plant_call P)"

abbreviation profiles :: "plant \<Rightarrow> nat" where
  "profiles P \<equiv> length (TpIDList (pl_cfg P))"

abbreviation subscribers :: "plant \<Rightarrow> nat" where
  "subscribers P \<equiv> unat (SubscribersPerOnu (pl_cfg P))"

text \<open>The calls the goroutine of an ONU and its subscribers have in front of them.\<close>

fun go_asks :: "plant \<Rightarrow> onu_go \<Rightarrow> nat \<Rightarrow> bool" where
  "go_asks P (InActivate p) n =
     (paths delivered accepts_onus True (\<lambda>r. port_device P (fst r)) p \<and> sub_asks P p 0 \<and> subscribers P * profiles P \<le> n)"
| "go_asks P (Looking key) n = (subscribers P * profiles P \<le> n)"
| "go_asks P Over n = True"
| "go_asks P (Loop dev k p ss) n =
     (port_device P dev \<and> k < subscribers P \<and> sub_asks P p 0 \<and>
      paths delivered accepts_onus True (\<lambda>s. sub_asks P (subscriber_life s (IsGroupTest (od_testConfig dev))) (profiles P)) p \<and>
      (\<exists>ns. list_all2 (sub_asks P) ss ns \<and> sum_list ns + (subscribers P - k) * profiles P \<le> n))"
| "go_asks P (Joining dev ss) n = (\<exists>ns. list_all2 (sub_asks P) ss ns \<and> sum_list ns \<le> n)"
| "go_asks P (Finished dev ss) n = True"

lemma sub_asks_step:
  assumes "list_all2 (sub_asks P) ss ns" "j < length ss" "step1 E (ss ! j) w = Some (q, w')"
    and "\<And>h r. delivered (tp_store E h r)" "\<And>h r. accepts_onus r (reply E h r)"
  shows "\<exists>ns'. list_all2 (sub_asks P) (ss[j := q]) ns' \<and> uses (plant_call P) w w' (sum_list ns) (sum_list ns')"
proof -
  have a: "sub_asks P (ss ! j) (ns ! j)" "j < length ns" using assms(1,2) by (auto simp: list_all2_conv_all_nth)
  from asks_step [OF a(1) assms(3)] assms(4,5) obtain n' where n': "sub_asks P q n'" "uses (plant_call P) w w' (ns ! j) n'" by blast
  have "sum_list ns = (sum_list ns - ns ! j) + ns ! j" "sum_list (ns[j := n']) = (sum_list ns - ns ! j) + n'"
    using elem_le_sum_list [OF a(2)] a(2) by (simp_all add: sum_list_update)
  with uses_add [OF n'(2)] have "uses (plant_call P) w w' (sum_list ns) (sum_list (ns[j := n']))" by metis
  with n'(1) assms(1) show ?thesis by (intro exI [of _ "ns[j := n']"]) (simp add: list_all2_update_cong)
qed

lemma make_asks:
  assumes "port_device P dev" "plant_ok P b"
  shows "paths T C X (\<lambda>s. sub_asks P (subscriber_life s (IsGroupTest (od_testConfig dev))) (profiles P)) (make_subscriber dev k)"
    "sub_asks P (make_subscriber dev k) 0"
proof -
  show "sub_asks P (make_subscriber dev k) 0" by (simp add: make_subscriber_def Let_def)
  have life: "sub_asks P (subscriber_life s (IsGroupTest (od_testConfig dev))) (profiles P)"
    if "PonIntf s = od_PonIntf dev" "TestConfig s = od_testConfig dev" "RsrMgr s = od_rsrMgr dev" for s
    using asks_life [of s "IsGroupTest (od_testConfig dev)" "set (pl_ports P)" "of_int ` set (TpIDList (pl_cfg P))" accepts_onus] that assms
    by (auto simp: port_device_def good_device_def plant_ok_def)
  then show "paths T C X (\<lambda>s. sub_asks P (subscriber_life s (IsGroupTest (od_testConfig dev))) (profiles P)) (make_subscriber dev k)"
    by (simp add: make_subscriber_def Let_def)
qed

lemma loop_at_asks:
  assumes "port_device P dev" "plant_ok P b" "list_all2 (sub_asks P) ss ns" "sum_list ns + (subscribers P - k) * profiles P \<le> n"
  shows "go_asks P (loop_at dev k ss) n"
proof -
  have "od_testConfig dev = pl_cfg P" using assms(1) by (simp add: port_device_def good_device_def)
  with assms make_asks [OF assms(1,2)] show ?thesis by (auto simp: loop_at_def)
qed

lemma port_device_update [simp]: "port_device P (dev\<lparr>od_SubscriberMap := M\<rparr>) = port_device P dev"
  by (simp add: port_device_def good_device_def)

lemma go_step_asks:
  assumes "go_step E (g, w, m) (g', w', m') signals" "go_asks P g n" "\<forall>dev \<in> ran m. port_device P dev" "plant_ok P b"
    and "\<And>h r. delivered (tp_store E h r)" "\<And>h r. accepts_onus r (reply E h r)"
  shows "(\<exists>n'. go_asks P g' n' \<and> uses (plant_call P) w w' n n') \<and> (\<forall>dev \<in> ran m'. port_device P dev)"
  using assms(1)
proof (cases rule: go_step.cases)
  case (activate p p')
  have st: "step1 E p w = Some (p', w')" using activate by simp
  from asks_step [OF _ st, of delivered accepts_onus "plant_call P" 0] assms(2,5,6) activate(1)
  obtain n' where "sub_asks P p' n'" "uses (plant_call P) w w' 0 n'" by auto
  then have "sub_asks P p' 0" "tp_calls w' = tp_calls w" by (auto simp: uses_def)
  moreover have "paths delivered accepts_onus True (\<lambda>r. port_device P (fst r)) p'"
    using paths_step1 [OF _ st] assms(2,5,6) activate(1) by auto
  ultimately show ?thesis using assms(2,3) activate by (intro conjI exI [of _ n]) (auto simp: uses_def)
next
  case (store dev ok)
  with assms(2,3) show ?thesis by (auto simp: store_onu_def ran_def uses_def intro!: exI [of _ n])
next
  case (start key dev)
  have "port_device P dev" using start assms(3) by (metis ranI)
  then have "go_asks P g' n" unfolding start using assms(2) start(1) by (intro loop_at_asks [OF _ assms(4)]) auto
  with assms(3) start show ?thesis by (auto simp: uses_def)
next
  case (build p p' dev k ss)
  have st: "step1 E p w = Some (p', w')" using build by simp
  from asks_step [OF _ st, of delivered accepts_onus "plant_call P" 0] assms(2,5,6) build(1)
  obtain n' where "sub_asks P p' n'" "uses (plant_call P) w w' 0 n'" by auto
  then have "sub_asks P p' 0" "tp_calls w' = tp_calls w" by (auto simp: uses_def)
  moreover have "paths delivered accepts_onus True (\<lambda>s. sub_asks P (subscriber_life s (IsGroupTest (od_testConfig dev))) (profiles P)) p'"
    using paths_step1 [OF _ st] assms(2,5,6) build(1) by auto
  ultimately show ?thesis using assms(2,3) build by (intro conjI exI [of _ n]) (auto simp: uses_def)
next
  case (spawn dev k subs ss)
  with assms(2) obtain ns where ns: "list_all2 (sub_asks P) ss ns" "sum_list ns + (subscribers P - k) * profiles P \<le> n"
    and k: "k < subscribers P" and dev: "port_device P dev"
    and life: "sub_asks P (subscriber_life subs (IsGroupTest (od_testConfig dev))) (profiles P)" by auto
  have "subscribers P - k = Suc (subscribers P - Suc k)" using k by simp
  then have "go_asks P g' n" unfolding spawn using dev life ns
    by (intro loop_at_asks [OF _ assms(4), where ns = "ns @ [profiles P]"]) (auto simp: list_all2_appendI)
  with assms(3) spawn show ?thesis by (auto simp: uses_def)
next
  case (early j ss q dev k p)
  with assms(2) obtain ns where ns: "list_all2 (sub_asks P) ss ns" "sum_list ns + (subscribers P - k) * profiles P \<le> n" by auto
  have st: "j < length ss" "step1 E (ss ! j) w = Some (q, w')" using early by simp_all
  from sub_asks_step [OF ns(1) st] assms(5,6) obtain ns' where
    "list_all2 (sub_asks P) (ss[j := q]) ns'" "uses (plant_call P) w w' (sum_list ns) (sum_list ns')" by blast
  with early assms(2,3) ns(2) show ?thesis
    by (intro conjI exI [of _ "sum_list ns' + (subscribers P - k) * profiles P"]) (auto simp: uses_def)
next
  case (late j ss q dev)
  with assms(2) obtain ns where ns: "list_all2 (sub_asks P) ss ns" "sum_list ns \<le> n" by auto
  have st: "j < length ss" "step1 E (ss ! j) w = Some (q, w')" using late by simp_all
  from sub_asks_step [OF ns(1) st] assms(5,6) obtain ns' where
    "list_all2 (sub_asks P) (ss[j := q]) ns'" "uses (plant_call P) w w' (sum_list ns) (sum_list ns')" by blast
  with late assms(2,3) ns(2) show ?thesis by (intro conjI exI [of _ "sum_list ns'"]) (auto simp: uses_def)
next
  case (wait ss dev)
  with assms(3) show ?thesis by (auto simp: uses_def)
qed

section \<open>The potential of the system\<close>

text \<open>The iterations the provisioner has in front of it.\<close>

definition iterations :: "plant \<Rightarrow> sys \<Rightarrow> nat" where
  "iterations P s = (case sy_batches s of 0 \<Rightarrow> 0 | Suc b \<Rightarrow> length (sy_ports s) + b * length (pl_ports P))"

definition calls_left :: "plant \<Rightarrow> nat \<Rightarrow> sys \<Rightarrow> nat list \<Rightarrow> bool" where
  "calls_left P N s ns \<longleftrightarrow> list_all2 (go_asks P) (sy_onus s) ns \<and>
     length (tp_calls (sy_world s)) + sum_list ns + iterations P s * (subscribers P * profiles P) \<le> N"

definition call_inv :: "plant \<Rightarrow> nat \<Rightarrow> sys \<Rightarrow> bool" where
  "call_inv P N s \<longleftrightarrow> (\<exists>ns. calls_left P N s ns) \<and> list_all (plant_call P) (tp_calls (sy_world s)) \<and>
     (\<forall>dev \<in> ran (sy_map s). port_device P dev) \<and> set (sy_ports s) \<subseteq> set (pl_ports P)"

lemma go_asks_Active:
  assumes "provision_one pools (pl_mgrs P) i j pv = (Done (Some x), pv')" "j \<in> set (pl_ports P)" "plant_ok P b"
  shows "go_asks P (InActivate (activateONU (pl_cfg P) (pl_mgrs P) (sp_intfID x) (sp_onuID x) (sp_serial x) (sp_serialNumber x) now))
     (subscribers P * profiles P)"
proof -
  have "sp_intfID x = j"
    using assms(1) by (auto simp: provision_one_def Let_def split: if_splits outcome.splits option.splits list.splits)
  moreover have "unat j < length (pl_mgrs P)" using assms(2,3) by (simp add: plant_ok_def)
  ultimately show ?thesis using assms(2)
    by (simp add: activateONU_def accepts_onus_def port_device_def good_device_def Let_def)
qed

lemma sys_step_calls:
  assumes "sys_step P s s'" "call_inv P N s" "healthy_plant P b"
  shows "call_inv P N s'"
proof -
  let ?W = "subscribers P * profiles P"
  have ok: "plant_ok P b" and env: "\<And>h r. delivered (tp_store (pl_env P) h r)" "\<And>h r. accepts_onus r (reply (pl_env P) h r)"
    using assms(3) by (auto simp: healthy_plant_def plant_ok_def)
  obtain ns where ns: "list_all2 (go_asks P) (sy_onus s) ns"
    "length (tp_calls (sy_world s)) + sum_list ns + iterations P s * ?W \<le> N"
    using assms(2) by (auto simp: call_inv_def calls_left_def)
  from assms(1) show ?thesis
  proof (cases rule: sys_step.cases)
    case (start_onu j js x pv' now)
    have "j \<in> set (pl_ports P)" using start_onu assms(2) by (auto simp: call_inv_def)
    note new = go_asks_Active [OF start_onu(5) this ok, of now]
    have "iterations P s = Suc (iterations P s')" using start_onu by (auto simp: iterations_def split: nat.split)
    with ns start_onu new have "calls_left P N s' (ns @ [?W])"
      by (simp add: calls_left_def list_all2_appendI)
    with start_onu assms(2) show ?thesis by (auto simp: call_inv_def)
  next
    case (skip_onu j js pv')
    have "iterations P s = Suc (iterations P s')" using skip_onu by (auto simp: iterations_def split: nat.split)
    with ns skip_onu have "calls_left P N s' ns" by (simp add: calls_left_def)
    with skip_onu assms(2) show ?thesis by (auto simp: call_inv_def)
  next
    case (prov_panic j js e pv')
    have "iterations P s' = iterations P s" using prov_panic by (simp add: iterations_def split: nat.split)
    with ns prov_panic have "calls_left P N s' ns" by (simp add: calls_left_def)
    with prov_panic assms(2) show ?thesis by (auto simp: call_inv_def)
  next
    case (next_batch b')
    have "iterations P s' = iterations P s" using next_batch by (cases b') (simp_all add: iterations_def)
    with ns next_batch have "calls_left P N s' []" by (simp add: calls_left_def)
    with next_batch assms(2) show ?thesis by (auto simp: call_inv_def)
  next
    case (onu i g w' m' signals)
    have i: "i < length ns" "go_asks P (sy_onus s ! i) (ns ! i)" using ns(1) onu by (auto simp: list_all2_conv_all_nth)
    from go_step_asks [OF onu(4) i(2) _ ok env] assms(2) obtain n' where n': "go_asks P g n'"
      "uses (plant_call P) (sy_world s) w' (ns ! i) n'" and dev: "\<forall>dev \<in> ran m'. port_device P dev"
      by (auto simp: call_inv_def)
    have sum: "sum_list ns = (sum_list ns - ns ! i) + ns ! i" "sum_list (ns[i := n']) = (sum_list ns - ns ! i) + n'"
      using elem_le_sum_list [OF i(1)] i(1) by (simp_all add: sum_list_update)
    have "iterations P s' = iterations P s" using onu by (simp add: iterations_def split: nat.split)
    moreover have "length (tp_calls w') + sum_list (ns[i := n']) \<le> length (tp_calls (sy_world s)) + sum_list ns"
      using n'(2) sum by (auto simp: uses_def)
    ultimately have "calls_left P N s' (ns[i := n'])"
      using ns n'(1) onu by (simp add: calls_left_def list_all2_update_cong)
    moreover have "list_all (plant_call P) (tp_calls w')" using n'(2) assms(2) by (auto simp: uses_def call_inv_def)
    ultimately show ?thesis using onu dev assms(2) by (auto simp: call_inv_def)
  next
    case (onu_panic i e)
    have "iterations P s' = iterations P s" using onu_panic by (simp add: iterations_def split: nat.split)
    with ns onu_panic have "calls_left P N s' ns" by (simp add: calls_left_def)
    with onu_panic assms(2) show ?thesis by (auto simp: call_inv_def)
  qed
qed

lemma sys_init_calls:
  assumes "tp_calls w = []" "b * length (pl_ports P) * (subscribers P * profiles P) \<le> N"
  shows "call_inv P N (sys_init P b v w)"
proof -
  have "iterations P (sys_init P b v w) = b * length (pl_ports P)" by (cases b) (simp_all add: iterations_def sys_init_def)
  with assms have "calls_left P N (sys_init P b v w) []" by (simp add: calls_left_def sys_init_def)
  with assms(1) show ?thesis by (auto simp: call_inv_def sys_init_def)
qed

section \<open>The library against one that always delivers\<close>

text \<open>Environments that differ only in what the library answers after \<open>N\<close> calls, or to other calls.\<close>

definition agree :: "plant \<Rightarrow> nat \<Rightarrow> env \<Rightarrow> env \<Rightarrow> bool" where
  "agree P N E E' \<longleftrightarrow> reply E = reply E' \<and> rand_src E = rand_src E' \<and>
     (\<forall>h r. list_all (plant_call P) h \<and> plant_call P r \<and> length h < N \<longrightarrow> tp_store E h r = tp_store E' h r)"

lemma agree_sym: "agree P N E E' \<Longrightarrow> agree P N E' E"
  by (simp add: agree_def)

lemma step1_agree:
  assumes "agree P N E E'" "sub_asks P p n" "length (tp_calls w) + n \<le> N" "list_all (plant_call P) (tp_calls w)"
  shows "step1 E' p w = step1 E p w"
  using assms by (cases p) (auto simp: agree_def split: nat.splits)

lemma go_step_agree:
  assumes "go_step E (g, w, m) d signals" "agree P N E E'" "go_asks P g n"
    and "length (tp_calls w) + n \<le> N" "list_all (plant_call P) (tp_calls w)"
  shows "go_step E' (g, w, m) d signals"
proof -
  have sub: "step1 E' (ss ! j) w = step1 E (ss ! j) w"
    if "list_all2 (sub_asks P) ss ns" "j < length ss" "sum_list ns \<le> n" for ss ns j
  proof (rule step1_agree [OF assms(2)])
    show "sub_asks P (ss ! j) (ns ! j)" using that(1,2) by (simp add: list_all2_conv_all_nth)
    have "ns ! j \<le> sum_list ns" using that(1,2) by (intro elem_le_sum_list) (simp add: list_all2_lengthD)
    with that(3) assms(4) show "length (tp_calls w) + ns ! j \<le> N" by simp
  qed (rule assms(5))
  from assms(1) show ?thesis
  proof (cases rule: go_step.cases)
    case (activate p p')
    with step1_agree [OF assms(2), of p 0 w] assms(3-5) show ?thesis by (auto intro: go_step.activate)
  next
    case (build p p' dev k ss)
    with step1_agree [OF assms(2), of p 0 w] assms(3-5) show ?thesis by (auto intro: go_step.build)
  next
    case (early j ss q dev k p)
    with assms(3) sub [of ss _ j] show ?thesis by (auto intro: go_step.early)
  next
    case (late j ss q dev)
    with assms(3) sub [of ss _ j] show ?thesis by (auto intro: go_step.late)
  next
    case (store dev ok)
    with go_step.store [of E' dev ok w m] show ?thesis by simp
  qed (auto intro: go_step.intros)
qed

lemma sys_step_agree:
  assumes "sys_step P s s'" "agree P N (pl_env P) E" "call_inv P N s"
  shows "sys_step (P\<lparr>pl_env := E\<rparr>) s s'"
  using assms(1)
proof (cases rule: sys_step.cases)
  case (onu i g w' m' signals)
  obtain ns where ns: "list_all2 (go_asks P) (sy_onus s) ns" "length (tp_calls (sy_world s)) + sum_list ns \<le> N"
    using assms(3) by (auto simp: call_inv_def calls_left_def)
  have i: "go_asks P (sy_onus s ! i) (ns ! i)" "ns ! i \<le> sum_list ns"
    using ns(1) onu by (auto simp: list_all2_conv_all_nth intro!: elem_le_sum_list)
  from go_step_agree [OF onu(4) assms(2) i(1)] i(2) ns(2) assms(3)
  have "go_step E (sy_onus s ! i, sy_world s, sy_map s) (g, w', m') signals" by (simp add: call_inv_def)
  with onu(2,3) show ?thesis unfolding onu(1) by (intro sys_step.onu) simp_all
next
  case (start_onu j js x pv' now)
  with sys_step.start_onu [OF start_onu(2-4), where P = "P\<lparr>pl_env := E\<rparr>" and x = x and pv' = pv' and now = now]
  show ?thesis by simp
next
  case (next_batch b)
  with sys_step.next_batch [OF next_batch(2-5), where P = "P\<lparr>pl_env := E\<rparr>"] show ?thesis by simp
qed (auto intro: sys_step.intros)

lemma with_env [simp]:
  "go_asks (P\<lparr>pl_env := E\<rparr>) = go_asks P" "calls_left (P\<lparr>pl_env := E\<rparr>) = calls_left P" "call_inv (P\<lparr>pl_env := E\<rparr>) = call_inv P"
  "agree (P\<lparr>pl_env := E\<rparr>) = agree P" "sys_init (P\<lparr>pl_env := E\<rparr>) = sys_init P" "all_deployed (P\<lparr>pl_env := E\<rparr>) = all_deployed P"
proof -
  have dev: "port_device (P\<lparr>pl_env := E\<rparr>) = port_device P" by (simp add: port_device_def good_device_def fun_eq_iff)
  from dev have "go_asks (P\<lparr>pl_env := E\<rparr>) g n = go_asks P g n" for g n by (cases g) simp_all
  then show g: "go_asks (P\<lparr>pl_env := E\<rparr>) = go_asks P" by (simp add: fun_eq_iff)
  have "iterations (P\<lparr>pl_env := E\<rparr>) = iterations P" by (simp add: iterations_def fun_eq_iff split: nat.split)
  with g show c: "calls_left (P\<lparr>pl_env := E\<rparr>) = calls_left P" by (intro ext) (simp add: calls_left_def)
  with dev show "call_inv (P\<lparr>pl_env := E\<rparr>) = call_inv P" by (intro ext) (simp add: call_inv_def)
qed (simp_all add: agree_def sys_init_def all_deployed_def fun_eq_iff)

lemma library_run:
  assumes "sys_steps P (sys_init P b v w) s" "agree P N (pl_env P) E" "healthy_plant (P\<lparr>pl_env := E\<rparr>) b"
    and "tp_calls w = []" "b * length (pl_ports P) * (subscribers P * profiles P) \<le> N"
  shows "sys_steps (P\<lparr>pl_env := E\<rparr>) (sys_init P b v w) s \<and> call_inv P N s"
  using assms(1)
proof (induction rule: rtranclp_induct)
  case base
  then show ?case using sys_init_calls [OF assms(4,5)] by simp
next
  case (step y z)
  have s: "sys_step (P\<lparr>pl_env := E\<rparr>) y z" using sys_step_agree [OF step.hyps(2) assms(2)] step.IH by blast
  from sys_step_calls [OF this _ assms(3), of N] step.IH have "call_inv P N z" by simp
  with s step.IH show ?case by (blast intro: rtranclp.rtrancl_into_rtrancl)
qed

lemma agree_works:
  assumes "agree P N (pl_env P) E" "healthy_plant (P\<lparr>pl_env := E\<rparr>) b" "vendor_room P b v"
    and "tp_calls w = []" "b * length (pl_ports P) * (subscribers P * profiles P) \<le> N"
  shows "works P b v w"
proof -
  have "vendor_room (P\<lparr>pl_env := E\<rparr>) b v" using assms(3) by (simp add: vendor_room_def)
  from healthy_works [OF assms(2) this, of w] have works: "works (P\<lparr>pl_env := E\<rparr>) b v w" .
  have "sy_panic s = None \<and> (\<not> (\<exists>s'. sys_step P s s') \<longrightarrow> sy_batches s = 0) \<and> (sy_batches s = 0 \<longrightarrow> all_deployed P b s)"
    if s: "sys_steps P (sys_init P b v w) s" for s
  proof -
    note r = library_run [OF s assms(1,2,4,5)]
    have "sys_step P s s'" if "sys_step (P\<lparr>pl_env := E\<rparr>) s s'" for s'
      using sys_step_agree [OF that, of N "pl_env P"] agree_sym [OF assms(1)] r by simp
    moreover have "sy_panic s = None \<and> (\<not> (\<exists>s'. sys_step (P\<lparr>pl_env := E\<rparr>) s s') \<longrightarrow> sy_batches s = 0) \<and>
        (sy_batches s = 0 \<longrightarrow> all_deployed P b s)"
      using works r by (simp add: works_def)
    ultimately show ?thesis by blast
  qed
  then show ?thesis by (simp add: works_def)
qed

text \<open>The library of the program, with room for every call the run can make.\<close>

lemma library_works:
  assumes "plant_ok P b" "vendor_room P b v" "tp_calls w = []"
    and "tp_store (pl_env P) = port_libraries F T st" "\<forall>n. F n = KvOk"
    and "good_libs m (set (pl_ports P)) (of_int ` set (TpIDList (pl_cfg P))) G T st"
    and "lib_room m (set (pl_ports P)) G st (b * length (pl_ports P) * (subscribers P * profiles P))"
  shows "works P b v w"
proof -
  let ?N = "b * length (pl_ports P) * (subscribers P * profiles P)"
  let ?E = "(pl_env P)\<lparr>tp_store := \<lambda>h r. if list_all (plant_call P) h \<and> plant_call P r \<and> length h < ?N
    then tp_store (pl_env P) h r else (Some sample_instance, None)\<rparr>"
  have "delivered (Some sample_instance, None)" by (simp add: delivered_def sample_instance_def)
  with port_libraries_deliver [OF assms(5-7)] have "delivered (tp_store ?E h r)" for h r by (simp add: assms(4))
  with assms(1) have healthy: "healthy_plant (P\<lparr>pl_env := ?E\<rparr>) b" by (simp add: healthy_plant_def plant_ok_def)
  have agree: "agree P ?N (pl_env P) ?E" by (auto simp: agree_def)
  show ?thesis by (rule agree_works [OF agree healthy assms(2,3) le_refl])
qed

end
