(* ===== verification/Process.thy ===== *)
theory Process
  imports Healthy_Run
begin

text \<open>
  The process: \<open>main\<close> of \<open>main.go\<close> starts the OLT manager in a goroutine and waits for a signal. \<open>Start\<close> runs alone on the
  world until it returns; then the provisioner takes over, and at the end of \<open>provisionONUs\<close> the process sends itself a
  \<open>SIGINT\<close>, which ends the wait. The receive loop of the indications runs beside this, shares no state with it and is
  modelled in \<open>Olt_Start\<close>; here it is what it comes to, as a panic in it ends the process. Setting up the loggers is left out.
\<close>

section \<open>State\<close>

datatype proc_end = Exited int | Died go_panic

record proc =
  pr_start :: "(start_end \<times> OpenOltManager \<times> kv) prog option"
  pr_world :: world
  pr_sys :: "(plant \<times> sys) option"
  pr_killed :: bool
  pr_signals :: "os_signal list"
  pr_panic :: "go_panic option"
  pr_end :: "proc_end option"

text \<open>
  \<open>pr_panic\<close> is a panic of the provisioner after its deferred function has run, when the process is about to die of it. \<open>main\<close> up to the
  wait:
\<close>

definition main_prog ::
  "cli \<Rightarrow> ('kv, 'file, 'tp, 'val) start_env \<Rightarrow> 'kv \<Rightarrow> kv \<Rightarrow> (start_end \<times> OpenOltManager \<times> kv) prog" where
  "main_prog args S kv st =
     (let cf = main_config args in Start S kv st cf (NewOpenOltManager (OpenOltAgentAddress cf)))"

definition main_init :: "cli \<Rightarrow> ('kv, 'file, 'tp, 'val) start_env \<Rightarrow> 'kv \<Rightarrow> kv \<Rightarrow> proc" where
  "main_init args S kv st =
     \<lparr>pr_start = Some (main_prog args S kv st), pr_world = world_init, pr_sys = None, pr_killed = False,
      pr_signals = [], pr_panic = None, pr_end = None\<rparr>"

section \<open>Steps\<close>

text \<open>
  The deferred function of \<open>provisionONUs\<close> sends the signal when it returns and also when it panics; then the process dies, unless
  \<open>main\<close> gets the signal first.
\<close>

definition end_provisioner :: "go_panic option \<Rightarrow> proc \<Rightarrow> proc" where
  "end_provisioner e c = c\<lparr>pr_killed := True, pr_signals := pr_signals c @ [SIGINT], pr_panic := e\<rparr>"

definition provisioner_panic :: "plant \<Rightarrow> sys \<Rightarrow> go_panic option" where
  "provisioner_panic P s =
     (case sy_ports s of
        [] \<Rightarrow> None
      | j # js \<Rightarrow>
          if sy_panic s = None \<and> 0 < sy_batches s
          then (case fst (provision_one (pl_pools P) (pl_mgrs P) (of_nat (sy_batch s)) j (sy_pv s)) of
                  Crashed e \<Rightarrow> Some e | Done x \<Rightarrow> None)
          else None)"

text \<open>
  The provisioner, with its deferred \<open>syscall.Kill\<close>, on the pools of the store as \<open>Start\<close> has left them. \<open>F\<close> is how the
  store answers its operations.
\<close>

definition start_provisioner ::
  "env \<Rightarrow> (nat \<Rightarrow> kv_answer) \<Rightarrow> OpenOltScaleTesterConfig \<Rightarrow> DeviceInfo \<Rightarrow> OpenOltResourceMgr list \<Rightarrow> kv \<Rightarrow> proc \<Rightarrow> proc" where
  "start_provisioner E F cfg dev mgrs st c =
     (case plan_batches (NumOfOnu cfg) (di_PonPorts dev) of
        Crashed e \<Rightarrow> end_provisioner (Some e) (c\<lparr>pr_start := None\<rparr>)
      | Done (Rejected msg) \<Rightarrow> end_provisioner None (c\<lparr>pr_start := None\<rparr>)
      | Done (Planned bp) \<Rightarrow>
          (let P = \<lparr>pl_env = E, pl_pools = store_pools F mgrs st, pl_cfg = cfg, pl_mgrs = mgrs,
                    pl_ports = batch_ports (di_PonPorts dev) bp\<rparr>
           in c\<lparr>pr_start := None,
                pr_sys := Some (P, sys_init P (unat (bp_batches bp)) vendorSpecificId_init (pr_world c))\<rparr>))"

text \<open>
  The receive loop of the indications is started when the managers are built; what \<open>Start\<close> does before that is over at the head of
  its program.
\<close>

definition receiving :: "proc \<Rightarrow> bool" where
  "receiving c \<longleftrightarrow>
     (case pr_start c of
        Some (Ret (StartReturns err, om, st)) \<Rightarrow> err = None
      | Some (Ret (StartExits msg, om, st)) \<Rightarrow> False
      | Some (Panic e) \<Rightarrow> False
      | Some p \<Rightarrow> True
      | None \<Rightarrow> pr_sys c \<noteq> None \<or> pr_killed c)"

text \<open>
  The provisioner when the first manager is nil: its first iteration dereferences it.
\<close>

definition start_without_manager :: "OpenOltScaleTesterConfig \<Rightarrow> DeviceInfo \<Rightarrow> proc \<Rightarrow> proc" where
  "start_without_manager cfg dev c =
     (case plan_batches (NumOfOnu cfg) (di_PonPorts dev) of
        Crashed e \<Rightarrow> end_provisioner (Some e) (c\<lparr>pr_start := None\<rparr>)
      | Done (Rejected msg) \<Rightarrow> end_provisioner None (c\<lparr>pr_start := None\<rparr>)
      | Done (Planned bp) \<Rightarrow> end_provisioner (Some NilDereference) (c\<lparr>pr_start := None\<rparr>))"

text \<open>
  The steps of the process, from the moment \<open>main\<close> has registered for the signals: a signal that the provisioner raises before
  \<open>signal.Notify\<close>, which \<open>main\<close> calls right after it has started the manager's goroutine, would end the process at once
  and is not represented. \<open>R\<close> is what the receive loop comes to. An error of \<open>Start\<close> goes nowhere: it is the result of a goroutine. A nil
  resource manager after the first is not followed.
\<close>

inductive proc_step :: "env \<Rightarrow> (nat \<Rightarrow> kv_answer) \<Rightarrow> ind_end \<Rightarrow> proc \<Rightarrow> proc \<Rightarrow> bool" for E F R where
  starting: "pr_end c = None \<Longrightarrow> pr_start c = Some p \<Longrightarrow> step1 E p (pr_world c) = Some (p', w') \<Longrightarrow>
     proc_step E F R c (c\<lparr>pr_start := Some p', pr_world := w'\<rparr>)"
| start_panic: "pr_end c = None \<Longrightarrow> pr_start c = Some (Panic e) \<Longrightarrow>
     proc_step E F R c (c\<lparr>pr_end := Some (Died e)\<rparr>)"
| start_fatal: "pr_end c = None \<Longrightarrow> pr_start c = Some (Ret (StartExits msg, om, st)) \<Longrightarrow>
     proc_step E F R c (c\<lparr>pr_end := Some (Exited 1)\<rparr>)"
| start_error: "pr_end c = None \<Longrightarrow> pr_start c = Some (Ret (StartReturns (Some err), om, st)) \<Longrightarrow>
     proc_step E F R c (c\<lparr>pr_start := None\<rparr>)"
| provision: "pr_end c = None \<Longrightarrow> pr_start c = Some (Ret (StartReturns None, om, st)) \<Longrightarrow>
     om_testConfig om = Some cfg \<Longrightarrow> om_deviceInfo om = Some dev \<Longrightarrow> om_rsrMgr om = map Some mgrs \<Longrightarrow>
     proc_step E F R c (start_provisioner E F cfg dev mgrs st c)"
| provision_nil: "pr_end c = None \<Longrightarrow> pr_start c = Some (Ret (StartReturns None, om, st)) \<Longrightarrow>
     om_testConfig om = Some cfg \<Longrightarrow> om_deviceInfo om = Some dev \<Longrightarrow> om_rsrMgr om = None # rest \<Longrightarrow>
     proc_step E F R c (start_without_manager cfg dev c)"
| receive_panic: "pr_end c = None \<Longrightarrow> receiving c \<Longrightarrow> R = IndPanic e \<Longrightarrow>
     proc_step E F R c (c\<lparr>pr_end := Some (Died e)\<rparr>)"
| running: "pr_end c = None \<Longrightarrow> pr_sys c = Some (P, s) \<Longrightarrow> sys_step P s s' \<Longrightarrow>
     proc_step E F R c (c\<lparr>pr_sys := Some (P, s'), pr_end := map_option Died (sy_panic s')\<rparr>)"
| provisioned: "pr_end c = None \<Longrightarrow> pr_sys c = Some (P, s) \<Longrightarrow> sy_batches s = 0 \<Longrightarrow> \<not> pr_killed c \<Longrightarrow>
     proc_step E F R c (end_provisioner None c)"
| unwinding: "pr_end c = None \<Longrightarrow> pr_sys c = Some (P, s) \<Longrightarrow> \<not> pr_killed c \<Longrightarrow> provisioner_panic P s = Some e \<Longrightarrow>
     proc_step E F R c (end_provisioner (Some e) c)"
| unwound: "pr_end c = None \<Longrightarrow> pr_panic c = Some e \<Longrightarrow> proc_step E F R c (c\<lparr>pr_end := Some (Died e)\<rparr>)"
| exit_main: "pr_end c = None \<Longrightarrow> waitForExit (pr_signals c) = Some code \<Longrightarrow>
     proc_step E F R c (c\<lparr>pr_end := Some (Exited 0)\<rparr>)"

abbreviation proc_steps :: "env \<Rightarrow> (nat \<Rightarrow> kv_answer) \<Rightarrow> ind_end \<Rightarrow> proc \<Rightarrow> proc \<Rightarrow> bool" where
  "proc_steps E F R \<equiv> (proc_step E F R)\<^sup>*\<^sup>*"

section \<open>Termination\<close>

definition plant_rel :: "((plant \<times> sys) \<times> (plant \<times> sys)) set" where
  "plant_rel = {((P', s'), (P, s)). P' = P \<and> sys_step P s s'}"

lemma wf_plant_rel: "wf plant_rel"
proof (rule wfUNIVI)
  fix Q :: "plant \<times> sys \<Rightarrow> bool" and x :: "plant \<times> sys"
  assume "\<forall>x. (\<forall>y. (y, x) \<in> plant_rel \<longrightarrow> Q y) \<longrightarrow> Q x"
  then have ind: "Q (P, s)" if "\<And>s'. sys_step P s s' \<Longrightarrow> Q (P, s')" for P s
    using that unfolding plant_rel_def by blast
  obtain P s where x: "x = (P, s)" by (cases x)
  have "Q (P, s)" using sys_terminates [of P] by (induction s) (auto intro: ind)
  then show "Q x" by (simp add: x)
qed

text \<open>The process comes closer to its end, then the start to its return, then the provisioning to its rest.\<close>

definition proc_rel :: "env \<Rightarrow> (proc \<times> proc) set" where
  "proc_rel E = inv_image (less_than <*lex*> less_than <*lex*> next_rel E <*lex*> less_than <*lex*> plant_rel)
     (\<lambda>c. (if pr_end c = None then 1 else 0 :: nat, if pr_start c = None then 0 else 1 :: nat,
           the (pr_start c), if pr_killed c then 0 else 1 :: nat, the (pr_sys c)))"

lemma proc_terminates: "wf {(c', c). proc_step E F R c c'}"
proof (rule wf_subset)
  show "wf (proc_rel E)" by (simp add: proc_rel_def wf_lex_prod wf_next_rel wf_plant_rel)
  show "{(c', c). proc_step E F R c c'} \<subseteq> proc_rel E"
  proof clarify
    fix c' c assume "proc_step E F R c c'"
    then show "(c', c) \<in> proc_rel E"
    proof (cases rule: proc_step.cases)
      case (provision om st cfg dev mgrs)
      then show ?thesis
        by (auto simp: proc_rel_def start_provisioner_def end_provisioner_def Let_def split: outcome.splits plan_result.splits)
    next
      case (provision_nil om st cfg dev rest)
      then show ?thesis by (auto simp: proc_rel_def start_without_manager_def end_provisioner_def split: outcome.splits plan_result.splits)
    qed (auto simp: proc_rel_def next_rel_def plant_rel_def end_provisioner_def)
  qed
qed

lemmas proc_rests = wf_rests [OF proc_terminates]

section \<open>A working environment\<close>

text \<open>
  The device and the store work, the profiles load, all ports are in one range with a pool of ONU IDs per port, and the
  store holds no such pool yet.
\<close>

definition good_start ::
  "('kv, 'file, 'tp, 'val) start_env \<Rightarrow> OpenOltScaleTesterConfig \<Rightarrow> DeviceInfo \<Rightarrow> DeviceResourceRanges \<Rightarrow> 'kv \<Rightarrow> kv \<Rightarrow> bool" where
  "good_start S cfg dev r kv st \<longleftrightarrow>
     se_dial S (OpenOltAgentAddress cfg) = None \<and> se_info S = (Some dev, None) \<and>
     fst (readAndLoadTPsToEtcd S cfg dev kv) = None \<and> (\<forall>t. new_pon_ok (se_rm S) t) \<and>
     (\<forall>n. kv_answers (se_rm S) n = KvOk) \<and> new_tp_ok (se_rm S) \<and> healthy_store st \<and>
     single_range dev r \<and> (\<forall>j. kv_data st (onu_key dev r j) = None)"

text \<open>The configuration asks for something that can be done: no more batches than ports, and IDs for all ONUs.\<close>

definition good_plan :: "OpenOltScaleTesterConfig \<Rightarrow> DeviceInfo \<Rightarrow> DeviceResourceRanges \<Rightarrow> batch_plan \<Rightarrow> bool" where
  "good_plan cfg dev r bp \<longleftrightarrow>
     plan_batches (NumOfOnu cfg) (di_PonPorts dev) = Done (Planned bp) \<and> unat (NumOfOnu cfg) \<le> 2 ^ 62 \<and>
     unat (NumOfOnu cfg) div unat (di_PonPorts dev) < 2 ^ 32 \<and> unat (bp_batches bp) \<le> unat (di_PonPorts dev) \<and>
     unat (bp_perPon bp) \<le> 8 * ((unat (rg_ONUIDEnd (device_ranges r dev)) + 7) div 8) \<and>
     WorkflowName cfg \<in> {''ATT'', ''DT'', ''TT''} \<and> TpIDList cfg \<noteq> []"

definition good_env :: "env \<Rightarrow> bool" where
  "good_env E \<longleftrightarrow> (\<forall>h q. delivered (tp_store E h q)) \<and> (\<forall>h q. accepts_onus q (reply E h q))"

text \<open>The pools of the store have the IDs a plan needs when their bitmaps have a bit for each.\<close>

lemma replay_counting:
  assumes "pools_ready F mgrs key P" "counting key P S L st (\<lambda>j. 0)"
    and "list_all (\<lambda>c. unat (fst c) < length mgrs) h" "set (map snd h) \<subseteq> P" "\<forall>k. count_list (map snd h) k \<le> L"
  shows "counting key P S L (replay F mgrs h st) (count_list (map snd h))"
  using assms(3-5)
proof (induction h rule: rev_induct)
  case Nil
  have "count_list ([] :: uint32 list) = (\<lambda>j. 0)" by (simp add: fun_eq_iff)
  with assms(2) show ?case by simp
next
  case (snoc c h)
  obtain i j where c: "c = (i, j)" by (cases c)
  have le: "count_list (map snd h) k \<le> L" for k using snoc.prems(3) [rule_format, of k] by simp
  have "count_list (map snd h) j < L" using snoc.prems(3) [rule_format, of j] by (simp add: c)
  moreover have "mgrs ! unat i \<in> set mgrs" "j \<in> P" using snoc.prems(1,2) by (auto simp: c)
  moreover have "counting key P S L (replay F mgrs h st) (count_list (map snd h))"
    using snoc.IH snoc.prems(1,2) le by simp
  ultimately obtain st' where "TechprofileRef_GetResourceID F (mgrs ! unat i) j ''ONU_ID'' 1 (replay F mgrs h st) =
      (Done ([of_nat (count_list (map snd h) j) + S], None), st')"
    "counting key P S L st' ((count_list (map snd h))(j := Suc (count_list (map snd h) j)))"
    using ask_counting [of mgrs key _ F P] assms(1) unfolding pools_ready_def by blast
  moreover have "(count_list (map snd h))(j := Suc (count_list (map snd h) j)) = count_list (map snd (h @ [c]))"
    by (auto simp: fun_eq_iff c)
  ultimately show ?case by (simp add: replay_snoc c del: count_list_append)
qed

lemma store_plentiful:
  assumes "pools_ready F mgrs key P" "counting key P S L st (\<lambda>j. 0)" "set ports \<subseteq> P" "\<forall>k. b * count_list ports k \<le> L"
  shows "plentiful (store_pools F mgrs st) (length mgrs) b ports"
  unfolding plentiful_def
proof (intro allI impI, elim conjE)
  fix h :: "(uint32 \<times> uint32) list" and i j :: uint32
  assume h: "list_all (\<lambda>c. unat (fst c) < length mgrs) h" and i: "unat i < length mgrs"
    and le: "\<forall>k. count_list (map snd h) k \<le> b * count_list ports k" and j: "count_list (map snd h) j < b * count_list ports j"
  have "k \<in> P" if "k \<in> set (map snd h)" for k
  proof -
    have "count_list (map snd h) k \<noteq> 0" using that by (simp add: count_list_0_iff)
    with le [rule_format, of k] have "count_list ports k \<noteq> 0" by (cases "count_list ports k") auto
    with assms(3) show ?thesis by (auto simp: count_list_0_iff)
  qed
  moreover have "\<forall>k. count_list (map snd h) k \<le> L" using le assms(4) by (meson le_trans)
  ultimately have "counting key P S L (replay F mgrs h st) (count_list (map snd h))"
    using replay_counting [OF assms(1,2) h] by blast
  moreover have "mgrs ! unat i \<in> set mgrs" using i by simp
  moreover have "count_list (map snd h) j < L" using j assms(4) by (meson less_le_trans)
  moreover have "count_list ports j \<noteq> 0" using j by (cases "count_list ports j") auto
  then have "j \<in> P" using assms(3) by (auto simp: count_list_0_iff)
  ultimately obtain st' where "TechprofileRef_GetResourceID F (mgrs ! unat i) j ''ONU_ID'' 1 (replay F mgrs h st) =
      (Done ([of_nat (count_list (map snd h) j) + S], None), st')"
    using ask_counting [of mgrs key _ F P] assms(1) unfolding pools_ready_def by blast
  then show "\<exists>onuID rest. store_pools F mgrs st h i j = Done (onuID # rest, None)" by (simp add: store_pools_def)
qed

text \<open>The start of a working environment leads to a plant that works.\<close>

lemma good_start_runs:
  assumes "good_start S cfg dev r kv st" "good_plan cfg dev r bp" "\<forall>h q. accepts_onus q (reply E h q)"
    and cfg: "cfg = main_config args"
  shows "\<exists>P om st' w. run E (main_prog args S kv st) world_init = (Done (StartReturns None, om, st'), w) \<and>
     om_testConfig om = Some cfg \<and> om_deviceInfo om = Some dev \<and> om_rsrMgr om = map Some (pl_mgrs P) \<and>
     P = \<lparr>pl_env = E, pl_pools = store_pools (kv_answers (se_rm S)) (pl_mgrs P) st', pl_cfg = cfg, pl_mgrs = pl_mgrs P,
       pl_ports = batch_ports (di_PonPorts dev) bp\<rparr> \<and>
     pl_mgrs P = map (port_manager dev) (pon_indices (di_PonPorts dev)) \<and>
     new_managers (se_rm S) dev (pon_indices (di_PonPorts dev)) st = (Done (Inr (map Some (pl_mgrs P))), st') \<and>
     tp_calls w = [] \<and> plant_ok P (unat (bp_batches bp)) \<and> vendor_room P (unat (bp_batches bp)) vendorSpecificId_init"
proof -
  let ?n = "di_PonPorts dev" and ?k = "unat (bp_batches bp)" and ?F = "kv_answers (se_rm S)"
  let ?ms = "map (port_manager dev) (pon_indices ?n)" and ?ports = "batch_ports (di_PonPorts dev) bp"
  note js = distinct_pon_indices [of ?n] set_pon_indices [of ?n]
  note st = assms(1) [unfolded good_start_def] and pl = assms(2) [unfolded good_plan_def]
  have plan: "plan_batches (NumOfOnu cfg) ?n = Done (Planned bp)" "unat (NumOfOnu cfg) div unat ?n < 2 ^ 32"
    using pl by blast+
  note n = plan_batches_nat [OF plan] and b = plan_bounds [OF plan]
  obtain st' where st': "new_managers (se_rm S) dev (pon_indices ?n) st = (Done (Inr (map Some ?ms)), st')"
    "\<forall>j \<in> set (pon_indices ?n). new_onu_pool dev r st' j"
    using new_managers_pools [of "se_rm S" dev r st "pon_indices ?n"] st js by (auto simp: comp_def)
  have "length ?ms \<noteq> 0" using n(5) by simp
  then have "?ms \<noteq> []" by blast
  with run_Start [of S "NewOpenOltManager (OpenOltAgentAddress cfg)" dev cfg kv st ?ms st' E world_init] st st'(1)
  obtain w where w: "run E (main_prog args S kv st) world_init = (Done (StartReturns None,
      NewOpenOltManager (OpenOltAgentAddress cfg)\<lparr>om_testConfig := Some cfg, om_deviceInfo := Some dev, om_rsrMgr := map Some ?ms\<rparr>, st'), w)" "tp_calls w = []"
    by (auto simp: main_prog_def Let_def cfg NewOpenOltManager_def world_init_def)
  have "pools_ready ?F ?ms (onu_key dev r) {j. j < ?n}"
    using agree_single [of dev r "pon_indices ?n"] js(2) st inj_onu_key by (auto simp: pools_ready_def)
  moreover have "counting (onu_key dev r) {j. j < ?n} (rg_ONUIDStart (device_ranges r dev))
      (8 * ((unat (rg_ONUIDEnd (device_ranges r dev)) + 7) div 8)) st' (\<lambda>j. 0)"
    using new_pools_counting st'(2) js(2) by simp
  moreover have "\<forall>j. ?k * count_list ?ports j \<le> 8 * ((unat (rg_ONUIDEnd (device_ranges r dev)) + 7) div 8)"
    using plan_capacity [OF plan] pl by blast
  ultimately have plenty: "plentiful (store_pools ?F ?ms st') (length ?ms) ?k ?ports"
    by (rule store_plentiful [OF _ _ set_batch_ports])
  let ?P = "\<lparr>pl_env = E, pl_pools = store_pools ?F ?ms st', pl_cfg = cfg, pl_mgrs = ?ms, pl_ports = ?ports\<rparr>"
  have "unat j < unat ?n" if "j \<in> set ?ports" for j using set_batch_ports that by (auto simp: word_less_nat_alt)
  moreover have "?n \<noteq> 0" using n(5) by auto
  ultimately have "plant_ok ?P ?k" using assms(3) pl plenty by (auto simp: plant_ok_def port_manager_def)
  moreover have "vendor_room ?P ?k vendorSpecificId_init"
  proof -
    have "unat (bp_total bp) \<le> unat (NumOfOnu cfg)" unfolding n(2) by simp
    with b pl have "?k * length ?ports \<le> 2 ^ 62" by linarith
    then show ?thesis by (simp add: vendor_room_def vendorSpecificId_init_def)
  qed
  ultimately show ?thesis using w st'(1) by (intro exI [of _ ?P]) auto
qed

text \<open>The states of the process while all goes well: \<open>Start\<close> is on its way, or the provisioning runs or has run.\<close>

definition starting_well :: "env \<Rightarrow> (start_end \<times> OpenOltManager \<times> kv) outcome \<times> world \<Rightarrow> proc \<Rightarrow> bool" where
  "starting_well E res c \<longleftrightarrow> (\<exists>p. pr_start c = Some p \<and> run E p (pr_world c) = res) \<and> pr_sys c = None \<and>
     pr_signals c = [] \<and> \<not> pr_killed c \<and> pr_panic c = None \<and> pr_end c = None"

definition running_well :: "plant \<Rightarrow> nat \<Rightarrow> world \<Rightarrow> proc \<Rightarrow> bool" where
  "running_well P batches w c \<longleftrightarrow> pr_start c = None \<and>
     (\<exists>s. pr_sys c = Some (P, s) \<and> sys_steps P (sys_init P batches vendorSpecificId_init w) s \<and> (pr_killed c \<longrightarrow> sy_batches s = 0)) \<and>
     pr_signals c = (if pr_killed c then [SIGINT] else []) \<and> pr_panic c = None \<and> pr_end c \<in> {None, Some (Exited 0)} \<and>
     (pr_end c \<noteq> None \<longrightarrow> pr_killed c)"

lemma starting_well_step:
  assumes "starting_well E (Done (StartReturns None, om, st), w) c" "proc_step E F R c c'"
    and "om_testConfig om = Some cfg" "om_deviceInfo om = Some dev" "om_rsrMgr om = map Some mgrs"
    and "plan_batches (NumOfOnu cfg) (di_PonPorts dev) = Done (Planned bp)"
    and R: "\<forall>e. R \<noteq> IndPanic e" and P: "P = \<lparr>pl_env = E, pl_pools = store_pools F mgrs st, pl_cfg = cfg, pl_mgrs = mgrs,
       pl_ports = batch_ports (di_PonPorts dev) bp\<rparr>"
  shows "starting_well E (Done (StartReturns None, om, st), w) c' \<or> running_well P (unat (bp_batches bp)) w c'"
  using assms(2)
proof (cases rule: proc_step.cases)
  case (starting p p' w')
  with assms(1) run_step1 [OF starting(4)] show ?thesis by (simp add: starting_well_def)
next
  case (provision om' st' cfg' dev' mgrs')
  have "om' = om" "st' = st" "pr_world c = w" using provision(3) assms(1) by (auto simp: starting_well_def)
  moreover from this have "cfg' = cfg" "dev' = dev" "mgrs' = mgrs"
    using provision(4-6) assms(3-5) by (auto simp: inj_map_eq_map)
  ultimately show ?thesis
    using provision(1) assms(1,6) by (simp add: P start_provisioner_def Let_def running_well_def starting_well_def)
next
  case (provision_nil om' st' cfg' dev' rest)
  have "om' = om" using provision_nil(3) assms(1) by (auto simp: starting_well_def)
  with provision_nil(6) assms(5) show ?thesis by (cases mgrs) auto
qed (use assms(1) R in \<open>auto simp: starting_well_def waitForExit_def\<close>)

text \<open>A panic of the provisioner is one of the steps of the system.\<close>

lemma panic_step: "provisioner_panic P s = Some e \<Longrightarrow> \<exists>s'. sys_step P s s' \<and> sy_panic s' = Some e"
  by (cases "sy_ports s"; cases "provision_one (pl_pools P) (pl_mgrs P) (of_nat (sy_batch s)) (hd (sy_ports s)) (sy_pv s)")
    (fastforce simp: provisioner_panic_def split: if_splits outcome.splits intro: sys_step.prov_panic)+

lemma running_well_step:
  assumes "running_well P b w c" "proc_step E F R c c'" "works P b vendorSpecificId_init w" "\<forall>e. R \<noteq> IndPanic e"
  shows "running_well P b w c'"
  using assms(2)
proof (cases rule: proc_step.cases)
  case (running P' s s')
  from running(3) assms(1) have s: "P' = P" "sys_steps P (sys_init P b vendorSpecificId_init w) s" "pr_killed c \<longrightarrow> sy_batches s = 0"
    by (auto simp: running_well_def)
  with running(4) have s': "sys_steps P (sys_init P b vendorSpecificId_init w) s'" by (meson rtranclp.rtrancl_into_rtrancl)
  then have "sy_panic s' = None" using assms(3) by (simp add: works_def)
  moreover have "sy_batches s = 0 \<longrightarrow> sy_batches s' = 0" using running(4) by (cases rule: sys_step.cases) auto
  ultimately show ?thesis using assms(1) s s' running(1) by (auto simp: running_well_def)
next
  case (unwinding P' s e)
  from unwinding(3) assms(1) have s: "P' = P" "sys_steps P (sys_init P b vendorSpecificId_init w) s"
    by (auto simp: running_well_def)
  obtain s' where "sys_step P s s'" "sy_panic s' \<noteq> None" using panic_step [OF unwinding(5)] s(1) by auto
  with s(2) assms(3) have False unfolding works_def by (meson rtranclp.rtrancl_into_rtrancl)
  then show ?thesis ..
qed (use assms(1,4) in \<open>auto simp: running_well_def waitForExit_def end_provisioner_def split: if_splits\<close>)

lemma starting_well_moves:
  assumes "starting_well E (Done (StartReturns None, om, st), w) c"
    and "om_testConfig om = Some cfg" "om_deviceInfo om = Some dev" "om_rsrMgr om = map Some mgrs"
  shows "\<exists>c'. proc_step E F R c c'"
proof -
  from assms(1) obtain p where p: "pr_start c = Some p" "run E p (pr_world c) = (Done (StartReturns None, om, st), w)" "pr_end c = None"
    by (auto simp: starting_well_def)
  from step1_progress [of p E "pr_world c"] show ?thesis
  proof (elim disjE exE)
    fix x assume "p = Ret x"
    with p have "pr_start c = Some (Ret (StartReturns None, om, st))" by simp
    from proc_step.provision [OF p(3) this assms(2-4)] show ?thesis by blast
  next
    fix e assume "p = Panic e"
    with p show ?thesis by simp
  next
    fix d assume "step1 E p (pr_world c) = Some d"
    then show ?thesis by (cases d) (use p proc_step.starting in blast)
  qed
qed

lemma running_well_moves:
  assumes "running_well P b w c" "works P b vendorSpecificId_init w" "pr_end c = None"
  shows "\<exists>c'. proc_step E F R c c'"
proof -
  from assms(1) obtain s where s: "pr_sys c = Some (P, s)" "sys_steps P (sys_init P b vendorSpecificId_init w) s"
    by (auto simp: running_well_def)
  show ?thesis
  proof (cases "pr_killed c")
    case True
    with assms(1) have "waitForExit (pr_signals c) = Some 0" by (simp add: running_well_def waitForExit_def exit_code_def)
    from proc_step.exit_main [OF assms(3) this] show ?thesis by blast
  next
    case False
    show ?thesis
    proof (cases "\<exists>s'. sys_step P s s'")
      case True
      with assms(3) s(1) show ?thesis by (blast intro: proc_step.running)
    next
      case stuck: False
      with assms(2) s(2) have "sy_batches s = 0" by (auto simp: works_def)
      from proc_step.provisioned [OF assms(3) s(1) this False] show ?thesis by blast
    qed
  qed
qed

text \<open>A process whose start leads to a plant that works.\<close>

lemma process_works:
  assumes run: "run E (main_prog args S kv st) world_init = (Done (StartReturns None, om, st'), w)"
    and om: "om_testConfig om = Some cfg" "om_deviceInfo om = Some dev" "om_rsrMgr om = map Some mgrs"
    and plan: "plan_batches (NumOfOnu cfg) (di_PonPorts dev) = Done (Planned bp)"
    and R: "\<forall>e. R \<noteq> IndPanic e"
    and P: "P = \<lparr>pl_env = E, pl_pools = store_pools F mgrs st', pl_cfg = cfg, pl_mgrs = mgrs,
       pl_ports = batch_ports (di_PonPorts dev) bp\<rparr>"
    and ok: "works P (unat (bp_batches bp)) vendorSpecificId_init w"
    and steps: "proc_steps E F R (main_init args S kv st) c"
  shows "wf {(c', c). proc_step E F R c c'} \<and>
     (if pr_end c = None then \<exists>c'. proc_step E F R c c'
      else pr_end c = Some (Exited 0) \<and> (\<exists>s. pr_sys c = Some (P, s) \<and> all_deployed P (unat (bp_batches bp)) s))"
proof -
  let ?k = "unat (bp_batches bp)"
  from steps have c: "starting_well E (Done (StartReturns None, om, st'), w) c \<or> running_well P ?k w c"
  proof (induction rule: rtranclp_induct)
    case base
    then show ?case using run by (simp add: starting_well_def main_init_def)
  next
    case (step c c')
    from starting_well_step [OF _ step.hyps(2) om plan R P] running_well_step [OF _ step.hyps(2) ok R] step.IH
    show ?case by blast
  qed
  then show ?thesis
  proof
    assume "starting_well E (Done (StartReturns None, om, st'), w) c"
    moreover from this have "pr_end c = None" by (simp add: starting_well_def)
    ultimately show ?thesis using starting_well_moves om proc_terminates by metis
  next
    assume r: "running_well P ?k w c"
    then obtain s where s: "pr_sys c = Some (P, s)" "sys_steps P (sys_init P ?k vendorSpecificId_init w) s"
      "pr_end c \<noteq> None \<longrightarrow> pr_end c = Some (Exited 0) \<and> sy_batches s = 0" by (auto simp: running_well_def)
    with ok have "pr_end c \<noteq> None \<longrightarrow> all_deployed P ?k s" by (simp add: works_def)
    with s running_well_moves [OF r ok] proc_terminates show ?thesis by auto
  qed
qed

text \<open>A start without a device.\<close>

lemma failed_Start:
  assumes "se_dial S (OpenOltAgentAddress (main_config args)) \<noteq> None \<or> snd (se_info S) \<noteq> None \<or> fst (se_info S) = None"
  shows "\<exists>err om. main_prog args S kv st = Ret (StartReturns (Some err), om, st)"
  using assms
  by (cases "se_info S")
    (auto simp: main_prog_def Start_def populateDeviceInfo_def NewOpenOltManager_def Let_def split: option.split)

text \<open>A start whose managers are all nil.\<close>

lemma main_without_managers:
  assumes "se_dial S (OpenOltAgentAddress (main_config args)) = None" "se_info S = (Some dev, None)"
    and "fst (readAndLoadTPsToEtcd S (main_config args) dev kv) = None"
    and "\<forall>t. new_pon_ok (se_rm S) t" "\<forall>n. kv_answers (se_rm S) n = KvOk" "\<not> new_tp_ok (se_rm S)" "healthy_store st"
    and "covered dev" "0 < di_PonPorts dev"
  shows "if WorkflowName (main_config args) \<in> {''ATT'', ''DT'', ''TT''} then main_prog args S kv st = Panic NilDereference
     else \<exists>om rest st'. main_prog args S kv st = Ret (StartReturns None, om, st') \<and>
       om_testConfig om = Some (main_config args) \<and> om_deviceInfo om = Some dev \<and> om_rsrMgr om = None # rest"
proof -
  obtain st' where ms: "new_managers (se_rm S) dev (pon_indices (di_PonPorts dev)) st =
      (Done (Inr (map (\<lambda>j. None) (pon_indices (di_PonPorts dev)))), st')"
    using new_managers_covered [OF assms(4,5,7,8)] assms(6) by auto
  have "length (pon_indices (di_PonPorts dev)) \<noteq> 0" using assms(9) by (simp add: word_less_nat_alt)
  then obtain j js where "pon_indices (di_PonPorts dev) = j # js" by (cases "pon_indices (di_PonPorts dev)") auto
  moreover obtain kv' where "readAndLoadTPsToEtcd S (main_config args) dev kv = (None, kv')" using assms(3) by (metis prod.collapse)
  ultimately show ?thesis
    using assms(1,2) ms
    by (simp add: main_prog_def Start_def populateDeviceInfo_def NewOpenOltManager_def Let_def nni_trap_through_def)
qed

text \<open>A command line for 16 ONUs of the ATT workflow, for the evaluations.\<close>

definition sample_args :: cli where
  "sample_args = no_flags\<lparr>workflow_name := Some ''ATT'', num_of_onu := Some 16, tp_ids := Some ''64''\<rparr>"

lemma sample_args_config:
  "WorkflowName (main_config sample_args) = ''ATT''" "NumOfOnu (main_config sample_args) = 16"
  "TpIDList (main_config sample_args) = [64]"
proof -
  show "WorkflowName (main_config sample_args) = ''ATT''" "NumOfOnu (main_config sample_args) = 16"
    by (simp_all add: main_config_defs sample_args_def no_flags_def)
  have "GetTpIDList (Join (map Itoa [64]) CHR '','') = [64]" by (rule GetTpIDList_Join) simp_all
  moreover have "Itoa 64 = ''64''"
    by (simp add: Itoa_def FormatUint_def fmt_base.simps digit_char_def char_of_def bit_simps)
  ultimately show "TpIDList (main_config sample_args) = [64]"
    by (simp add: main_config_defs sample_args_def no_flags_def)
qed

lemma sample_good:
  "good_start (sample_start True) (main_config sample_args) two_ports (hd (di_Ranges two_ports)) Map.empty empty_kv"
  "good_plan (main_config sample_args) two_ports (hd (di_Ranges two_ports))
     \<lparr>bp_perPon = 8, bp_total = 16, bp_perBatch = 4, bp_batches = 2\<rparr>"
  "good_env accepting"
proof -
  have "fst (readAndLoadTPsToEtcd (sample_start True) (main_config sample_args) two_ports Map.empty) = None"
    by (simp add: readAndLoadTPsToEtcd_def sample_start_def sample_args_config)
  then show "good_start (sample_start True) (main_config sample_args) two_ports (hd (di_Ranges two_ports)) Map.empty empty_kv"
    using two_ports_single(1) healthy_empty by (simp add: good_start_def) (simp add: sample_start_def empty_kv_def)
  have "plan_batches 16 2 = Done (Planned \<lparr>bp_perPon = 8, bp_total = 16, bp_perBatch = 4, bp_batches = 2\<rparr>)"
    by (simp add: plan_batches_def isPowerOfTwo_def uint_of_uint32_def uint32_of_uint_def halve_batch_4)
  moreover have "di_PonPorts two_ports = 2" by (simp add: two_ports_def)
  ultimately show "good_plan (main_config sample_args) two_ports (hd (di_Ranges two_ports))
     \<lparr>bp_perPon = 8, bp_total = 16, bp_perBatch = 4, bp_batches = 2\<rparr>"
    by (simp add: good_plan_def sample_args_config two_ports_single)
  have "delivered (Some sample_instance, None)" by (simp add: delivered_def sample_instance_def)
  moreover have "accepts_onus q None" for q by (cases q) (simp_all add: accepts_onus_def)
  ultimately show "good_env accepting" by (simp add: good_env_def)
qed

section \<open>Properties\<close>

text \<open>
  C2: with a working device, library and store, a supported workflow and a feasible number of ONUs, the program is totally correct: every run of the process ends,
  no state before the end is stuck, and the end is always exit code 0 with every iteration of every batch
  having activated an ONU whose configured subscribers have all finished their deployment, each with its reason recorded.
\<close>

theorem process_completes:
  assumes "good_start S (main_config args) dev r kv st" "good_plan (main_config args) dev r bp" "good_env E"
    and "\<forall>e. R \<noteq> IndPanic e" "proc_steps E (kv_answers (se_rm S)) R (main_init args S kv st) c"
  shows "wf {(c', c). proc_step E (kv_answers (se_rm S)) R c c'} \<and>
     (if pr_end c = None then \<exists>c'. proc_step E (kv_answers (se_rm S)) R c c'
      else pr_end c = Some (Exited 0) \<and> (\<exists>P s. pr_sys c = Some (P, s) \<and> pl_cfg P = main_config args \<and>
        pl_ports P = batch_ports (di_PonPorts dev) bp \<and> all_deployed P (unat (bp_batches bp)) s))"
proof -
  let ?F = "kv_answers (se_rm S)" and ?k = "unat (bp_batches bp)"
  have env: "\<forall>h q. accepts_onus q (reply E h q)" "\<forall>h q. delivered (tp_store E h q)" using assms(3) by (simp_all add: good_env_def)
  obtain P om st' w where run: "run E (main_prog args S kv st) world_init = (Done (StartReturns None, om, st'), w)"
    and om: "om_testConfig om = Some (main_config args)" "om_deviceInfo om = Some dev" "om_rsrMgr om = map Some (pl_mgrs P)"
    and P: "P = \<lparr>pl_env = E, pl_pools = store_pools ?F (pl_mgrs P) st', pl_cfg = main_config args, pl_mgrs = pl_mgrs P,
       pl_ports = batch_ports (di_PonPorts dev) bp\<rparr>"
    and ok: "plant_ok P ?k" "vendor_room P ?k vendorSpecificId_init"
    using good_start_runs [OF assms(1,2) env(1) refl] by blast
  have plan: "plan_batches (NumOfOnu (main_config args)) (di_PonPorts dev) = Done (Planned bp)"
    using assms(2) by (simp add: good_plan_def)
  have fields: "pl_env P = E" "pl_cfg P = main_config args" "pl_ports P = batch_ports (di_PonPorts dev) bp" by (subst P, simp)+
  have "works P ?k vendorSpecificId_init w"
    using ok env(2) fields by (intro healthy_works) (simp_all add: healthy_plant_def)
  from process_works [OF run om plan assms(4) P this assms(5)] fields show ?thesis by (auto split: if_splits)
qed

theorem process_completes_witness:
  "\<exists>c. proc_steps accepting (\<lambda>n. KvOk) Waiting (main_init sample_args (sample_start True) Map.empty empty_kv) c \<and> pr_end c = Some (Exited 0)"
proof -
  let ?init = "main_init sample_args (sample_start True) Map.empty empty_kv"
  have F: "kv_answers (se_rm (sample_start True)) = (\<lambda>n. KvOk)" by (simp add: sample_start_def)
  obtain c where c: "proc_steps accepting (\<lambda>n. KvOk) Waiting ?init c" "\<not> (\<exists>c'. proc_step accepting (\<lambda>n. KvOk) Waiting c c')"
    using proc_rests by blast
  from process_completes [OF sample_good, of Waiting, folded F, OF _ c(1) [folded F]] c(2) F have "pr_end c = Some (Exited 0)"
    by (auto split: if_splits)
  with c(1) show ?thesis by blast
qed

text \<open>
  C14: the result of \<open>Start\<close> goes nowhere: when the device cannot be dialled or does not tell its information, the process
  never ends. Whatever it does, it is still waiting, with no ONU provisioned, and it comes to a state in which nothing will happen any more.
\<close>

theorem failed_start_hangs:
  assumes "se_dial S (OpenOltAgentAddress (main_config args)) \<noteq> None \<or> snd (se_info S) \<noteq> None \<or> fst (se_info S) = None"
  shows "\<exists>last. (\<forall>c. proc_steps E F R (main_init args S kv st) c \<longrightarrow>
       pr_end c = None \<and> pr_sys c = None \<and> pr_signals c = [] \<and> proc_steps E F R c last) \<and>
     \<not> (\<exists>c. proc_step E F R last c)"
proof -
  let ?init = "main_init args S kv st"
  obtain err om where p: "main_prog args S kv st = Ret (StartReturns (Some err), om, st)"
    using failed_Start [OF assms] by blast
  define last where "last = ?init\<lparr>pr_start := None\<rparr>"
  have first: "proc_step E F R ?init last"
    using proc_step.start_error [of ?init err om st E F R] by (simp add: last_def main_init_def p)
  have stuck: "\<not> (\<exists>c. proc_step E F R last c)"
    by (auto simp: last_def main_init_def waitForExit_def receiving_def elim!: proc_step.cases)
  have only: "c = last" if "proc_step E F R ?init c" for c
    using that by (cases rule: proc_step.cases) (auto simp: last_def main_init_def waitForExit_def receiving_def p)
  have "c = ?init \<or> c = last" if "proc_steps E F R ?init c" for c
    using that by (induction rule: rtranclp_induct) (use only stuck in blast)+
  moreover have "pr_end c = None \<and> pr_sys c = None \<and> pr_signals c = []" if "c = ?init \<or> c = last" for c
    using that by (auto simp: last_def main_init_def)
  ultimately show ?thesis using first stuck by (metis r_into_rtranclp rtranclp.rtrancl_refl)
qed

theorem failed_start_hangs_witness:
  "\<exists>last. (\<forall>c. proc_steps accepting (\<lambda>n. KvOk) Waiting
         (main_init sample_args ((sample_start True)\<lparr>se_info := (None, Some (ErrorString ''unavailable''))\<rparr>) Map.empty empty_kv) c \<longrightarrow>
       pr_end c = None \<and> pr_sys c = None \<and> pr_signals c = [] \<and> proc_steps accepting (\<lambda>n. KvOk) Waiting c last) \<and>
     \<not> (\<exists>c. proc_step accepting (\<lambda>n. KvOk) Waiting last c)"
  by (rule failed_start_hangs) simp

text \<open>
  C15: resource managers that could not be built are not noticed at the start: when the profile manager of the library fails for every port, a supported workflow makes the
  process die of a nil dereference in its first trap flow, and any other name in the first iteration of the provisioning. In this
  case the signal that the provisioner sends while it panics may reach \<open>main\<close> first, and the process ends with exit code 0.
  Nothing else can happen, and nothing is sent.
\<close>

theorem failed_managers_panic:
  assumes "se_dial S (OpenOltAgentAddress (main_config args)) = None" "se_info S = (Some dev, None)"
    and "fst (readAndLoadTPsToEtcd S (main_config args) dev kv) = None"
    and "\<forall>t. new_pon_ok (se_rm S) t" "\<forall>n. kv_answers (se_rm S) n = KvOk" "\<not> new_tp_ok (se_rm S)" "healthy_store st"
    and "covered dev" "0 < di_PonPorts dev" "\<forall>e. R \<noteq> IndPanic e"
    and "WorkflowName (main_config args) \<in> {''ATT'', ''DT'', ''TT''} \<or>
      (\<exists>bp. plan_batches (NumOfOnu (main_config args)) (di_PonPorts dev) = Done (Planned bp))"
    and "proc_steps E F R (main_init args S kv st) c"
  shows "(if pr_end c = None then \<exists>c'. proc_step E F R c c'
      else pr_end c = Some (Died NilDereference) \<or>
        WorkflowName (main_config args) \<notin> {''ATT'', ''DT'', ''TT''} \<and> pr_end c = Some (Exited 0)) \<and>
     sent (pr_world c) = []"
proof -
  let ?init = "main_init args S kv st" and ?known = "WorkflowName (main_config args) \<in> {''ATT'', ''DT'', ''TT''}"
  let ?panicked = "end_provisioner (Some NilDereference) (?init\<lparr>pr_start := None\<rparr>)"
  let ?over = "\<lambda>c. sent (pr_world c) = [] \<and> (pr_end c = Some (Died NilDereference) \<or> \<not> ?known \<and> pr_end c = Some (Exited 0))"
  note main = main_without_managers [OF assms(1-9)]
  have first: "\<exists>c'. proc_step E F R ?init c'"
    using main assms(11) proc_step.start_panic [of ?init NilDereference E F R] proc_step.provision_nil [of ?init _ _ _ dev _ E F R]
    by (force simp: main_init_def split: if_splits)
  have only: "?over c \<or> \<not> ?known \<and> c = ?panicked" if "proc_step E F R ?init c" for c
    using that main assms(10,11)
    by (cases rule: proc_step.cases)
      (auto simp: main_init_def waitForExit_def start_without_manager_def world_init_def split: if_splits)
  have after: "?over c" if "proc_step E F R ?panicked c" "\<not> ?known" for c
    using that assms(10)
    by (cases rule: proc_step.cases) (auto simp: end_provisioner_def main_init_def world_init_def)
  have moves: "\<exists>c'. proc_step E F R ?panicked c'"
    using proc_step.unwound [of ?panicked NilDereference E F R] by (auto simp: end_provisioner_def main_init_def)
  have "c = ?init \<or> ?over c \<or> \<not> ?known \<and> c = ?panicked" if "proc_steps E F R ?init c" for c
    using that
  proof (induction rule: rtranclp_induct)
    case (step y z)
    have "\<not> ?over y" using step.hyps(2) by (auto elim!: proc_step.cases)
    with step only after show ?case by blast
  qed simp
  from this [OF assms(12)] first moves show ?thesis
    by (auto simp: main_init_def world_init_def end_provisioner_def)
qed

theorem failed_managers_panic_witness:
  "\<exists>c. proc_steps accepting (\<lambda>n. KvOk) Waiting (main_init sample_args (sample_start False) Map.empty empty_kv) c \<and>
     pr_end c = Some (Died NilDereference)"
proof -
  let ?init = "main_init sample_args (sample_start False) Map.empty empty_kv"
  obtain c where c: "proc_steps accepting (\<lambda>n. KvOk) Waiting ?init c" "\<not> (\<exists>c'. proc_step accepting (\<lambda>n. KvOk) Waiting c c')"
    using proc_rests by blast
  have "fst (readAndLoadTPsToEtcd (sample_start False) (main_config sample_args) two_ports Map.empty) = None"
    by (simp add: readAndLoadTPsToEtcd_def sample_start_def sample_args_config)
  with failed_managers_panic [of "sample_start False" sample_args two_ports Map.empty empty_kv Waiting accepting "\<lambda>n. KvOk" c]
    c two_ports_covered healthy_empty
  have "pr_end c = Some (Died NilDereference)"
    by (auto simp: sample_start_def two_ports_def sample_args_config split: if_splits)
  with c(1) show ?thesis by blast
qed

end
