(* ===== verification/Whole_Program.thy ===== *)
theory Whole_Program
  imports First_Start Library_Run Process
begin

text \<open>
  The program with its library: the process of \<open>Process\<close>, on the pools that its own start leaves in the store, and on the
  technology profile library of \<open>Tp_Library\<close>. The property says that the process completes when there are
  identifiers enough for the ONUs, the subscribers and the profiles of the configuration.
\<close>

section \<open>The library after the start\<close>

text \<open>
  The profile manager of each port, as the constructor makes it when no instances are stored for the technology.
\<close>

definition new_library :: "DeviceInfo \<Rightarrow> DeviceResourceRanges \<Rightarrow> TechProfileMgr" where
  "new_library dev r = \<lparr>tm_resourceMgr = range_mgr dev r, tm_tpInstanceMap = Map.empty, tm_tpMap = Map.empty\<rparr>"

lemma new_library_made:
  assumes "\<forall>n. F n = KvOk" "rr_Technology r \<in> gpon_family"
    and "\<forall>path. kv_data st (resource_instance_key (rr_Technology r) @ path) = None"
  shows "\<exists>st'. NewTechProfile F keys (range_mgr dev r) st = (Done (Some (new_library dev r), None), st') \<and> kv_data st' = kv_data st"
proof -
  have "kv_data st k = None" if "take (length p) k = p" "p = resource_instance_key (rr_Technology r)" for k p
    using assms(3) that append_take_drop_id [of "length p" k] by metis
  then have "kv_List F keys (resource_instance_key (rr_Technology r)) st = (Done [], st\<lparr>kv_ops := Suc (kv_ops st)\<rparr>)"
    using assms(1) by (auto simp: kv_List_def)
  with assms(2) show ?thesis
    by (auto simp: NewTechProfile_def reconcileTpInstancesToCache_def kvm_defs new_library_def gpon_family_def range_manager_def Let_def)
qed

text \<open>
  The store the library works on: with the pools as the start has left them, and with templates for the profiles of the
  configuration, of at most \<open>G\<close> GEM ports.
\<close>

definition pools_as_left ::
  "('kv, 'file, 'tp, 'val) start_env \<Rightarrow> DeviceInfo \<Rightarrow> DeviceResourceRanges \<Rightarrow> kv \<Rightarrow> kv \<Rightarrow> bool" where
  "pools_as_left S dev r st st' \<longleftrightarrow>
     (\<forall>j. \<forall>rt \<in> resource_types. kv_data st' (pool_key (range_mgr dev r) j rt) =
        kv_data (snd (new_managers (se_rm S) dev (pon_indices (di_PonPorts dev)) st)) (pool_key (range_mgr dev r) j rt))"

definition good_templates :: "DeviceInfo \<Rightarrow> DeviceResourceRanges \<Rightarrow> OpenOltScaleTesterConfig \<Rightarrow> nat \<Rightarrow> kv \<Rightarrow> bool" where
  "good_templates dev r cfg G st \<longleftrightarrow> rr_Technology r \<in> gpon_family \<and>
     (\<forall>i \<in> set (TpIDList cfg). has_control (new_library dev r) st (of_int i) \<and>
        usable (template_in_use (new_library dev r) st (of_int i)) \<and>
        unat (tpl_NumGemPorts (template_in_use (new_library dev r) st (of_int i))) \<le> G)"

text \<open>An alloc ID and \<open>G\<close> GEM ports for every profile of every subscriber of every ONU.\<close>

definition enough_ids :: "DeviceInfo \<Rightarrow> DeviceResourceRanges \<Rightarrow> OpenOltScaleTesterConfig \<Rightarrow> nat \<Rightarrow> bool" where
  "enough_ids dev r cfg G \<longleftrightarrow>
     (let n = unat (NumOfOnu cfg) * (unat (SubscribersPerOnu cfg) * length (TpIDList cfg)); g = device_ranges r dev
      in unat (rg_AllocIDEnd g) \<le> 2 ^ 32 - 8 \<and> unat (rg_GEMPortIDEnd g) \<le> 2 ^ 32 - 8 \<and>
         n \<le> pool_size (rg_AllocIDEnd g) \<and> n * G \<le> pool_size (rg_GEMPortIDEnd g))"

section \<open>Lemmas\<close>

lemma started_pools:
  assumes "good_start S cfg dev r kv st" "starting_pools dev r st" "pools_as_left S dev r st st'" "j < di_PonPorts dev"
    and "rt \<in> resource_types"
  shows "port_pool dev r st' j rt"
proof -
  have good: "\<forall>t. new_pon_ok (se_rm S) t" "\<forall>n. kv_answers (se_rm S) n = KvOk" "new_tp_ok (se_rm S)" "single_range dev r"
    using assms(1) by (simp_all add: good_start_def)
  obtain st1 where st1: "snd (new_managers (se_rm S) dev (pon_indices (di_PonPorts dev)) st) = st1"
    "\<forall>j \<in> set (pon_indices (di_PonPorts dev)). \<forall>rt \<in> resource_types. port_pool dev r st1 j rt"
    using ports_start [OF good assms(2), of "pon_indices (di_PonPorts dev)"] pon_index_less by fastforce
  have "port_pool dev r st1 j rt" using st1(2) assms(4,5) set_pon_indices by blast
  moreover have "kv_data st' (pool_key (range_mgr dev r) j rt) = kv_data st1 (pool_key (range_mgr dev r) j rt)"
    using assms(3,5) st1(1) by (simp add: pools_as_left_def)
  ultimately show ?thesis by (simp add: new_pool_def)
qed

lemma started_room:
  assumes "good_start S cfg dev r kv st" "starting_pools dev r st" "pools_as_left S dev r st st'" "enough_ids dev r cfg G"
    and "ports \<subseteq> {j. j < di_PonPorts dev}"
    and "n \<le> unat (NumOfOnu cfg) * (unat (SubscribersPerOnu cfg) * length (TpIDList cfg))"
  shows "lib_room (range_mgr dev r) ports G st' n"
  unfolding lib_room_def
proof
  fix j assume "j \<in> ports"
  with assms(5) have j: "j < di_PonPorts dev" by auto
  note pool = started_pools [OF assms(1-3) j]
  let ?N = "unat (NumOfOnu cfg) * (unat (SubscribersPerOnu cfg) * length (TpIDList cfg))" and ?g = "device_ranges r dev"
  have "unat (rg_AllocIDEnd ?g) \<le> 2 ^ 32 - 8" "unat (rg_GEMPortIDEnd ?g) \<le> 2 ^ 32 - 8"
    and le: "?N \<le> pool_size (rg_AllocIDEnd ?g)" "?N * G \<le> pool_size (rg_GEMPortIDEnd ?g)"
    using assms(4) unfolding enough_ids_def Let_def by blast+
  moreover have "n \<le> pool_size (rg_AllocIDEnd ?g)" "n * G \<le> pool_size (rg_GEMPortIDEnd ?g)"
    using le_trans [OF assms(6) le(1)] le_trans [OF mult_le_mono1 [OF assms(6)] le(2)] by blast+
  moreover have "port_pool dev r st' j ''ALLOC_ID''" "port_pool dev r st' j ''GEMPORT_ID''"
    using pool by (simp_all add: resource_types_def)
  ultimately show "pool_room st' (pool_key (range_mgr dev r) j ''ALLOC_ID'') n \<and> pool_room st' (pool_key (range_mgr dev r) j ''GEMPORT_ID'') (n * G)"
    by (simp add: pool_range_def new_pool_room)
qed

lemma new_library_good:
  assumes "good_templates dev r cfg G st"
  shows "good_libs (range_mgr dev r) ports (of_int ` set (TpIDList cfg)) G (\<lambda>j. new_library dev r) st"
proof -
  have "pr_Technology (range_mgr dev r) = rr_Technology r" by (simp add: range_manager_def)
  with assms show ?thesis by (auto simp: good_libs_def good_templates_def new_library_def)
qed

section \<open>Properties\<close>

text \<open>
  C1: the program is totally correct with the modelled library in place of an assumption on it. On a working device and store, for a supported workflow and a feasible number of
  ONUs, with usable templates for the profiles and pools that hold an alloc ID and enough GEM ports for each
  profile of each subscriber of each ONU, every run of the process ends with exit code 0 and every subscriber deployed, and no state before that is stuck.
\<close>

theorem whole_program_completes:
  assumes "good_start S (main_config args) dev r kv st" "good_plan (main_config args) dev r bp"
    and "\<forall>h q. accepts_onus q (reply E h q)" "starting_pools dev r st" "pools_as_left S dev r st lib"
    and "good_templates dev r (main_config args) G lib" "enough_ids dev r (main_config args) G"
    and "tp_store E = port_libraries (kv_answers (se_rm S)) (\<lambda>j. new_library dev r) lib"
    and "\<forall>e. R \<noteq> IndPanic e" "proc_steps E (kv_answers (se_rm S)) R (main_init args S kv st) c"
  shows "wf {(c', c). proc_step E (kv_answers (se_rm S)) R c c'} \<and>
     (if pr_end c = None then \<exists>c'. proc_step E (kv_answers (se_rm S)) R c c'
      else pr_end c = Some (Exited 0) \<and> (\<exists>P s. pr_sys c = Some (P, s) \<and> pl_cfg P = main_config args \<and>
        pl_ports P = batch_ports (di_PonPorts dev) bp \<and> all_deployed P (unat (bp_batches bp)) s))"
proof -
  let ?F = "kv_answers (se_rm S)" and ?k = "unat (bp_batches bp)" and ?cfg = "main_config args"
  let ?ports = "batch_ports (di_PonPorts dev) bp"
  obtain P om st' w where run: "run E (main_prog args S kv st) world_init = (Done (StartReturns None, om, st'), w)"
    and om: "om_testConfig om = Some ?cfg" "om_deviceInfo om = Some dev" "om_rsrMgr om = map Some (pl_mgrs P)"
    and P: "P = \<lparr>pl_env = E, pl_pools = store_pools ?F (pl_mgrs P) st', pl_cfg = ?cfg, pl_mgrs = pl_mgrs P, pl_ports = ?ports\<rparr>"
    and ok: "tp_calls w = []" "plant_ok P ?k" "vendor_room P ?k vendorSpecificId_init"
    using good_start_runs [OF assms(1,2,3) refl] by blast
  have plan: "plan_batches (NumOfOnu ?cfg) (di_PonPorts dev) = Done (Planned bp)" "unat (NumOfOnu ?cfg) div unat (di_PonPorts dev) < 2 ^ 32"
    using assms(2) by (simp_all add: good_plan_def)
  have fields: "pl_env P = E" "pl_cfg P = ?cfg" "pl_ports P = ?ports" by (subst P, simp)+
  have "unat (bp_total bp) \<le> unat (NumOfOnu ?cfg)" unfolding plan_batches_nat(2) [OF plan] by simp
  then have "?k * length ?ports \<le> unat (NumOfOnu ?cfg)" using plan_bounds [OF plan] by linarith
  then have "?k * length ?ports * (unat (SubscribersPerOnu ?cfg) * length (TpIDList ?cfg)) \<le>
      unat (NumOfOnu ?cfg) * (unat (SubscribersPerOnu ?cfg) * length (TpIDList ?cfg))" by (rule mult_le_mono1)
  from started_room [OF assms(1,4,5,7) set_batch_ports this]
  have room: "lib_room (range_mgr dev r) (set ?ports) G lib (?k * length ?ports * (unat (SubscribersPerOnu ?cfg) * length (TpIDList ?cfg)))" .
  have F: "\<forall>n. ?F n = KvOk" using assms(1) by (simp add: good_start_def)
  have "works P ?k vendorSpecificId_init w"
    by (rule library_works [OF ok(2,3,1) _ F, unfolded fields, OF assms(8) new_library_good [OF assms(6)] room])
  from process_works [OF run om plan(1) assms(9) P this assms(10)] fields show ?thesis by (auto split: if_splits)
qed

text \<open>A command line and a device of two ports, from an empty store, with the default profile.\<close>

definition sample_library :: kv where
  "sample_library = snd (new_managers (se_rm (sample_start True)) two_ports (pon_indices (di_PonPorts two_ports)) empty_kv)"

definition sample_whole :: env where
  "sample_whole = accepting\<lparr>tp_store := port_libraries (\<lambda>n. KvOk) (\<lambda>j. new_library two_ports (hd (di_Ranges two_ports))) sample_library\<rparr>"

lemma sample_library_facts:
  "starting_pools two_ports (hd (di_Ranges two_ports)) empty_kv"
  "good_templates two_ports (hd (di_Ranges two_ports)) (main_config sample_args) 1 sample_library"
  "enough_ids two_ports (hd (di_Ranges two_ports)) (main_config sample_args) 1"
proof -
  let ?r = "hd (di_Ranges two_ports)" and ?t = "new_library two_ports (hd (di_Ranges two_ports))"
  show s: "starting_pools two_ports ?r empty_kv" using healthy_empty by (simp add: starting_pools_def unreserved_def empty_kv_def)
  have good: "\<forall>t. new_pon_ok (se_rm (sample_start True)) t" "\<forall>n. kv_answers (se_rm (sample_start True)) n = KvOk"
    "new_tp_ok (se_rm (sample_start True))" by (simp_all add: sample_start_def)
  have key: "tp_kv_key ?t i \<noteq> full_key m p" for i m p by (simp add: tp_kv_key_def full_key_def)
  have "kv_data sample_library (tp_kv_key ?t i) = kv_data empty_kv (tp_kv_key ?t i)" for i
    using ports_start [OF good two_ports_single(1) s, of "pon_indices (di_PonPorts two_ports)"] pon_index_less key
    unfolding sample_library_def by fastforce
  then have "kv_data sample_library (tp_kv_key ?t i) = None" for i by (simp add: empty_kv_def)
  then have "template_in_use ?t sample_library i = getDefaultTechProfile ?t" "has_control ?t sample_library i" for i
    by (simp_all add: template_in_use_def has_control_def) (simp_all add: new_library_def)
  moreover have "rr_Technology ?r \<in> gpon_family" by (simp add: two_ports_def gpon_family_def)
  ultimately show "good_templates two_ports ?r (main_config sample_args) 1 sample_library"
    by (simp add: good_templates_def default_usable default_simps)
  have "SubscribersPerOnu (main_config sample_args) = 1"
    by (simp add: main_config_defs defaultNumOfSubscribersPerOnu_def sample_args_def no_flags_def)
  moreover have "rg_AllocIDEnd (device_ranges ?r two_ports) = 16383" "rg_GEMPortIDEnd (device_ranges ?r two_ports) = 65535"
    by (simp_all add: two_ports_def device_ranges_def)
  ultimately show "enough_ids two_ports ?r (main_config sample_args) 1"
    by (simp add: enough_ids_def sample_args_config pool_size_def)
qed

theorem whole_program_completes_witness:
  "\<exists>c. proc_steps sample_whole (\<lambda>n. KvOk) Waiting (main_init sample_args (sample_start True) Map.empty empty_kv) c \<and>
     pr_end c = Some (Exited 0)"
proof -
  let ?init = "main_init sample_args (sample_start True) Map.empty empty_kv"
  have F: "kv_answers (se_rm (sample_start True)) = (\<lambda>n. KvOk)" by (simp add: sample_start_def)
  obtain c where c: "proc_steps sample_whole (\<lambda>n. KvOk) Waiting ?init c" "\<not> (\<exists>c'. proc_step sample_whole (\<lambda>n. KvOk) Waiting c c')"
    using proc_rests by blast
  have left: "pools_as_left (sample_start True) two_ports (hd (di_Ranges two_ports)) empty_kv sample_library"
    by (simp add: pools_as_left_def sample_library_def)
  have accepts: "\<forall>h q. accepts_onus q (reply sample_whole h q)" using sample_good(3) by (simp add: good_env_def sample_whole_def)
  from whole_program_completes [OF sample_good(1,2) accepts sample_library_facts(1) left sample_library_facts(2,3), unfolded F, of Waiting, OF _ _ c(1)]
    c(2) have "pr_end c = Some (Exited 0)" by (auto simp: sample_whole_def split: if_splits)
  with c(1) show ?thesis by blast
qed

end
