(* ===== verification/Flow_Ids.thy ===== *)
theory Flow_Ids
  imports Workflow_Manager
begin

text \<open>
  Uniqueness of flow IDs. The device knows a flow by the PON port and the ID it carries; an ID is drawn from the counter of
  the port's resource manager by one goroutine and sent by it later, while others draw and send on the same
  port. \<open>fresh_flows\<close> is the discipline that makes this work: a goroutine sends a flow only under an ID it drew itself and has
  not sent yet. All three workflows follow it, and any pool of goroutines that follow it never sends two
  flows under the same port and ID.
\<close>

section \<open>Definitions\<close>

type_synonym flow_key = "int \<times> uint64"

fun flow_keys :: "rpc list \<Rightarrow> flow_key list" where
  "flow_keys [] = []"
| "flow_keys (FlowAdd f # rs) = (fl_AccessIntfId f, fl_FlowId f) # flow_keys rs"
| "flow_keys (_ # rs) = flow_keys rs"

text \<open>\<open>S\<close> holds the IDs drawn and not yet sent.\<close>

primrec fresh_flows :: "flow_key set \<Rightarrow> 'a prog \<Rightarrow> bool" where
  "fresh_flows S (Ret x) = True"
| "fresh_flows S (Panic e) = True"
| "fresh_flows S (NextFlowID m k) = (\<forall>v. fresh_flows (insert (int32_of m, v) S) (k v))"
| "fresh_flows S (Tag r k) = (\<forall>v. fresh_flows S (k v))"
| "fresh_flows S (LoadPon k) = (\<forall>v. fresh_flows S (k v))"
| "fresh_flows S (AddPon d k) = (\<forall>v. fresh_flows S (k v))"
| "fresh_flows S (Rand n k) = (\<forall>v. v < n \<or> n = 0 \<longrightarrow> fresh_flows S (k v))"
| "fresh_flows S (Call r k) =
     (set (flow_keys [r]) \<subseteq> S \<and> (\<forall>v. fresh_flows (S - set (flow_keys [r])) (k v)))"
| "fresh_flows S (TpCreate r k) = (\<forall>v. fresh_flows S (k v))"

section \<open>The discipline, piece by piece\<close>

lemma flow_keys_append [simp]: "flow_keys (rs @ ss) = flow_keys rs @ flow_keys ss"
  by (induction rs rule: flow_keys.induct) simp_all

lemma fresh_mono: "fresh_flows S p \<Longrightarrow> S \<subseteq> T \<Longrightarrow> fresh_flows T p"
proof (induction p arbitrary: S T)
  case (NextFlowID m k)
  have "fresh_flows (insert (int32_of m, v) T) (k v)" for v
    by (rule NextFlowID.IH [OF rangeI, of "insert (int32_of m, v) S"]) (use NextFlowID.prems in auto)
  then show ?case by simp
next
  case (Call r k)
  have "S - set (flow_keys [r]) \<subseteq> T - set (flow_keys [r])" using Call.prems(2) by blast
  then have "fresh_flows (T - set (flow_keys [r])) (k v)" for v
    by (rule Call.IH [OF rangeI, of "S - set (flow_keys [r])", rotated]) (use Call.prems in auto)
  then show ?case using Call.prems by auto
qed (simp; metis rangeI)+

lemma fresh_bindp: "fresh_flows S p \<Longrightarrow> (\<And>x. fresh_flows {} (f x)) \<Longrightarrow> fresh_flows S (bindp p f)"
  by (induction p arbitrary: S) (auto intro: fresh_mono)

lemma fresh_and_then: "fresh_flows S p \<Longrightarrow> fresh_flows {} q \<Longrightarrow> fresh_flows S (and_then p q)"
  unfolding and_then_def by (rule fresh_bindp) (auto split: option.split)

lemma fresh_deref: "fresh_flows S (deref e x)"
  by (simp add: deref_def split: option.split)

lemma fresh_fail_with: "fresh_flows S (fail_with c)"
  by (simp add: fail_with_def split: outcome.split)

lemma fresh_tp_pointer: "fresh_flows S (tp_pointer subs)"
  by (simp add: tp_pointer_def split: list.split)

lemma fresh_send_flow:
  "(fl_AccessIntfId f, fl_FlowId f) \<in> S \<Longrightarrow> fresh_flows S (send_flow f)"
  by (simp add: send_flow_def fresh_fail_with)

lemma fresh_with_flow_id:
  assumes "rm_intfID (RsrMgr subs) = PonIntf subs"
    and "\<And>v. fresh_flows {(int32_of (PonIntf subs), v)} (k v)"
  shows "fresh_flows {} (with_flow_id subs k)"
  using assms by (simp add: with_flow_id_eq)

lemma fresh_AddFlow:
  "fresh_flows {(int32_of (PonIntf subs), v)} (AddFlow subs ft dir v alloc gem pcp rep smf m)"
  by (simp add: AddFlow_def fresh_send_flow)

lemma fresh_rand_bytes: "fresh_flows S (rand_bytes n)"
  by (induction n) (auto intro: fresh_bindp)

lemma fresh_Format: "fresh_flows S (FormatTtClassfierAction ft dir subs)"
  by (auto simp: FormatTtClassfierAction_def GenerateMac_def intro!: fresh_bindp fresh_rand_bytes)

text \<open>A program that sends nothing keeps the IDs for what comes after it.\<close>

lemma fresh_silent:
  "safe (\<lambda>r. False) any p \<Longrightarrow> (\<And>x. fresh_flows S (f x)) \<Longrightarrow> fresh_flows S (bindp p f)"
proof (induction p arbitrary: S)
  case (NextFlowID m k)
  have "fresh_flows (insert (int32_of m, v) S) (bindp (k v) f)" for v
  proof (rule NextFlowID.IH [OF rangeI])
    show "safe (\<lambda>r. False) any (k v)" using NextFlowID.prems by simp
    show "fresh_flows (insert (int32_of m, v) S) (f x)" for x
      using NextFlowID.prems(2) by (rule fresh_mono) blast
  qed
  then show ?case by simp
qed auto

lemma silent_Format: "safe (\<lambda>r. False) any (FormatTtClassfierAction ft dir subs)"
  by (rule safe_Format)

lemma fresh_AddTtFlow:
  "fresh_flows {(int32_of (PonIntf subs), v)} (AddTtFlow subs ft dir v alloc gem pcp rep smf m)"
  unfolding AddTtFlow_def by (rule fresh_silent [OF silent_Format]) (simp add: fresh_send_flow)

lemma fresh_alloc_and_gems: "fresh_flows S (alloc_and_gems subs)"
  by (auto simp: alloc_and_gems_def intro!: fresh_bindp fresh_tp_pointer fresh_deref)

lemma fresh_for_bits:
  "(\<And>pcp gemID. fresh_flows {} (body pcp gemID)) \<Longrightarrow> fresh_flows {} (for_bits body bits)"
proof (induction bits)
  case (Cons b bits)
  then show ?case by (cases b) (auto intro: fresh_and_then)
qed simp

lemma fresh_create: "fresh_flows {} (create_scheds subs dir)" "fresh_flows {} (create_queues subs dir)"
proof -
  have "fresh_flows {} (getTrafficSched subs dir)"
    by (auto simp: getTrafficSched_def GetDsScheduler_def GetUsScheduler_def GetTrafficScheduler_def Let_def
        intro!: fresh_bindp fresh_tp_pointer fresh_deref split: option.split)
  then show "fresh_flows {} (create_scheds subs dir)"
    by (auto simp: create_scheds_def fresh_fail_with intro!: fresh_bindp split: option.split)
  have "fresh_flows {} (getTrafficQueues subs dir)"
    by (auto simp: getTrafficQueues_def GetTrafficQueues_def intro!: fresh_bindp fresh_tp_pointer fresh_deref
        split: option.split)
  then show "fresh_flows {} (create_queues subs dir)"
    by (auto simp: create_queues_def fresh_fail_with intro!: fresh_bindp split: option.split)
qed

lemma fresh_provision: "fresh_flows {} (provision_scheds subs)" "fresh_flows {} (provision_queues subs)"
  by (auto simp: provision_scheds_def provision_queues_def intro!: fresh_and_then fresh_create)

lemma fresh_hsia:
  assumes "rm_intfID (RsrMgr subs) = PonIntf subs"
  shows "fresh_flows {} (att_ProvisionHsiaFlow subs)"
    and "fresh_flows {} (att_ProvisionEapFlow subs)" "fresh_flows {} (att_ProvisionDhcpIPV4Flow subs)"
  by (auto simp: att_flow_defs Let_def intro!: fresh_bindp fresh_alloc_and_gems fresh_and_then
      fresh_with_flow_id [OF assms] fresh_AddFlow)

lemma fresh_tt:
  assumes "rm_intfID (RsrMgr subs) = PonIntf subs"
  shows "fresh_flows {} (tt_ProvisionHsiaFlow subs)" "fresh_flows {} (tt_ProvisionVoipFlow subs)"
    "fresh_flows {} (tt_ProvisionVodFlow subs)" "fresh_flows {} (tt_ProvisionMgmtFlow subs)"
  unfolding tt_ProvisionHsiaFlow_def tt_ProvisionVoipFlow_def tt_ProvisionVodFlow_def tt_ProvisionMgmtFlow_def
  by (auto intro!: fresh_bindp fresh_alloc_and_gems fresh_for_bits
      fresh_with_flow_id [OF assms] fresh_AddTtFlow fresh_AddFlow)

lemma fresh_when_p: "fresh_flows {} m \<Longrightarrow> fresh_flows {} (when_p b m)"
  by (simp add: when_p_def)

lemma fresh_multicast:
  assumes "rm_intfID (RsrMgr subs) = PonIntf subs"
  shows "fresh_flows {} (tt_ProvisionMulticastFlow subs)"
proof -
  have flow: "fresh_flows {} (AddMulticastFlow (multicast_group subs b))" for b
    by (auto simp: AddMulticastFlow_def Let_def multicast_group_def GetFlowID_def assms GenerateMulticastMac_def
        send_raw_flow_def Flow_zero_def)
  have sched: "fresh_flows {} (AddMulticastSched (multicast_group subs b))" for b
    by (auto simp: AddMulticastSched_def Let_def GetTrafficScheduler_def fresh_fail_with
        intro!: fresh_bindp fresh_tp_pointer fresh_deref)
  have queue: "fresh_flows {} (OpMulticastTrafficQueue grp True)" "fresh_flows {} (CreateGroup grp)"
    "fresh_flows {} (OpMemberToGroup grp True)" for grp
    by (simp_all add: OpMulticastTrafficQueue_def CreateGroup_def OpMemberToGroup_def PerformGroupOperation_def Let_def)
  have "fresh_flows {} (AddMulticastQueueFlow (multicast_group subs b))" for b
    unfolding AddMulticastQueueFlow_def by (intro fresh_and_then fresh_when_p flow sched queue)
  then show ?thesis by (simp add: tt_ProvisionMulticastFlow_def)
qed

lemma fresh_deploy:
  assumes "rm_intfID (RsrMgr subs) = PonIntf subs"
  shows "fresh_flows {} (DeployWorkflow subs isGroup)"
proof -
  have "fresh_flows {} (provision_unicast AttWorkFlow subs)"
    unfolding provision_unicast_def AttWorkFlow_def WorkFlow.select_convs att_noop_defs
      att_ProvisionScheds_def att_ProvisionQueues_def
    by (intro fresh_and_then fresh_hsia [OF assms] fresh_provision fresh_flows.simps(1) [THEN iffD2] TrueI)
  moreover have "fresh_flows {} (provision_unicast DtWorkFlow subs)"
    unfolding provision_unicast_def DtWorkFlow_def WorkFlow.select_convs dt_noop_defs dt_hsia_is_att_hsia
      dt_ProvisionScheds_def dt_ProvisionQueues_def
    by (intro fresh_and_then fresh_hsia [OF assms] fresh_provision fresh_flows.simps(1) [THEN iffD2] TrueI)
  moreover have "fresh_flows {} (provision_unicast TtWorkFlow subs)"
    unfolding provision_unicast_def TtWorkFlow_def WorkFlow.select_convs tt_noop_defs
      tt_ProvisionScheds_def tt_ProvisionQueues_def
    by (intro fresh_and_then fresh_tt [OF assms] fresh_provision fresh_flows.simps(1) [THEN iffD2] TrueI)
  moreover have "fresh_flows {} (wf_ProvisionMulticastFlow wfl subs)" if "wfl \<in> {AttWorkFlow, DtWorkFlow, TtWorkFlow}" for wfl
    using that fresh_multicast [OF assms]
    by (auto simp: AttWorkFlow_def DtWorkFlow_def TtWorkFlow_def att_noop_defs dt_noop_defs)
  ultimately have both: "fresh_flows {} (if isGroup then wf_ProvisionMulticastFlow wfl subs else provision_unicast wfl subs)"
    if "getWorkFlow subs = Some wfl" for wfl
    using that getWorkFlow_cases [of subs] by auto
  have tail: "fresh_flows {} (case err of Some e \<Rightarrow> Ret (subs\<lparr>SubsReason := Error e\<rparr>)
      | None \<Rightarrow> (case ReasonCodeToReasonString SUBSCRIBER_PROVISION_SUCCESS of
          Done s \<Rightarrow> Ret (subs\<lparr>SubsReason := s\<rparr>) | Crashed p \<Rightarrow> Panic p))" for err
    by (simp split: option.split)
  show ?thesis
  proof (cases "getWorkFlow subs")
    case (Some wfl)
    show ?thesis
      unfolding DeployWorkflow_def Some deref_simps bindp.simps
      by (rule fresh_bindp [OF both [OF Some] tail])
  qed (simp add: DeployWorkflow_def)
qed

section \<open>Pools\<close>

text \<open>The IDs given out since the counters were \<open>c\<close>.\<close>

definition drawn :: "(uint32 \<Rightarrow> uint64) \<Rightarrow> (uint32 \<Rightarrow> uint64) \<Rightarrow> flow_key set" where
  "drawn c c' = {(int32_of m, v) | m v. 0 < unat (v - c m) \<and> unat (v - c m) \<le> unat (c' m - c m)}"

text \<open>
  The invariant: every goroutine keeps to the discipline with its own set of unsent IDs; the sets are disjoint from
  each other and from the keys already sent; all of them were drawn; and no counter has moved by more than the
  number of actions.
\<close>

definition pool_inv ::
  "(uint32 \<Rightarrow> uint64) \<Rightarrow> rpc list \<Rightarrow> nat \<Rightarrow> flow_key set list \<Rightarrow> 'a prog list \<Rightarrow> world \<Rightarrow> bool" where
  "pool_inv c h n Ss ps w \<longleftrightarrow>
     length Ss = length ps \<and>
     (\<forall>i<length ps. fresh_flows (Ss ! i) (ps ! i)) \<and>
     (\<forall>i<length ps. \<forall>j<length ps. i \<noteq> j \<longrightarrow> Ss ! i \<inter> Ss ! j = {}) \<and>
     (\<exists>rs. sent w = h @ rs \<and> distinct (flow_keys rs) \<and> set (flow_keys rs) \<subseteq> drawn c (flow_id w) \<and>
        (\<forall>i<length ps. Ss ! i \<inter> set (flow_keys rs) = {})) \<and>
     (\<forall>i<length ps. Ss ! i \<subseteq> drawn c (flow_id w)) \<and>
     (\<forall>m. unat (flow_id w m - c m) \<le> n)"

lemma drawn_iff:
  "(int32_of m, v) \<in> drawn c c' \<longleftrightarrow> 0 < unat (v - c m) \<and> unat (v - c m) \<le> unat (c' m - c m)"
  by (auto simp: drawn_def)

lemma drawn_cases:
  assumes "x \<in> drawn c c'"
  obtains q v where "x = (int32_of q, v)" "0 < unat (v - c q)" "unat (v - c q) \<le> unat (c' q - c q)"
  using assms by (auto simp: drawn_def)

lemma drawn_next:
  assumes "unat (c' m - c m) \<le> n" "Suc n < 2 ^ 64"
  shows "drawn c (c'(m := c' m + 1)) = insert (int32_of m, c' m + 1) (drawn c c')"
    and "(int32_of m, c' m + 1) \<notin> drawn c c'"
    and "unat (c' m + 1 - c m) = Suc (unat (c' m - c m))"
proof -
  have e: "c' m + 1 - c m = (c' m - c m) + 1" by simp
  show u: "unat (c' m + 1 - c m) = Suc (unat (c' m - c m))"
    unfolding e using assms by (subst unat_Suc_word) simp_all
  show "(int32_of m, c' m + 1) \<notin> drawn c c'"
    unfolding drawn_iff u by simp
  have eq: "v = c' m + 1" if "unat (v - c m) = Suc (unat (c' m - c m))" for v
  proof -
    have "v - c m = c' m + 1 - c m" using that u by (simp add: word_unat_eq_iff)
    then show ?thesis by simp
  qed
  then show "drawn c (c'(m := c' m + 1)) = insert (int32_of m, c' m + 1) (drawn c c')"
  proof (intro set_eqI iffI)
    fix x assume "x \<in> drawn c (c'(m := c' m + 1))"
    then obtain q v where x: "x = (int32_of q, v)" "0 < unat (v - c q)"
      "unat (v - c q) \<le> unat ((c'(m := c' m + 1)) q - c q)" by (rule drawn_cases)
    show "x \<in> insert (int32_of m, c' m + 1) (drawn c c')"
    proof (cases "q = m \<and> unat (v - c q) = Suc (unat (c' m - c m))")
      case True
      then have "v = c' m + 1" using eq by blast
      with x True show ?thesis by simp
    next
      case False
      have "unat (v - c q) \<le> unat (c' q - c q)"
      proof (cases "q = m")
        case True
        have "unat (v - c m) \<le> Suc (unat (c' m - c m))" "unat (v - c m) \<noteq> Suc (unat (c' m - c m))"
          using x(3) False unfolding True fun_upd_same u by simp_all
        then show ?thesis unfolding True by linarith
      next
        case False
        show ?thesis using x(3) unfolding fun_upd_other [OF False] .
      qed
      then show ?thesis using x(1,2) by (simp add: drawn_iff)
    qed
  next
    fix x assume "x \<in> insert (int32_of m, c' m + 1) (drawn c c')"
    then consider "x = (int32_of m, c' m + 1)" | "x \<in> drawn c c'" by blast
    then show "x \<in> drawn c (c'(m := c' m + 1))"
    proof cases
      case 1
      then show ?thesis using u by (simp add: drawn_iff del: unat_gt_0)
    next
      case 2
      then obtain q v where x: "x = (int32_of q, v)" "0 < unat (v - c q)" "unat (v - c q) \<le> unat (c' q - c q)"
        by (rule drawn_cases)
      have "unat (v - c q) \<le> unat ((c'(m := c' m + 1)) q - c q)"
      proof (cases "q = m")
        case True
        have "unat (v - c m) \<le> unat (c' m - c m)" using x(3) unfolding True .
        then have "unat (v - c m) \<le> unat (c' m + 1 - c m)" unfolding u by (rule le_SucI)
        then show ?thesis unfolding True fun_upd_same .
      next
        case False
        show ?thesis using x(3) unfolding fun_upd_other [OF False] .
      qed
      then show ?thesis using x(1,2) by (simp only: drawn_iff simp_thms)
    qed
  qed
qed

lemma step1_fresh:
  assumes "fresh_flows S p" "step1 E p w = Some (p', w')"
  shows "(sent w' = sent w \<and> flow_id w' = flow_id w \<and> fresh_flows S p') \<or>
     (\<exists>m. sent w' = sent w \<and> flow_id w' = (flow_id w)(m := flow_id w m + 1) \<and>
        fresh_flows (insert (int32_of m, flow_id w m + 1) S) p') \<or>
     (\<exists>r. sent w' = sent w @ [r] \<and> flow_id w' = flow_id w \<and> set (flow_keys [r]) \<subseteq> S \<and>
        fresh_flows (S - set (flow_keys [r])) p')"
proof (cases p)
  case (Rand n k)
  have "rand_src E (draws w) mod n < n \<or> n = 0" by auto
  with assms Rand show ?thesis by auto
qed (use assms in \<open>auto simp: flow_id_section_def Let_def simp del: split_paired_All\<close>)

lemma distinct_flow_keys1: "distinct (flow_keys [r])"
  by (cases r) simp_all

lemma pool_inv_same:
  assumes "pool_inv c h n Ss ps w" "i < length ps" "fresh_flows (Ss ! i) p'"
    "sent w' = sent w" "flow_id w' = flow_id w"
  shows "pool_inv c h (Suc n) Ss (ps[i := p']) w'"
proof -
  have "\<forall>j<length (ps[i := p']). fresh_flows (Ss ! j) (ps[i := p'] ! j)"
    using assms(1-3) by (simp add: pool_inv_def nth_list_update)
  then show ?thesis using assms(1,4,5) by (simp add: pool_inv_def le_Suc_eq)
qed

lemma pool_inv_draw:
  assumes inv: "pool_inv c h n Ss ps w" and i: "i < length ps" and n: "Suc n < 2 ^ 64"
    and fresh: "fresh_flows (insert (int32_of m, flow_id w m + 1) (Ss ! i)) p'"
    and w': "sent w' = sent w" "flow_id w' = (flow_id w)(m := flow_id w m + 1)"
  shows "pool_inv c h (Suc n) (Ss[i := insert (int32_of m, flow_id w m + 1) (Ss ! i)]) (ps[i := p']) w'"
proof -
  let ?k = "(int32_of m, flow_id w m + 1)" and ?D = "drawn c (flow_id w)"
  have len: "length Ss = length ps" using inv by (simp add: pool_inv_def)
  have "unat (flow_id w m - c m) \<le> n" using inv by (simp add: pool_inv_def)
  note d = drawn_next [of "flow_id w" m c, OF this n]
  have sub: "Ss ! j \<subseteq> ?D" if "j < length ps" for j using inv that by (simp add: pool_inv_def)
  have new: "?k \<notin> Ss ! j" if "j < length ps" for j using d(2) sub [OF that] by blast
  obtain rs where rs: "sent w = h @ rs" "distinct (flow_keys rs)" "set (flow_keys rs) \<subseteq> ?D"
    "\<forall>j<length ps. Ss ! j \<inter> set (flow_keys rs) = {}" using inv by (auto simp: pool_inv_def)
  have "\<forall>j<length ps. fresh_flows (Ss[i := insert ?k (Ss ! i)] ! j) (ps[i := p'] ! j)"
    using inv fresh len i by (simp add: pool_inv_def nth_list_update)
  moreover have "Ss[i := insert ?k (Ss ! i)] ! a \<inter> Ss[i := insert ?k (Ss ! i)] ! b = {}"
    if "a < length ps" "b < length ps" "a \<noteq> b" for a b
  proof -
    have "Ss ! a \<inter> Ss ! b = {}" using inv that by (simp add: pool_inv_def)
    then show ?thesis using new [OF that(1)] new [OF that(2)] that len i by (auto simp: nth_list_update)
  qed
  moreover have "\<exists>rs. sent w' = h @ rs \<and> distinct (flow_keys rs) \<and> set (flow_keys rs) \<subseteq> drawn c (flow_id w') \<and>
      (\<forall>j<length ps. Ss[i := insert ?k (Ss ! i)] ! j \<inter> set (flow_keys rs) = {})"
  proof (intro exI [of _ rs] conjI allI impI)
    show "set (flow_keys rs) \<subseteq> drawn c (flow_id w')" unfolding w' d(1) using rs(3) by blast
    fix j assume j: "j < length ps"
    show "Ss[i := insert ?k (Ss ! i)] ! j \<inter> set (flow_keys rs) = {}"
      using rs(3,4) j i d(2) len by (auto simp: nth_list_update)
  qed (use rs w' in simp_all)
  moreover have "\<forall>j<length ps. Ss[i := insert ?k (Ss ! i)] ! j \<subseteq> drawn c (flow_id w')"
    unfolding w' d(1) using sub len i by (auto simp: nth_list_update)
  moreover have "unat (flow_id w' q - c q) \<le> Suc n" for q
    using inv d(3) w'(2) by (cases "q = m") (simp_all add: pool_inv_def le_SucI)
  ultimately show ?thesis using len by (simp add: pool_inv_def)
qed

lemma pool_inv_send:
  assumes inv: "pool_inv c h n Ss ps w" and i: "i < length ps"
    and r: "set (flow_keys [r]) \<subseteq> Ss ! i" "fresh_flows (Ss ! i - set (flow_keys [r])) p'"
    and w': "sent w' = sent w @ [r]" "flow_id w' = flow_id w"
  shows "pool_inv c h (Suc n) (Ss[i := Ss ! i - set (flow_keys [r])]) (ps[i := p']) w'"
proof -
  let ?K = "set (flow_keys [r])" and ?D = "drawn c (flow_id w)"
  have len: "length Ss = length ps" using inv by (simp add: pool_inv_def)
  have sub: "Ss ! j \<subseteq> ?D" if "j < length ps" for j using inv that by (simp add: pool_inv_def)
  have disj: "Ss ! a \<inter> Ss ! b = {}" if "a < length ps" "b < length ps" "a \<noteq> b" for a b
    using inv that by (simp add: pool_inv_def)
  obtain rs where rs: "sent w = h @ rs" "distinct (flow_keys rs)" "set (flow_keys rs) \<subseteq> ?D"
    "\<forall>j<length ps. Ss ! j \<inter> set (flow_keys rs) = {}" using inv by (auto simp: pool_inv_def)
  have "\<forall>j<length ps. fresh_flows (Ss[i := Ss ! i - ?K] ! j) (ps[i := p'] ! j)"
    using inv r(2) len i by (simp add: pool_inv_def nth_list_update)
  moreover have "Ss[i := Ss ! i - ?K] ! a \<inter> Ss[i := Ss ! i - ?K] ! b = {}"
    if "a < length ps" "b < length ps" "a \<noteq> b" for a b
    using disj [OF that] that len i by (auto simp: nth_list_update)
  moreover have "\<exists>rs. sent w' = h @ rs \<and> distinct (flow_keys rs) \<and> set (flow_keys rs) \<subseteq> drawn c (flow_id w') \<and>
      (\<forall>j<length ps. Ss[i := Ss ! i - ?K] ! j \<inter> set (flow_keys rs) = {})"
  proof (intro exI [of _ "rs @ [r]"] conjI allI impI)
    show "distinct (flow_keys (rs @ [r]))"
      using rs(2,4) i r(1) distinct_flow_keys1 [of r] by (auto simp: distinct_append)
    show "set (flow_keys (rs @ [r])) \<subseteq> drawn c (flow_id w')" using rs(3) r(1) sub [OF i] w'(2) by auto
    fix j assume j: "j < length ps"
    have "Ss ! j \<inter> ?K = {}" if "j \<noteq> i" using disj [OF j i that] r(1) by blast
    then show "Ss[i := Ss ! i - ?K] ! j \<inter> set (flow_keys (rs @ [r])) = {}"
      using rs(4) j i len by (auto simp: nth_list_update)
  qed (simp add: w' rs)
  moreover have "\<forall>j<length ps. Ss[i := Ss ! i - ?K] ! j \<subseteq> drawn c (flow_id w')"
    using sub len i w'(2) by (auto simp: nth_list_update)
  moreover have "unat (flow_id w' q - c q) \<le> Suc n" for q
    using inv w'(2) by (simp add: pool_inv_def le_SucI)
  ultimately show ?thesis using len by (simp add: pool_inv_def)
qed

lemma pool_inv_step:
  assumes inv: "pool_inv c h n Ss ps w" and st: "pool_step E (ps, w) (ps', w')" and n: "Suc n < 2 ^ 64"
  shows "\<exists>Ss'. pool_inv c h (Suc n) Ss' ps' w'"
proof -
  obtain i p' where i: "i < length ps" "step1 E (ps ! i) w = Some (p', w')" "ps' = ps[i := p']"
    using st by (auto simp: pool_step_iff)
  have "fresh_flows (Ss ! i) (ps ! i)" using inv i(1) by (simp add: pool_inv_def)
  from step1_fresh [OF this i(2)] show ?thesis
    unfolding i(3)
    using pool_inv_same [OF inv i(1)] pool_inv_draw [OF inv i(1) n] pool_inv_send [OF inv i(1)] by blast
qed

lemma pool_inv_steps:
  assumes "pool_inv (flow_id w) (sent w) 0 Ss ps w" "((pool_step E) ^^ n) (ps, w) (ps', w')" "n < 2 ^ 64"
  shows "\<exists>Ss'. pool_inv (flow_id w) (sent w) n Ss' ps' w'"
  using assms(2,3)
proof (induction n arbitrary: ps' w')
  case 0
  with assms(1) show ?case by auto
next
  case (Suc n)
  then obtain ps1 w1 where "((pool_step E) ^^ n) (ps, w) (ps1, w1)" "pool_step E (ps1, w1) (ps', w')"
    by (auto simp: relcompp_apply)
  with Suc show ?case using pool_inv_step Suc_lessD by blast
qed

text \<open>The number of actions of a run, and the run as a schedule of one goroutine of a pool.\<close>

primrec moves :: "env \<Rightarrow> 'a prog \<Rightarrow> world \<Rightarrow> nat" where
  "moves E (Ret x) w = 0"
| "moves E (Panic e) w = 0"
| "moves E (NextFlowID m k) w = Suc (moves E (k (fst (flow_id_section m w))) (snd (flow_id_section m w)))"
| "moves E (Tag r k) w =
     Suc (moves E (k (fst (tag_section r (tags w)))) (w\<lparr>tags := snd (tag_section r (tags w))\<rparr>))"
| "moves E (LoadPon k) w = Suc (moves E (k (lastPonIntf w)) w)"
| "moves E (AddPon d k) w = Suc (moves E (k (lastPonIntf w + d)) (w\<lparr>lastPonIntf := lastPonIntf w + d\<rparr>))"
| "moves E (Rand n k) w = Suc (moves E (k (rand_src E (draws w) mod n)) (w\<lparr>draws := Suc (draws w)\<rparr>))"
| "moves E (Call r k) w = Suc (moves E (k (reply E (sent w) r)) (w\<lparr>sent := sent w @ [r]\<rparr>))"
| "moves E (TpCreate r k) w =
     Suc (moves E (k (tp_store E (tp_calls w) r)) (w\<lparr>tp_calls := tp_calls w @ [r]\<rparr>))"

lemma moves_bindp:
  "moves E (bindp p f) w = moves E p w +
     (case run E p w of (Done x, w') \<Rightarrow> moves E (f x) w' | (Crashed e, w') \<Rightarrow> 0)"
  by (induction p arbitrary: w) simp_all

lemma moves_step1: "step1 E p w = Some (p', w') \<Longrightarrow> moves E p w = Suc (moves E p' w')"
  by (cases p) auto

lemma run_schedule:
  assumes "run E p w = (Done x, w')" "i < length ps" "ps ! i = p" "\<forall>q \<in> set ps. \<not> is_panic q"
  shows "((pool_step E) ^^ moves E p w) (ps, w) (ps[i := Ret x], w')"
  using assms
proof (induction "moves E p w" arbitrary: p w ps)
  case 0
  have "step1 E p w = None" using 0(1) moves_step1 [of E p w] by (cases "step1 E p w") auto
  with 0 step1_progress [of p E w] have "p = Ret x \<and> w' = w" by auto
  with 0 show ?case by (metis list_update_id relpowp_0_I)
next
  case (Suc n)
  then obtain p1 w1 where s: "step1 E p w = Some (p1, w1)"
    using step1_progress [of p E w] by fastforce
  have "run E p1 w1 = (Done x, w')" using run_step1 [OF s] Suc.prems(1) by simp
  moreover from this have "\<not> is_panic p1" by (cases p1) (auto simp: is_panic_def)
  then have "\<forall>q \<in> set (ps[i := p1]). \<not> is_panic q" using Suc.prems(4) set_update_subset_insert [of ps i p1] by blast
  moreover have n: "n = moves E p1 w1" using Suc.hyps(2) moves_step1 [OF s] by simp
  ultimately have "((pool_step E) ^^ n) (ps[i := p1], w1) (ps[i := p1, i := Ret x], w')"
    using Suc.hyps(1) [OF n, of "ps[i := p1]"] Suc.prems(2) by simp
  moreover have "pool_step E (ps, w) (ps[i := p1], w1)"
    using Suc.prems s by (auto intro: pool_step.move)
  ultimately show ?case
    unfolding Suc.hyps(2) [symmetric] list_update_overwrite by (metis relpowp_Suc_I2)
qed

section \<open>Properties\<close>

text \<open>
  C8: flow IDs are unique per PON port. However the deployments of any list of subscribers, of any
  workflow and on any ports, are interleaved, and whatever the device answers, no two flows are sent
  with the same port and flow ID, as long as each subscriber holds the manager of its own port and
  fewer than 2 ^ 64 actions are made (then no counter has wrapped around).
\<close>

theorem flow_ids_unique:
  assumes "\<forall>subs \<in> set ss. rm_intfID (RsrMgr subs) = PonIntf subs"
    and "((pool_step E) ^^ n) (map (\<lambda>subs. DeployWorkflow subs isGroup) ss, w) (ps', w')" "n < 2 ^ 64"
  shows "\<exists>rs. sent w' = sent w @ rs \<and> distinct (flow_keys rs)"
proof -
  let ?ps = "map (\<lambda>subs. DeployWorkflow subs isGroup) ss"
  have "pool_inv (flow_id w) (sent w) 0 (replicate (length ss) {}) ?ps w"
    using assms(1) by (auto simp: pool_inv_def fresh_deploy)
  from pool_inv_steps [OF this assms(2,3)] show ?thesis by (auto simp: pool_inv_def)
qed


text \<open>Two DT subscribers of one port, deployed one after the other: ten actions each, two of them draws.\<close>

lemma dt_sample_run:
  fixes k w
  defines "r \<equiv> run accepting (DeployWorkflow (sample_subscriber ''DT'' 0 k) False) w"
  shows "\<exists>x. fst r = Done x"
    and "moves accepting (DeployWorkflow (sample_subscriber ''DT'' 0 k) False) w = 8"
    and "flow_keys (sent (snd r)) = flow_keys (sent w) @ [(0, flow_id w 0 + 1), (0, flow_id w 0 + 2)]"
  unfolding r_def
  by (simp_all add: DeployWorkflow_def provision_unicast_def DtWorkFlow_def dt_noop_defs dt_ProvisionScheds_def
      dt_ProvisionQueues_def provision_scheds_def provision_queues_def create_scheds_ready create_queues_ready
      dt_hsia_is_att_hsia att_ProvisionHsiaFlow_def alloc_and_gems_ready with_flow_id_eq AddFlow_def send_flow_def
      and_then_def fail_with_def flow_id_section_def Let_def sched_request_def queue_request_def)

theorem flow_ids_unique_witness:
  "let w1 = snd (run accepting (DeployWorkflow (sample_subscriber ''DT'' 0 1) False) world_init);
       w2 = snd (run accepting (DeployWorkflow (sample_subscriber ''DT'' 0 2) False) w1)
   in distinct (flow_keys (sent w2)) \<and> length (flow_keys (sent w2)) = 4"
proof -
  let ?p = "\<lambda>k. DeployWorkflow (sample_subscriber ''DT'' 0 k) False"
  let ?r = "\<lambda>k w. run accepting (?p k) w"
  let ?w1 = "snd (?r 1 world_init)" and ?w2 = "snd (?r 2 (snd (?r 1 world_init)))"
  obtain x1 where x1: "?r 1 world_init = (Done x1, ?w1)"
    using dt_sample_run(1) [of 1 world_init] by (metis prod.collapse)
  obtain x2 where x2: "?r 2 ?w1 = (Done x2, ?w2)"
    using dt_sample_run(1) [of 2 ?w1] by (metis prod.collapse)
  have np: "\<not> is_panic (?p k)" for k
    using dt_sample_run(2) [of k world_init] by (cases "?p k") (auto simp: is_panic_def)
  have 1: "((pool_step accepting) ^^ 8) ([?p 1, ?p 2], world_init) ([Ret x1, ?p 2], ?w1)"
    using run_schedule [OF x1, of 0 "[?p 1, ?p 2]"] np by (simp add: dt_sample_run(2) del: relpowp.simps)
  have 2: "((pool_step accepting) ^^ 8) ([Ret x1, ?p 2], ?w1) ([Ret x1, Ret x2], ?w2)"
    using run_schedule [OF x2, of 1 "[Ret x1, ?p 2]"] np
    by (simp add: dt_sample_run(2) is_panic_def del: relpowp.simps)
  have "((pool_step accepting) ^^ (8 + 8)) ([?p 1, ?p 2], world_init) ([Ret x1, Ret x2], ?w2)"
    by (rule relpowp_trans [OF 1 2])
  then have "\<exists>rs. sent ?w2 = sent world_init @ rs \<and> distinct (flow_keys rs)"
    by (intro flow_ids_unique [where ss = "[sample_subscriber ''DT'' 0 1, sample_subscriber ''DT'' 0 2]"
          and isGroup = False and n = "8 + 8" and E = accepting and ps' = "[Ret x1, Ret x2]"])
      (simp_all del: relpowp.simps)
  then have "distinct (flow_keys (sent ?w2))" by (auto simp: world_init_def)
  moreover have "length (flow_keys (sent ?w2)) = 4"
    unfolding dt_sample_run(3) length_append by (simp add: world_init_def)
  ultimately show ?thesis by (simp only: Let_def)
qed

end
