(* ===== verification/Subscriber_Tags.thy ===== *)
theory Subscriber_Tags
  imports Onu_Manager "HOL-Library.Multiset"
begin

text \<open>
  The VLAN tags of subscribers. The goroutines of the ONUs create their subscribers at the same time, and each new subscriber asks the
  allocators of \<open>core/utils.go\<close> for its two tags. The contracts of the allocators are extended to
  sequences that mix both kinds of requests; every interleaving of goroutines serves such a sequence, and what
  each of them got is in the subscribers it made.
\<close>

section \<open>Mixed sequences of requests\<close>

context tag_counter
begin

lemma serve_mixed:
  assumes "\<And>r p s. cls r = Some p \<Longrightarrow> get' r s = get p s" "\<And>r s. cls r = None \<Longrightarrow> view (snd (get' r s)) = view s"
  shows "map snd (filter (\<lambda>e. cls (fst e) = Some p) (fst (serve get' rs s))) =
     map (\<lambda>i. next_tag p s + of_nat i) [0..<count_list (map cls rs) (Some p)]"
proof (induction rs arbitrary: s)
  case (Cons r rs)
  have up: "[0..<Suc n] = 0 # map Suc [0..<n]" for n
    by (simp add: upt_conv_Cons map_Suc_upt del: upt_Suc)
  show ?case
  proof (cases "cls r")
    case None
    have "next_tag p (snd (get' r s)) = next_tag p s" using assms(2) [OF None, of s] by (simp add: next_tag_def)
    then show ?thesis using Cons.IH [of "snd (get' r s)"] None by (simp add: Let_def)
  next
    case (Some q)
    then show ?thesis
      using Cons.IH [of "snd (get' r s)"] assms(1) [OF Some, of s]
      by (cases "q = p") (simp_all add: up get_next_tag next_tag_get Let_def comp_def add.assoc del: upt_Suc)
  qed
qed simp

end

context stag_table
begin

lemma serve_mixed:
  assumes "\<And>r k s. cls r = Some k \<Longrightarrow> get' r s = get k s"
    and "\<And>r s. cls r = None \<Longrightarrow> view (snd (get' r s)) = view s \<and> inv (snd (get' r s)) = inv s \<and> room (snd (get' r s)) = room s"
    and "inv s" "length rs \<le> room s"
  shows "inv (snd (serve get' rs s)) \<and> view s \<subseteq>\<^sub>m view (snd (serve get' rs s)) \<and>
    room s \<le> length (filter (\<lambda>r. cls r \<noteq> None) rs) + room (snd (serve get' rs s)) \<and>
    (\<forall>(r, v) \<in> set (fst (serve get' rs s)). \<forall>k. cls r = Some k \<longrightarrow> view (snd (serve get' rs s)) k = Some v)"
  using assms(3,4)
proof (induction rs arbitrary: s)
  case (Cons r rs)
  define s' where "s' = snd (get' r s)"
  have one: "inv s' \<and> room s \<le> (if cls r = None then 0 else 1) + room s' \<and> view s \<subseteq>\<^sub>m view s' \<and> (\<forall>k. cls r = Some k \<longrightarrow> view s' k = Some (fst (get' r s)))"
  proof (cases "cls r")
    case (Some k)
    have room: "0 < room s" using Cons.prems(2) by simp
    have "view s \<subseteq>\<^sub>m view (snd (get k s))"
    proof (cases "view s k")
      case (Some w)
      with hit [OF Some] show ?thesis by simp
    qed (auto simp: view_get map_le_def)
    with keeps [OF Cons.prems(1) room, of k] uses [OF Cons.prems(1) room, of k] Some show ?thesis
      by (simp add: s'_def assms(1) view_get)
  qed (use assms(2) Cons.prems(1) in \<open>simp add: s'_def\<close>)
  then have "length rs \<le> room s'" using Cons.prems(2) by (simp split: if_splits)
  note ih = Cons.IH [OF one [THEN conjunct1] this]
  have "view (snd (serve get' rs s')) k = Some (fst (get' r s))" if "cls r = Some k" for k
  proof -
    have k: "view s' k = Some (fst (get' r s))" using one that by blast
    then have "k \<in> dom (view s')" by blast
    with ih have "view s' k = view (snd (serve get' rs s')) k" by (simp add: map_le_def)
    with k show ?thesis by simp
  qed
  moreover have "view s \<subseteq>\<^sub>m view (snd (serve get' rs s'))" using one ih map_le_trans by blast
  ultimately show ?case
    using ih one by (auto simp: Let_def s'_def [symmetric])
qed simp

end

text \<open>The requests of a subscriber of workflow \<open>wn\<close>, by the allocator they go to.\<close>

fun ctag_port :: "string \<Rightarrow> tag_req \<Rightarrow> uint32 option" where
  "ctag_port wn (ReqCtag w p) = (if w = wn then Some p else None)"
| "ctag_port wn _ = None"

fun stag_key :: "tag_req \<Rightarrow> DtStagKey option" where
  "stag_key (ReqStag w p onu uni) = (if w = ''DT'' then Some \<lparr>dk_ponIntf = p, dk_onuID = onu, dk_uniID = uni\<rparr> else None)"
| "stag_key _ = None"

lemma serve_snoc:
  "serve get (ks @ [k]) s =
     (fst (serve get ks s) @ [(k, fst (get k (snd (serve get ks s))))], snd (get k (snd (serve get ks s))))"
  by (induction ks arbitrary: s) (simp_all add: Let_def)

lemma served: "(r, v) \<in> set (fst (serve get rs s)) \<Longrightarrow> \<exists>s'. v = fst (get r s')"
  by (induction rs arbitrary: s) (auto simp: Let_def)

lemma ctag_view:
  assumes "ctag_port wn r = None" "wn = ''ATT'' \<or> wn = ''DT'' \<or> wn = ''TT''"
  shows "wn = ''ATT'' \<Longrightarrow> tg_AttCtag (snd (tag_section r s)) = tg_AttCtag s"
    and "wn = ''DT'' \<Longrightarrow> tg_DtCtag (snd (tag_section r s)) = tg_DtCtag s"
    and "wn = ''TT'' \<Longrightarrow> tg_TtCtag (snd (tag_section r s)) = tg_TtCtag s"
  using assms
  by (cases r; auto simp: GetCtag_def GetAttCtag_def GetDtCtag_def GetTtCtag_def GetStag_def GetDtStag_def Let_def
      split: option.splits if_splits)+

lemma ctags_served:
  assumes "known_workflow wn"
  shows "map snd (filter (\<lambda>e. ctag_port wn (fst e) = Some p) (fst (serve tag_section rs tag_init))) =
     map (\<lambda>i. ctag_start wn + of_nat i) [0..<count_list (map (ctag_port wn) rs) (Some p)]"
proof -
  have get: "tag_section r s = GetCtag wn p s" if "ctag_port wn r = Some p" for r p s
    using that by (cases r) (auto split: if_splits)
  consider "wn = ''ATT''" | "wn = ''DT''" | "wn = ''TT''" using assms by (auto simp: known_workflow_def)
  then show ?thesis
  proof cases
    case 1
    show ?thesis
      using att_ctag.serve_mixed [of "ctag_port wn" tag_section p rs tag_init] get ctag_view(1) [of wn] 1
      by (simp add: next_tag_init ctag_start_def)
  next
    case 2
    show ?thesis
      using dt_ctag.serve_mixed [of "ctag_port wn" tag_section p rs tag_init] get ctag_view(2) [of wn] 2
      by (simp add: next_tag_init ctag_start_def)
  next
    case 3
    show ?thesis
      using tt_ctag.serve_mixed [of "ctag_port wn" tag_section p rs tag_init] get ctag_view(3) [of wn] 3
      by (simp add: next_tag_init ctag_start_def)
  qed
qed

text \<open>The S-tags served to DT subscribers: two are the same exactly for the same UNI, and none is above the number of requests.\<close>

lemma stags_served:
  assumes "length rs < 2 ^ 32" "(r, v) \<in> set (fst (serve tag_section rs tag_init))" "stag_key r = Some k"
  shows "(r', v') \<in> set (fst (serve tag_section rs tag_init)) \<Longrightarrow> stag_key r' = Some k' \<Longrightarrow> v = v' \<longleftrightarrow> k = k'"
    and "1 \<le> unat v \<and> unat v \<le> length (filter (\<lambda>r. stag_key r \<noteq> None) rs)"
proof -
  let ?n = "length (filter (\<lambda>r. stag_key r \<noteq> None) rs)"
  have get: "tag_section r s = get_stag k s" if "stag_key r = Some k" for r k s
    using that by (cases r) (auto simp: get_stag_def GetStag_def split: if_splits)
  have other: "tg_DtStag (snd (tag_section r s)) = tg_DtStag s \<and> stag_inv (snd (tag_section r s)) = stag_inv s \<and>
      stag_room (snd (tag_section r s)) = stag_room s" if "stag_key r = None" for r s
    using that
    by (cases r) (auto simp: GetCtag_def GetAttCtag_def GetDtCtag_def GetTtCtag_def GetStag_def stag_inv_def stag_room_def
        split: option.splits if_splits)
  let ?t = "snd (serve tag_section rs tag_init)"
  have all: "stag_inv ?t" "stag_room tag_init \<le> ?n + stag_room ?t"
    "\<And>r v k. (r, v) \<in> set (fst (serve tag_section rs tag_init)) \<Longrightarrow> stag_key r = Some k \<Longrightarrow> tg_DtStag ?t k = Some v"
    using dt_stag.serve_mixed [of stag_key tag_section tag_init rs] get other assms(1) by auto
  show "v = v' \<longleftrightarrow> k = k'" if "(r', v') \<in> set (fst (serve tag_section rs tag_init))" "stag_key r' = Some k'"
  proof -
    have "tg_DtStag ?t k = Some v" "tg_DtStag ?t k' = Some v'" using all(3) assms(2,3) that by blast+
    then show ?thesis using dt_stag.injective [OF all(1)] by (metis option.inject)
  qed
  have "unat (tg_currDtStag ?t) < 2 ^ LENGTH(32)" by (rule unsigned_less)
  moreover have "?n < 2 ^ 32" using assms(1) length_filter_le [of "\<lambda>r. stag_key r \<noteq> None" rs] by (rule le_less_trans [rotated])
  ultimately have "unat (tg_currDtStag ?t) \<le> ?n"
    using all(2) by (simp add: stag_room_def tag_init_def)
  moreover have "1 \<le> unat v \<and> unat v \<le> unat (tg_currDtStag ?t)"
    using all(1) all(3) [OF assms(2,3)] by (auto simp: stag_inv_def)
  ultimately show "1 \<le> unat v \<and> unat v \<le> ?n" by simp
qed

section \<open>What goroutines get\<close>

text \<open>\<open>tagged p Q\<close>: whatever tags \<open>p\<close> gets, the requests it made and their answers are related by \<open>Q\<close> to the value it ends with.\<close>

primrec tagged :: "'a prog \<Rightarrow> ((tag_req \<times> uint32) list \<Rightarrow> 'a \<Rightarrow> bool) \<Rightarrow> bool" where
  "tagged (Ret x) Q = Q [] x"
| "tagged (Panic e) Q = True"
| "tagged (NextFlowID m k) Q = (\<forall>v. tagged (k v) Q)"
| "tagged (Tag r k) Q = (\<forall>v. tagged (k v) (\<lambda>l. Q ((r, v) # l)))"
| "tagged (LoadPon k) Q = (\<forall>v. tagged (k v) Q)"
| "tagged (AddPon d k) Q = (\<forall>v. tagged (k v) Q)"
| "tagged (Rand n k) Q = (\<forall>v. tagged (k v) Q)"
| "tagged (Call r k) Q = (\<forall>v. tagged (k v) Q)"
| "tagged (TpCreate r k) Q = (\<forall>v. tagged (k v) Q)"

lemma tagged_bindp:
  "tagged m R \<Longrightarrow> (\<And>l x. R l x \<Longrightarrow> tagged (f x) (\<lambda>l'. Q (l @ l'))) \<Longrightarrow> tagged (bindp m f) Q"
proof (induction m arbitrary: R Q)
  case (Tag r k)
  have "tagged (bindp (k v) f) (\<lambda>l. Q ((r, v) # l))" for v
    by (rule Tag.IH [OF rangeI, where R = "\<lambda>l. R ((r, v) # l)"]) (use Tag.prems in fastforce)+
  then show ?case by simp
qed fastforce+

lemma tagged_mono: "tagged p Q \<Longrightarrow> (\<And>l x. Q l x \<Longrightarrow> Q' l x) \<Longrightarrow> tagged p Q'"
  using tagged_bindp [of p Q Ret Q'] by simp

lemma tagged_step1:
  assumes "tagged p Q" "step1 E p w = Some (p', w')" "\<And>r k. p \<noteq> Tag r k"
  shows "tags w' = tags w \<and> tagged p' Q"
  using assms by (cases p) (auto simp: flow_id_section_def Let_def simp del: split_paired_All)

text \<open>A log of the requests for tags that explains the state of the allocators and what every goroutine got.\<close>

definition tag_log :: "(nat \<Rightarrow> (tag_req \<times> uint32) list \<Rightarrow> 'a \<Rightarrow> bool) \<Rightarrow> (nat \<times> tag_req \<times> uint32) list \<Rightarrow> 'a prog list \<Rightarrow> world \<Rightarrow> bool" where
  "tag_log Q log ps w \<longleftrightarrow>
     serve tag_section (map (fst \<circ> snd) log) tag_init = (map snd log, tags w) \<and>
     (\<forall>e \<in> set log. fst e < length ps) \<and>
     (\<forall>i<length ps. tagged (ps ! i) (\<lambda>l. Q i (own_calls i log @ l)))"

lemma tag_log_other:
  assumes "tag_log Q log ps w" "i < length ps" "tags w' = tags w" "tagged p' (\<lambda>l. Q i (own_calls i log @ l))"
  shows "tag_log Q log (ps[i := p']) w'"
  using assms by (auto simp: tag_log_def nth_list_update)

lemma tag_log_tag:
  assumes "tag_log Q log ps w" "i < length ps" "ps ! i = Tag r k"
  shows "tag_log Q (log @ [(i, r, fst (tag_section r (tags w)))]) (ps[i := k (fst (tag_section r (tags w)))])
     (w\<lparr>tags := snd (tag_section r (tags w))\<rparr>)"
proof -
  let ?v = "fst (tag_section r (tags w))"
  have own: "own_calls j [(i, r, ?v)] = (if j = i then [(r, ?v)] else [])" for j
    by (simp add: own_calls_def)
  have "tagged (ps[i := k ?v] ! j) (\<lambda>l. Q j (own_calls j (log @ [(i, r, ?v)]) @ l))" if "j < length ps" for j
  proof -
    have "tagged (ps ! j) (\<lambda>l. Q j (own_calls j log @ l))" using assms(1) that by (simp add: tag_log_def)
    then show ?thesis using assms(2,3) that by (cases "j = i") (simp_all add: own)
  qed
  with assms(1,2) show ?thesis by (auto simp: tag_log_def serve_snoc)
qed

lemma tag_log_step:
  assumes "tag_log Q log ps w" "pool_step E (ps, w) (ps', w')"
  shows "\<exists>log'. tag_log Q log' ps' w'"
proof -
  obtain i p' where i: "i < length ps" "step1 E (ps ! i) w = Some (p', w')" "ps' = ps[i := p']"
    using assms(2) by (auto simp: pool_step_iff)
  have q: "tagged (ps ! i) (\<lambda>l. Q i (own_calls i log @ l))" using assms(1) i(1) by (simp add: tag_log_def)
  show ?thesis
  proof (cases "\<exists>r k. ps ! i = Tag r k")
    case True
    then obtain r k where k: "ps ! i = Tag r k" by blast
    with tag_log_tag [OF assms(1) i(1) k] i(2,3) show ?thesis by auto
  next
    case False
    have "tags w' = tags w \<and> tagged p' (\<lambda>l. Q i (own_calls i log @ l))"
      by (rule tagged_step1 [OF q i(2)]) (use False in blast)
    with tag_log_other [OF assms(1) i(1)] i(3) show ?thesis by blast
  qed
qed

lemma tag_log_steps:
  assumes "pool_steps E (ps, w) (ps', w')" "tags w = tag_init" "\<And>i. i < length ps \<Longrightarrow> tagged (ps ! i) (Q i)"
  shows "\<exists>log. tag_log Q log ps' w' \<and> length ps' = length ps"
  using assms
proof (induction "(ps, w)" "(ps', w')" arbitrary: ps' w' rule: pool_steps.induct)
  case none
  then show ?case by (intro exI [of _ "[]"]) (simp add: tag_log_def own_calls_def)
next
  case (more d)
  obtain ps1 w1 where d: "d = (ps1, w1)" by (cases d)
  from more.hyps(2) [OF d] more.prems obtain log where "tag_log Q log ps1 w1" "length ps1 = length ps" by blast
  with tag_log_step [of Q log ps1 w1 E ps' w'] more.hyps(3) d show ?case by (auto simp: pool_step_iff)
qed

section \<open>Subscribers\<close>

text \<open>What a subscriber asked for.\<close>

definition sub_tags :: "Subscriber \<Rightarrow> (tag_req \<times> uint32) list" where
  "sub_tags s =
     [(ReqCtag (WorkflowName (TestConfig s)) (PonIntf s), Ctag s),
      (ReqStag (WorkflowName (TestConfig s)) (PonIntf s) (OnuID s) (UniID s), Stag s)]"

definition made_by :: "OnuDevice \<Rightarrow> nat \<Rightarrow> (tag_req \<times> uint32) list \<Rightarrow> OnuDevice \<times> Subscriber list \<Rightarrow> bool" where
  "made_by onu n l r \<longleftrightarrow> l = concat (map sub_tags (snd r)) \<and> length (snd r) = n \<and>
     list_all (\<lambda>s. PonIntf s = od_PonIntf onu \<and> TestConfig s = od_testConfig onu) (snd r)"

lemma tagged_make_subscriber:
  "tagged (make_subscriber onu k) (\<lambda>l s. l = sub_tags s \<and> PonIntf s = od_PonIntf onu \<and> TestConfig s = od_testConfig onu)"
  by (simp add: make_subscriber_def Let_def sub_tags_def)

lemma tagged_start_subscribers: "tagged (start_subscribers onu k n) (made_by onu n)"
proof (induction n arbitrary: onu k)
  case (Suc n)
  show ?case
    unfolding start_subscribers.simps
  proof (rule tagged_bindp [OF tagged_make_subscriber], elim conjE)
    fix l s assume s: "l = sub_tags s" "PonIntf s = od_PonIntf onu" "TestConfig s = od_testConfig onu"
    let ?onu = "onu\<lparr>od_SubscriberMap := (od_SubscriberMap onu)(SubscriberName s \<mapsto> s)\<rparr>"
    show "tagged (bindp (start_subscribers ?onu (Suc k) n) (\<lambda>(onu', ss). Ret (onu', s # ss)))
        (\<lambda>l'. made_by onu (Suc n) (l @ l'))"
      by (rule tagged_bindp [OF Suc.IH]) (use s in \<open>auto simp: made_by_def split: prod.split\<close>)
  qed
qed (simp add: made_by_def)

lemma tagged_OnuDevice_Start:
  "tagged (OnuDevice_Start onu) (made_by onu (unat (SubscribersPerOnu (od_testConfig onu))))"
  unfolding OnuDevice_Start_def
  by (rule tagged_mono [OF tagged_start_subscribers]) (simp add: made_by_def)

text \<open>The entries of a log are those of its goroutines.\<close>

lemma count_upt: "count_list [0..<n] i = (if i < n then 1 else 0)"
  by (induction n) auto

lemma mset_own_calls:
  assumes "\<forall>e \<in> set log. fst e < n"
  shows "mset (map snd log) = mset (concat (map (\<lambda>i. own_calls i log) [0..<n]))"
  using assms
proof (induction log)
  case (Cons e log)
  have "mset (concat (map (\<lambda>i. own_calls i (e # log)) is)) =
      mset (concat (map (\<lambda>i. own_calls i log) is)) + replicate_mset (count_list is (fst e)) (snd e)" for "is"
    by (induction "is") (auto simp: own_calls_def)
  moreover have "count_list [0..<n] (fst e) = 1" using Cons.prems by (simp add: count_upt)
  ultimately show ?case using Cons by simp
qed (simp add: own_calls_def)

lemma distinct_by_group:
  assumes "\<And>p. distinct (map f (filter (\<lambda>s. g s = p) xs))"
  shows "distinct (map (\<lambda>s. (g s, f s)) xs)"
  using assms
proof (induction xs)
  case (Cons x xs)
  have "distinct (map f (filter (\<lambda>s. g s = p) xs))" for p
    using Cons.prems [of p] by (cases "g x = p") simp_all
  moreover have "f x \<notin> f ` {s \<in> set xs. g s = g x}" using Cons.prems [of "g x"] by simp
  ultimately show ?case using Cons.IH by auto
qed simp

text \<open>All goroutines have ended: the log of their requests against the subscribers they made.\<close>

lemma finished_log:
  assumes "pool_steps E (map OnuDevice_Start onus, w) (map Ret rs, w')" "tags w = tag_init"
  shows "\<exists>log. serve tag_section (map fst log) tag_init = (log, tags w') \<and>
     mset log = mset (concat (map sub_tags (concat (map snd rs)))) \<and>
     length (concat (map snd rs)) = sum_list (map (\<lambda>onu. unat (SubscribersPerOnu (od_testConfig onu))) onus) \<and>
     (\<forall>s \<in> set (concat (map snd rs)). \<exists>onu \<in> set onus. TestConfig s = od_testConfig onu)"
proof -
  let ?n = "\<lambda>onu. unat (SubscribersPerOnu (od_testConfig onu))"
  let ?Q = "\<lambda>i. made_by (onus ! i) (?n (onus ! i))"
  have t: "tagged (map OnuDevice_Start onus ! i) (?Q i)" if "i < length (map OnuDevice_Start onus)" for i
    using tagged_OnuDevice_Start that by simp
  obtain log where log: "tag_log ?Q log (map Ret rs) w'" and len: "length rs = length onus"
    using tag_log_steps [OF assms t] by auto
  have made: "made_by (onus ! i) (?n (onus ! i)) (own_calls i log) (rs ! i)" if "i < length rs" for i
    using log that by (simp add: tag_log_def)
  have "mset (map snd log) = mset (concat (map (\<lambda>i. own_calls i log) [0..<length rs]))"
    using log by (intro mset_own_calls) (simp add: tag_log_def)
  also have "map (\<lambda>i. own_calls i log) [0..<length rs] = map (\<lambda>r. concat (map sub_tags (snd r))) rs"
    by (rule nth_equalityI) (use made in \<open>simp_all add: made_by_def\<close>)
  also have "concat (map (\<lambda>r. concat (map sub_tags (snd r))) rs) = concat (map sub_tags (concat (map snd rs)))"
    by (induction rs) simp_all
  finally have m: "mset (map snd log) = mset (concat (map sub_tags (concat (map snd rs))))" .
  have "map (length \<circ> snd) rs = map ?n onus"
    by (rule nth_equalityI) (use made len in \<open>simp_all add: made_by_def\<close>)
  then have n: "length (concat (map snd rs)) = sum_list (map ?n onus)" by (simp add: length_concat)
  have c: "\<exists>onu \<in> set onus. TestConfig s = od_testConfig onu" if s: "s \<in> set (concat (map snd rs))" for s
  proof -
    obtain r where r: "r \<in> set rs" "s \<in> set (snd r)" using s by auto
    then obtain i where i: "i < length rs" "s \<in> set (snd (rs ! i))" by (auto simp: in_set_conv_nth)
    then have "TestConfig s = od_testConfig (onus ! i)" using made by (auto simp: made_by_def list_all_iff)
    with i(1) len show ?thesis by auto
  qed
  have "map (fst \<circ> snd) log = map fst (map snd log)" by simp
  then have "serve tag_section (map fst (map snd log)) tag_init = (map snd log, tags w')"
    using log by (simp only: tag_log_def)
  with m n c show ?thesis by blast
qed

text \<open>The entries of a log that match a subscriber's.\<close>

lemma ctags_of_subs:
  assumes "\<forall>s \<in> set ss. WorkflowName (TestConfig s) = wn"
  shows "map snd (filter (\<lambda>e. ctag_port wn (fst e) = Some p) (concat (map sub_tags ss))) =
     map Ctag (filter (\<lambda>s. PonIntf s = p) ss)"
  using assms by (induction ss) (auto simp: sub_tags_def)

lemma stag_requests_of_subs:
  "length (filter (\<lambda>r. stag_key r \<noteq> None) (map fst (concat (map sub_tags ss)))) \<le> length ss"
  by (induction ss) (auto simp: sub_tags_def)

lemma length_sub_tags: "length (concat (map sub_tags ss)) = 2 * length ss"
  by (induction ss) (auto simp: sub_tags_def)

section \<open>Properties\<close>

text \<open>
  C9: when the goroutines of any ONUs of one workflow, with at most 4093 subscribers in all, have created their subscribers, under any
  interleaving from the start of the program, no two subscribers of a PON port have the same C-tag, and the C-tags are valid VLANs (1 to
  4094). The S-tags of DT are valid VLANs too and are the same exactly for the same UNI; those of ATT and TT are the
  number of the PON port plus two.
\<close>

theorem subscriber_tags:
  assumes "\<forall>onu \<in> set onus. WorkflowName (od_testConfig onu) = wn" "known_workflow wn"
    and "sum_list (map (\<lambda>onu. unat (SubscribersPerOnu (od_testConfig onu))) onus) \<le> 4093"
    and "pool_steps E (map OnuDevice_Start onus, w) (map Ret rs, w')" "tags w = tag_init"
  shows "let ss = concat (map snd rs) in
     distinct (map (\<lambda>s. (PonIntf s, Ctag s)) ss) \<and> (\<forall>s \<in> set ss. 1 \<le> unat (Ctag s) \<and> unat (Ctag s) \<le> 4094) \<and>
     (\<forall>s \<in> set ss. if wn = ''DT'' then 1 \<le> unat (Stag s) \<and> unat (Stag s) \<le> 4093 else Stag s = PonIntf s + 2) \<and>
     (wn = ''DT'' \<longrightarrow> (\<forall>s \<in> set ss. \<forall>s' \<in> set ss.
        Stag s = Stag s' \<longleftrightarrow> (PonIntf s, OnuID s, UniID s) = (PonIntf s', OnuID s', UniID s')))"
proof -
  let ?ss = "concat (map snd rs)"
  obtain log where log: "serve tag_section (map fst log) tag_init = (log, tags w')"
    "mset log = mset (concat (map sub_tags ?ss))"
    "length ?ss = sum_list (map (\<lambda>onu. unat (SubscribersPerOnu (od_testConfig onu))) onus)"
    "\<forall>s \<in> set ?ss. \<exists>onu \<in> set onus. TestConfig s = od_testConfig onu"
    using finished_log [OF assms(4,5)] by blast
  have n: "length ?ss \<le> 4093" using log(3) assms(3) by (rule ord_eq_le_trans)
  have wn: "\<forall>s \<in> set ?ss. WorkflowName (TestConfig s) = wn"
  proof
    fix s assume "s \<in> set ?ss"
    with log(4) obtain onu where "onu \<in> set onus" "TestConfig s = od_testConfig onu" by blast
    with assms(1) show "WorkflowName (TestConfig s) = wn" by simp
  qed
  have len: "length log = 2 * length ?ss" using mset_eq_length [OF log(2)] length_sub_tags by (rule trans)
  define c where "c p = map snd (filter (\<lambda>e. ctag_port wn (fst e) = Some p) log)" for p
  have ctags: "c p = map (\<lambda>i. ctag_start wn + of_nat i) [0..<length (c p)]" for p
  proof -
    have e: "c p = map (\<lambda>i. ctag_start wn + of_nat i) [0..<count_list (map (ctag_port wn) (map fst log)) (Some p)]"
      using ctags_served [OF assms(2), of p "map fst log"] unfolding log(1) by (simp add: c_def)
    then have "length (c p) = count_list (map (ctag_port wn) (map fst log)) (Some p)" by (metis length_map length_upt minus_nat.diff_0)
    with e show ?thesis by simp
  qed
  have "mset (c p) = mset (map Ctag (filter (\<lambda>s. PonIntf s = p) ?ss))" for p
    unfolding c_def ctags_of_subs [OF wn, symmetric] by (simp only: mset_map mset_filter log(2))
  note same = mset_eq_imp_distinct_iff [OF this] mset_eq_length [OF this] mset_eq_setD [OF this]
  have few: "length (c p) \<le> 4093" for p
  proof (rule order_trans [OF _ n])
    show "length (c p) \<le> length ?ss" unfolding same(2) length_map by (rule length_filter_le)
  qed
  have "distinct (c p)" for p
    by (subst ctags, rule distinct_counter) (use few [of p] in simp)
  then have distinct: "distinct (map (\<lambda>s. (PonIntf s, Ctag s)) ?ss)"
    using same(1) by (intro distinct_by_group) blast
  have range: "1 \<le> unat (Ctag s) \<and> unat (Ctag s) \<le> 4094" if "s \<in> set ?ss" for s
  proof -
    have "Ctag s \<in> set (c (PonIntf s))" unfolding same(3) using that by auto
    then have "Ctag s \<in> (\<lambda>i. ctag_start wn + of_nat i) ` {0..<length (c (PonIntf s))}"
      by (subst (asm) ctags) simp
    then obtain i where i: "i < length (c (PonIntf s))" "Ctag s = ctag_start wn + of_nat i" by auto
    then have "i < 4093" using few [of "PonIntf s"] by simp
    moreover have "unat (ctag_start wn) \<in> {1, 2}" by (simp add: ctag_start_def)
    ultimately show ?thesis unfolding i(2) by (subst (1 2) unat_counter) auto
  qed
  have entry: "(ReqStag wn (PonIntf s) (OnuID s) (UniID s), Stag s) \<in> set (fst (serve tag_section (map fst log) tag_init))"
    if "s \<in> set ?ss" for s
  proof -
    have "(ReqStag wn (PonIntf s) (OnuID s) (UniID s), Stag s) \<in> set (sub_tags s)"
      using bspec [OF wn that] by (simp add: sub_tags_def)
    then have "(ReqStag wn (PonIntf s) (OnuID s) (UniID s), Stag s) \<in> set (concat (map sub_tags ?ss))"
      using that unfolding set_concat set_map by blast
    then show ?thesis unfolding log(1) fst_conv mset_eq_setD [OF log(2)] .
  qed
  have few_stags: "length (filter (\<lambda>r. stag_key r \<noteq> None) (map fst log)) \<le> 4093"
  proof -
    have "mset (filter (\<lambda>r. stag_key r \<noteq> None) (map fst log)) =
        mset (filter (\<lambda>r. stag_key r \<noteq> None) (map fst (concat (map sub_tags ?ss))))"
      by (simp only: mset_map mset_filter log(2))
    from mset_eq_length [OF this] stag_requests_of_subs [of ?ss] n show ?thesis by simp
  qed
  have short: "length (map fst log) < 2 ^ 32" using len n by simp
  have stag: "if wn = ''DT'' then 1 \<le> unat (Stag s) \<and> unat (Stag s) \<le> 4093 else Stag s = PonIntf s + 2" if "s \<in> set ?ss" for s
  proof (cases "wn = ''DT''")
    case True
    with stags_served(2) [OF short entry [OF that]] few_stags show ?thesis by simp
  next
    case False
    then have "wn = ''ATT'' \<or> wn = ''TT''" using assms(2) by (simp add: known_workflow_def)
    with served [OF entry [OF that]] show ?thesis by (auto simp: GetStag_def GetAttStag_def GetTtStag_def)
  qed
  have "Stag s = Stag s' \<longleftrightarrow> (PonIntf s, OnuID s, UniID s) = (PonIntf s', OnuID s', UniID s')"
    if "wn = ''DT''" "s \<in> set ?ss" "s' \<in> set ?ss" for s s'
    using stags_served(1) [OF short entry [OF that(2)] _ entry [OF that(3)]] that(1) by simp
  with distinct range stag show ?thesis unfolding Let_def by blast
qed

text \<open>Two DT ONUs on one port, with two and one subscribers, started one after the other.\<close>

definition tag_onu :: "uint32 \<Rightarrow> uint64 \<Rightarrow> OnuDevice" where
  "tag_onu onu n = \<lparr>od_SerialNum = ''ABCD'', od_OnuID = onu, od_PonIntf = 3, od_OnuProvisionStartTime = 0,
     od_OnuProvisionEndTime = None, od_OnuProvisionDurationInMs = 0, od_Reason = [], od_SubscriberMap = Map.empty,
     od_testConfig = (sample_config ''DT'')\<lparr>SubscribersPerOnu := n\<rparr>, od_rsrMgr = sample_manager 3\<rparr>"

theorem subscriber_tags_witness:
  "\<exists>rs w'. pool_steps accepting (map OnuDevice_Start [tag_onu 1 2, tag_onu 2 1], world_init) (map Ret rs, w') \<and>
     (let ss = concat (map snd rs) in
       length ss = 3 \<and> distinct (map (\<lambda>s. (PonIntf s, Ctag s)) ss) \<and> distinct (map Stag ss) \<and>
       list_all (\<lambda>s. 1 \<le> unat (Ctag s) \<and> unat (Ctag s) \<le> 4094 \<and> 1 \<le> unat (Stag s) \<and> unat (Stag s) \<le> 4093) ss)"
proof -
  let ?onus = "[tag_onu 1 2, tag_onu 2 1]"
  have started: "\<exists>onu' ss w'. run accepting (OnuDevice_Start (tag_onu onu n)) w = (Done (onu', ss), w') \<and>
      map UniID ss = map of_nat [0..<unat n] \<and> list_all (\<lambda>s. OnuID s = onu \<and> PonIntf s = 3) ss" for onu n w
    using onu_start_subscribers [of accepting "tag_onu onu n" w] by (fastforce simp: tag_onu_def list_all_iff)
  obtain o1 ss1 w1 where 1: "run accepting (OnuDevice_Start (tag_onu 1 2)) world_init = (Done (o1, ss1), w1)"
    "map UniID ss1 = [0, 1]" "list_all (\<lambda>s. OnuID s = 1 \<and> PonIntf s = 3) ss1"
    using started [of 1 2 world_init] by (auto simp: upt_rec)
  obtain o2 ss2 w2 where 2: "run accepting (OnuDevice_Start (tag_onu 2 1)) w1 = (Done (o2, ss2), w2)"
    "map UniID ss2 = [0]" "list_all (\<lambda>s. OnuID s = 2 \<and> PonIntf s = 3) ss2"
    using started [of 2 1 w1] by (auto simp: upt_rec)
  obtain a b c where ss: "ss1 = [a, b]" "ss2 = [c]" using 1(2) 2(2) by (auto simp: map_eq_Cons_conv)
  have quiet: "\<not> is_panic (OnuDevice_Start (tag_onu onu n))" for onu n
    by (cases "unat n") (simp_all add: OnuDevice_Start_def make_subscriber_def Let_def is_panic_def tag_onu_def)
  have run: "pool_steps accepting (map OnuDevice_Start ?onus, world_init) (map Ret [(o1, ss1), (o2, ss2)], w2)"
    using pool_runs_two [OF quiet quiet, of accepting 1 2 world_init "(o1, ss1)" 2 1] 1(1) 2(1)
    by (auto simp: result_prog_def intro: pool_runs_steps)
  have hyps: "\<forall>onu \<in> set ?onus. WorkflowName (od_testConfig onu) = ''DT''" "known_workflow ''DT''"
    "sum_list (map (\<lambda>onu. unat (SubscribersPerOnu (od_testConfig onu))) ?onus) \<le> 4093" "tags world_init = tag_init"
    by (simp_all add: tag_onu_def known_workflow_def world_init_def)
  note t = subscriber_tags [OF hyps(1-3) run hyps(4), unfolded Let_def]
  show ?thesis
    using run t 1(2,3) 2(2,3) ss
    by (intro exI [of _ "[(o1, ss1), (o2, ss2)]"] exI [of _ w2]) (auto simp: Let_def)
qed

end
