(* ===== verification/Multicast.thy ===== *)
theory Multicast
  imports Workflow_Manager
begin

text \<open>
  The group test of the TT workflow (\<open>ProvisionMulticastFlow\<close> in \<open>core/tt\_workflow.go\<close>): the shared word \<open>lastPonIntf\<close> is meant to let
  the first subscriber of each PON port create the multicast scheduler and queue of the port. It is read and incremented by two
  atomic operations, with a comparison between them. One after the other the group tests of a port do what is meant; two that overlap may
  both be first, and then the word has passed the next port, for good.
\<close>

section \<open>Definitions\<close>

text \<open>The kinds of the requests sent.\<close>

fun kind :: "rpc \<Rightarrow> string" where
  "kind (CreateTrafficSchedulers t) = ''schedulers''"
| "kind (CreateTrafficQueues q) = ''queues''"
| "kind (RemoveTrafficQueues q) = ''remove queues''"
| "kind (FlowAdd f) = ''flow''"
| "kind (PerformGroupOp g) = ''group''"
| "kind (ActivateOnu r) = ''activate''"

section \<open>Lemmas\<close>

lemma deploy_group:
  assumes "WorkflowName (TestConfig subs) = ''TT''"
  shows "DeployWorkflow subs True = bindp (tt_ProvisionMulticastFlow subs) (\<lambda>err. Ret (with_reason subs err))"
  using assms
  by (auto simp: DeployWorkflow_def TtWorkFlow_def with_reason_def intro!: arg_cong [where f = "bindp _"] ext
      split: option.split)

lemma run_AddMulticastSched:
  assumes "ready subs" "gd_Subs grp = subs"
  shows "\<exists>t. run E (AddMulticastSched grp) w =
     (Done (if reply E (sent w) (CreateTrafficSchedulers t) \<noteq> None then Some (ErrorString ''SCHED_CREATION_FAILED'') else None),
      w\<lparr>sent := sent w @ [CreateTrafficSchedulers t]\<rparr>)"
proof -
  obtain us ds where "tp_UsScheduler (the_tp subs) = Some us" "tp_DsScheduler (the_tp subs) = Some ds"
    using assms(1) by (rule ready_schedulers)
  then show ?thesis
    using assms by (auto simp: AddMulticastSched_def Let_def ready_pointer GetTrafficScheduler_Some run_bindp)
qed

lemma run_AddMulticastFlow:
  "\<exists>f err. run E (AddMulticastFlow grp) w =
     (Done err, w\<lparr>flow_id := (flow_id w)(rm_intfID (RsrMgr (gd_Subs grp)) := flow_id w (rm_intfID (RsrMgr (gd_Subs grp))) + 1),
        draws := draws w + 1, sent := sent w @ [FlowAdd f]\<rparr>) \<and>
     (reply E (sent w) (FlowAdd f) = None \<longrightarrow> err = None)"
  by (auto simp: AddMulticastFlow_def Let_def run_bindp run_GetFlowID GenerateMulticastMac_def send_raw_flow_def)

text \<open>The blocks on a device that accepts everything, by the kinds of what they send.\<close>

lemma run_blocks:
  assumes "\<And>h r. reply E h r = None" "ready subs" "gd_Subs grp = subs"
  shows "\<exists>w'. run E (AddMulticastSched grp) w = (Done None, w') \<and> map kind (sent w') = map kind (sent w) @ [''schedulers''] \<and>
      lastPonIntf w' = lastPonIntf w"
    and "\<exists>w'. run E (AddMulticastFlow grp) w = (Done None, w') \<and> map kind (sent w') = map kind (sent w) @ [''flow''] \<and>
      lastPonIntf w' = lastPonIntf w"
    and "\<exists>w'. run E (CreateGroup grp) w = (Done None, w') \<and> map kind (sent w') = map kind (sent w) @ [''group''] \<and>
      lastPonIntf w' = lastPonIntf w"
    and "\<exists>w'. run E (OpMulticastTrafficQueue grp True) w = (Done None, w') \<and>
      map kind (sent w') = map kind (sent w) @ [''queues''] \<and> lastPonIntf w' = lastPonIntf w"
    and "\<exists>w'. run E (OpMemberToGroup grp True) w = (Done None, w') \<and> map kind (sent w') = map kind (sent w) @ [''group''] \<and>
      lastPonIntf w' = lastPonIntf w"
proof -
  show "\<exists>w'. run E (AddMulticastSched grp) w = (Done None, w') \<and> map kind (sent w') = map kind (sent w) @ [''schedulers''] \<and>
      lastPonIntf w' = lastPonIntf w"
    using run_AddMulticastSched [OF assms(2,3), of E w] assms(1) by auto
  show "\<exists>w'. run E (AddMulticastFlow grp) w = (Done None, w') \<and> map kind (sent w') = map kind (sent w) @ [''flow''] \<and>
      lastPonIntf w' = lastPonIntf w"
    using run_AddMulticastFlow [of E grp w] assms(1) by auto
qed (simp_all add: assms(1) CreateGroup_def OpMulticastTrafficQueue_def OpMemberToGroup_def PerformGroupOperation_def Let_def)

lemma run_queue_flow:
  assumes E: "\<And>h r. reply E h r = None" and "ready subs"
  shows "\<exists>w'. run E (AddMulticastQueueFlow (multicast_group subs first)) w = (Done None, w') \<and>
     map kind (sent w') = map kind (sent w) @ (if PonIntf subs = 0 then [''group'', ''flow''] else []) @
       (if first then [''schedulers'', ''queues''] else []) @ [''group''] \<and>
     lastPonIntf w' = lastPonIntf w"
proof -
  have step: "\<exists>w'. run E (and_then (when_p b m) n) w = (Done None, w') \<and> map kind (sent w') = map kind (sent w) @
        (if b then [k] else []) @ ks \<and> lastPonIntf w' = lastPonIntf w"
    if m: "\<And>w. \<exists>w'. run E m w = (Done None, w') \<and> map kind (sent w') = map kind (sent w) @ [k] \<and>
        lastPonIntf w' = lastPonIntf w"
      and n: "\<And>w. \<exists>w'. run E n w = (Done None, w') \<and> map kind (sent w') = map kind (sent w) @ ks \<and>
        lastPonIntf w' = lastPonIntf w" for b m n k ks w
  proof (cases b)
    case True
    obtain w1 where 1: "run E m w = (Done None, w1)" "map kind (sent w1) = map kind (sent w) @ [k]"
      "lastPonIntf w1 = lastPonIntf w" using m by blast
    obtain w2 where "run E n w1 = (Done None, w2)" "map kind (sent w2) = map kind (sent w1) @ ks"
      "lastPonIntf w2 = lastPonIntf w1" using n by blast
    with 1 True show ?thesis by (simp add: run_and_then when_p_def)
  next
    case False
    with n [of w] show ?thesis by (simp add: run_and_then when_p_def)
  qed
  let ?grp = "multicast_group subs first"
  have grp: "gd_Subs ?grp = subs" by (simp add: multicast_group_def)
  note blocks = run_blocks [OF E assms(2) grp]
  have last: "\<exists>w'. run E (when_p True (OpMemberToGroup ?grp True)) w = (Done None, w') \<and>
      map kind (sent w') = map kind (sent w) @ [''group''] \<and> lastPonIntf w' = lastPonIntf w" for w
    using blocks(5) by (simp add: when_p_def)
  have flags: "gd_AddGroup ?grp = (PonIntf subs = 0)" "gd_AddFlow ?grp = (PonIntf subs = 0)"
    "gd_AddSched ?grp = first" "gd_AddQueue ?grp = first" "gd_AddMember ?grp = True"
    by (simp_all add: multicast_group_def)
  note s4 = step [OF blocks(4) last, where b = first]
  note s3 = step [OF blocks(1) s4, where b = first]
  note s2 = step [OF blocks(2) s3, where b = "PonIntf subs = 0"]
  note s1 = step [OF blocks(3) s2, where b = "PonIntf subs = 0" and w = w]
  show ?thesis using s1 by (auto simp: AddMulticastQueueFlow_def flags)
qed

lemma run_deploy_group:
  assumes "\<And>h r. reply E h r = None" "ready subs" "WorkflowName (TestConfig subs) = ''TT''"
    "0 < di_PonPorts (rm_deviceInfo (RsrMgr subs))"
  shows "\<exists>w'. run E (DeployWorkflow subs True) w = (Done (with_reason subs None), w') \<and>
     map kind (sent w') = map kind (sent w) @ (if PonIntf subs = 0 then [''group'', ''flow''] else []) @
       (if PonIntf subs = lastPonIntf w then [''schedulers'', ''queues''] else []) @ [''group''] \<and>
     lastPonIntf w' = lastPonIntf w + (if PonIntf subs = lastPonIntf w then 1 else 0)"
proof -
  have ports: "di_PonPorts (rm_deviceInfo (RsrMgr subs)) \<noteq> 0" using assms(4) by auto
  show ?thesis
  proof (cases "PonIntf subs = lastPonIntf w")
    case True
    from run_queue_flow [OF assms(1,2), of True "w\<lparr>lastPonIntf := lastPonIntf w + 1\<rparr>"]
    show ?thesis using True ports
      by (auto simp: deploy_group [OF assms(3)] tt_ProvisionMulticastFlow_def run_bindp)
  next
    case False
    from run_queue_flow [OF assms(1,2), of False w]
    show ?thesis using False ports
      by (auto simp: deploy_group [OF assms(3)] tt_ProvisionMulticastFlow_def run_bindp)
  qed
qed

section \<open>Deployments one after the other\<close>



definition group_tester :: "Subscriber \<Rightarrow> bool" where
  "group_tester subs \<longleftrightarrow> ready subs \<and> WorkflowName (TestConfig subs) = ''TT'' \<and>
     0 < di_PonPorts (rm_deviceInfo (RsrMgr subs))"





section \<open>Properties\<close>


lemma sample_tester [simp]: "group_tester (sample_subscriber ''TT'' pon onu)"
  by (simp add: group_tester_def)


section \<open>The race\<close>

text \<open>The scheduler and queue requests for one PON port.\<close>

fun sched_for :: "uint32 \<Rightarrow> rpc \<Rightarrow> bool" where
  "sched_for pon (CreateTrafficSchedulers t) = (tss_IntfId t = pon)"
| "sched_for pon _ = False"

fun queue_for :: "uint32 \<Rightarrow> rpc \<Rightarrow> bool" where
  "queue_for pon (CreateTrafficQueues q) = (tqs_IntfId q = pon)"
| "queue_for pon _ = False"

definition count_for :: "(rpc \<Rightarrow> bool) \<Rightarrow> rpc list \<Rightarrow> nat" where
  "count_for P rs = length (filter P rs)"

lemma count_for_append [simp]: "count_for P (rs @ ss) = count_for P rs + count_for P ss"
  by (simp add: count_for_def)

lemma own_requests_kind:
  assumes "\<forall>r \<in> set rs. for_subscriber subs r"
  shows "count_for (sched_for (PonIntf subs)) rs = count_list (map kind rs) ''schedulers''"
    and "count_for (queue_for (PonIntf subs)) rs = count_list (map kind rs) ''queues''"
proof -
  have "sched_for (PonIntf subs) r \<longleftrightarrow> kind r = ''schedulers''" "queue_for (PonIntf subs) r \<longleftrightarrow> kind r = ''queues''"
    if "for_subscriber subs r" for r using that by (cases r; simp)+
  with assms show "count_for (sched_for (PonIntf subs)) rs = count_list (map kind rs) ''schedulers''"
    "count_for (queue_for (PonIntf subs)) rs = count_list (map kind rs) ''queues''"
    by (induction rs) (auto simp: count_for_def)
qed

text \<open>What a subscriber still does after it found the word at its own port and incremented it.\<close>

abbreviation as_first :: "Subscriber \<Rightarrow> Subscriber prog" where
  "as_first s \<equiv> bindp (AddMulticastQueueFlow (multicast_group s True)) (\<lambda>err. Ret (with_reason s err))"

lemma as_first_quiet:
  assumes "ready s"
  shows "\<not> is_panic (as_first s)"
proof (rule safe_not_panic)
  show "safe (for_subscriber s) any (as_first s)"
    using safe_AddMulticastQueueFlow [of "multicast_group s True"] assms
    by (intro safe_bindp [where R = any]) (simp_all add: multicast_group_def any_def)
qed

lemma run_as_first:
  assumes E: "\<And>h r. reply E h r = None" and s: "ready s"
  shows "\<exists>w'. run E (as_first s) w = (Done (with_reason s None), w') \<and> lastPonIntf w' = lastPonIntf w \<and>
     count_for (sched_for (PonIntf s)) (sent w') = count_for (sched_for (PonIntf s)) (sent w) + 1 \<and>
     count_for (queue_for (PonIntf s)) (sent w') = count_for (queue_for (PonIntf s)) (sent w) + 1"
proof -
  obtain w' where w': "run E (AddMulticastQueueFlow (multicast_group s True)) w = (Done None, w')"
    "map kind (sent w') = map kind (sent w) @ (if PonIntf s = 0 then [''group'', ''flow''] else []) @
      [''schedulers'', ''queues'', ''group'']" "lastPonIntf w' = lastPonIntf w"
    using run_queue_flow [OF E s, of True w] by auto
  have "safe (for_subscriber s) any (AddMulticastQueueFlow (multicast_group s True))"
    using safe_AddMulticastQueueFlow [of "multicast_group s True"] s by (simp add: multicast_group_def)
  from safe_run [OF this, of E w] w'(1)
  obtain rs where rs: "sent w' = sent w @ rs" "\<forall>r \<in> set rs. for_subscriber s r" by auto
  then have "map kind rs = (if PonIntf s = 0 then [''group'', ''flow''] else []) @ [''schedulers'', ''queues'', ''group'']"
    using w'(2) by simp
  then have "count_list (map kind rs) ''schedulers'' = 1" "count_list (map kind rs) ''queues'' = 1" by simp_all
  with own_requests_kind [OF rs(2)] rs(1) w'(1,3) show ?thesis by (simp add: run_bindp)
qed

text \<open>
  Deployments once the word has passed port 1: \<open>past n p\<close> says that \<open>p\<close>, as long as it never reads 1 from the word, increments it at
  most \<open>n\<close> times and creates no scheduler or queue for port 1.
\<close>

primrec past :: "'a prog \<Rightarrow> nat \<Rightarrow> bool" where
  "past (Ret x) n = True"
| "past (Panic e) n = True"
| "past (NextFlowID m k) n = (\<forall>v. past (k v) n)"
| "past (Tag r k) n = (\<forall>v. past (k v) n)"
| "past (LoadPon k) n = (\<forall>v. v \<noteq> 1 \<longrightarrow> past (k v) n)"
| "past (AddPon d k) n = (d = 1 \<and> (case n of 0 \<Rightarrow> False | Suc n' \<Rightarrow> \<forall>v. past (k v) n'))"
| "past (Rand m k) n = (\<forall>v. past (k v) n)"
| "past (Call r k) n = (\<not> sched_for 1 r \<and> \<not> queue_for 1 r \<and> (\<forall>v. past (k v) n))"
| "past (TpCreate r k) n = (\<forall>v. past (k v) n)"

definition word_past :: "Subscriber prog list \<Rightarrow> world \<Rightarrow> bool" where
  "word_past ps w \<longleftrightarrow> (\<exists>ns. list_all2 past ps ns \<and> 2 \<le> unat (lastPonIntf w) \<and>
     unat (lastPonIntf w) + sum_list ns < 2 ^ 32)"

lemma past_bindp: "past m n \<Longrightarrow> (\<And>x i. past (f x) i) \<Longrightarrow> past (bindp m f) n"
  by (induction m arbitrary: n) (auto split: nat.splits simp del: split_paired_All)

lemma past_and_then: "past m n \<Longrightarrow> (\<And>i. past q i) \<Longrightarrow> past (and_then m q) n"
  unfolding and_then_def by (rule past_bindp) (auto split: option.split)

lemma past_step:
  assumes "past p n" "step1 E p w = Some (p', w')" "2 \<le> unat (lastPonIntf w)" "unat (lastPonIntf w) + n < 2 ^ 32"
  shows "\<exists>n' \<le> n. past p' n' \<and> unat (lastPonIntf w') + n' = unat (lastPonIntf w) + n \<and> 2 \<le> unat (lastPonIntf w') \<and>
     (\<forall>c \<in> set (calls_of E p w). \<not> sched_for 1 (fst c) \<and> \<not> queue_for 1 (fst c))"
proof (cases p)
  case (AddPon d k)
  then obtain n' where n: "n = Suc n'" "d = 1" "\<forall>v. past (k v) n'" using assms(1) by (auto split: nat.splits)
  have "unat (lastPonIntf w + 1) = unat (lastPonIntf w) + 1"
    by (rule unat_Suc_word) (use assms(4) n(1) in simp)
  with n AddPon assms show ?thesis by (intro exI [of _ n']) auto
next
  case (LoadPon k)
  have "lastPonIntf w \<noteq> 1" using assms(3) by auto
  with LoadPon assms show ?thesis by (intro exI [of _ n]) auto
qed (use assms in \<open>auto simp: flow_id_section_def Let_def simp del: split_paired_All\<close>)

lemma past_blocks:
  assumes "ready (gd_Subs grp)"
  shows "past (CreateGroup grp) n" "past (OpMemberToGroup grp b) n" "past (AddMulticastFlow grp) n"
    and "PonIntf (gd_Subs grp) \<noteq> 1 \<Longrightarrow> past (OpMulticastTrafficQueue grp True) n"
    and "PonIntf (gd_Subs grp) \<noteq> 1 \<Longrightarrow> past (AddMulticastSched grp) n"
proof -
  obtain us ds where "tp_UsScheduler (the_tp (gd_Subs grp)) = Some us" "tp_DsScheduler (the_tp (gd_Subs grp)) = Some ds"
    using assms by (rule ready_schedulers)
  then show "past (AddMulticastSched grp) n" if "PonIntf (gd_Subs grp) \<noteq> 1"
    using that by (simp add: AddMulticastSched_def Let_def ready_pointer [OF assms] GetTrafficScheduler_Some)
qed (auto simp: CreateGroup_def OpMulticastTrafficQueue_def OpMemberToGroup_def PerformGroupOperation_def AddMulticastFlow_def
    GetFlowID_def GenerateMulticastMac_def send_raw_flow_def Let_def TrafficQueues_zero_def)

lemma past_deploy:
  assumes "group_tester subs"
  shows "past (DeployWorkflow subs True) 1"
proof -
  have r: "ready subs" "WorkflowName (TestConfig subs) = ''TT''" "di_PonPorts (rm_deviceInfo (RsrMgr subs)) \<noteq> 0"
    using assms by (auto simp: group_tester_def)
  have flows: "past (AddMulticastQueueFlow (multicast_group subs first)) n" if "PonIntf subs \<noteq> 1 \<or> \<not> first" for first n
    using past_blocks [of "multicast_group subs first"] r(1) that
    by (auto simp: AddMulticastQueueFlow_def multicast_group_def when_p_def intro!: past_and_then)
  have "past (tt_ProvisionMulticastFlow subs) 1"
    using flows r(3) by (auto simp: tt_ProvisionMulticastFlow_def)
  then show ?thesis unfolding deploy_group [OF r(2)] by (rule past_bindp) simp
qed

lemma word_past_runs:
  assumes "pool_runs E (ps, w) log (ps', w')" "word_past ps w"
  shows "word_past ps' w' \<and> (\<forall>r \<in> set (requests log). \<not> sched_for 1 r \<and> \<not> queue_for 1 r)"
  using assms
proof (induction log "(ps', w')" arbitrary: ps' w' rule: pool_runs.induct)
  case (move log ps1 w1 i p' w')
  then obtain ns where ns: "list_all2 past ps1 ns" "2 \<le> unat (lastPonIntf w1)"
    "unat (lastPonIntf w1) + sum_list ns < 2 ^ 32"
    and log: "\<forall>r \<in> set (requests log). \<not> sched_for 1 r \<and> \<not> queue_for 1 r"
    by (auto simp: word_past_def)
  from ns(1) move.hyps(3) have l: "i < length ns" and p: "past (ps1 ! i) (ns ! i)" by (auto simp: list_all2_conv_all_nth)
  note le = elem_le_sum_list [OF l]
  then have "unat (lastPonIntf w1) + ns ! i < 2 ^ 32" using ns(3) by simp
  from past_step [OF p move.hyps(5) ns(2) this] obtain n' where n': "n' \<le> ns ! i" "past p' n'"
    "unat (lastPonIntf w') + n' = unat (lastPonIntf w1) + ns ! i" "2 \<le> unat (lastPonIntf w')"
    "\<forall>c \<in> set (calls_of E (ps1 ! i) w1). \<not> sched_for 1 (fst c) \<and> \<not> queue_for 1 (fst c)" by blast
  have "list_all2 past (ps1[i := p']) (ns[i := n'])" using ns(1) n'(2) by (rule list_all2_update_cong)
  moreover have "unat (lastPonIntf w') + sum_list (ns[i := n']) < 2 ^ 32"
    using n'(1,3) le ns(3) l by (simp add: sum_list_update)
  ultimately have "word_past (ps1[i := p']) w'" using n'(4) unfolding word_past_def by blast
  with log n'(5) show ?case by auto
qed simp

text \<open>Two subscribers of port 0 that both read the word before either increments it.\<close>

lemma tester_quiet: "group_tester s \<Longrightarrow> \<not> is_panic (DeployWorkflow s True)"
  by (rule deploy_quiet) (simp add: deployable_def group_tester_def, force)

lemma calls_quiet: "step1 E p w = Some (p', w) \<Longrightarrow> calls_of E p w = []"
  by (drule step1_calls) simp

lemma race_to_add:
  assumes "list_all group_tester (a # b # cs)" "PonIntf a = 0" "PonIntf b = 0" "lastPonIntf w = 0"
  shows "pool_runs E (map (\<lambda>s. DeployWorkflow s True) (a # b # cs), w) []
     (as_first a # as_first b # map (\<lambda>s. DeployWorkflow s True) cs, w\<lparr>lastPonIntf := 2\<rparr>)"
proof -
  let ?d = "\<lambda>s. DeployWorkflow s True" and ?add = "\<lambda>s. AddPon 1 (\<lambda>_. as_first s)"
  let ?cs = "map ?d cs" and ?w1 = "w\<lparr>lastPonIntf := 1\<rparr>"
  have load: "step1 E (?d s) w = Some (?add s, w)" if "group_tester s" "PonIntf s = 0" for s
    using that assms(4) by (auto simp: group_tester_def deploy_group tt_ProvisionMulticastFlow_def)
  have quiet: "\<not> is_panic (?d s)" "\<not> is_panic (as_first s)" "\<not> is_panic (?add s)" if "s \<in> set (a # b # cs)" for s
    using that assms(1) tester_quiet as_first_quiet by (auto simp: list_all_iff group_tester_def is_panic_def)
  have "pool_runs E (?d a # ?d b # ?cs, w) [] (?d a # ?d b # ?cs, w)" by (rule pool_runs.start)
  from pool_runs.move [OF this, of 0 "?add a" w] have "pool_runs E (?d a # ?d b # ?cs, w) [] (?add a # ?d b # ?cs, w)"
    using load assms quiet by (auto simp: calls_quiet)
  from pool_runs.move [OF this, of 1 "?add b" w] have "pool_runs E (?d a # ?d b # ?cs, w) [] (?add a # ?add b # ?cs, w)"
    using load assms quiet by (auto simp: calls_quiet)
  from pool_runs.move [OF this, of 0 "as_first a" ?w1] have "pool_runs E (?d a # ?d b # ?cs, w) [] (as_first a # ?add b # ?cs, ?w1)"
    using assms(4) quiet by auto
  from pool_runs.move [OF this, of 1 "as_first b" "w\<lparr>lastPonIntf := 2\<rparr>"] show ?thesis
    using quiet by auto
qed

text \<open>
  C37: run concurrently the word loses its meaning. When two subscribers start on PON 0, there is a schedule in which both find it at
  0 before either of them increments it, both create the multicast scheduler and queue of PON 0, both report success
  and the word is 2; after that, however the group tests of up to \<open>2^32 - 3\<close> other subscribers go on, of any ports and under any
  schedule, no scheduler and no queue is ever created for PON 1. The device accepts everything.
\<close>

theorem multicast_race:
  assumes "\<And>h r. reply E h r = None" "list_all group_tester (a # b # cs)" "PonIntf a = 0" "PonIntf b = 0"
    and "lastPonIntf w = 0" "length cs < 2 ^ 32 - 2"
  shows "\<exists>log w1. let ps = Ret (with_reason a None) # Ret (with_reason b None) # map (\<lambda>s. DeployWorkflow s True) cs in
     pool_runs E (map (\<lambda>s. DeployWorkflow s True) (a # b # cs), w) log (ps, w1) \<and> lastPonIntf w1 = 2 \<and>
     count_for (sched_for 0) (requests log) = 2 \<and> count_for (queue_for 0) (requests log) = 2 \<and>
     (\<forall>log' ps' w2. pool_runs E (ps, w1) log' (ps', w2) \<longrightarrow>
        list_all (\<lambda>r. \<not> sched_for 1 r \<and> \<not> queue_for 1 r) (requests log'))"
proof -
  let ?d = "\<lambda>s. DeployWorkflow s True" and ?w = "w\<lparr>lastPonIntf := 2\<rparr>"
  let ?start = "as_first a # as_first b # map ?d cs" and ?ps1 = "Ret (with_reason a None) # as_first b # map ?d cs"
  let ?ps = "Ret (with_reason a None) # Ret (with_reason b None) # map ?d cs"
  have t: "ready a" "ready b" "list_all group_tester cs" using assms(2) by (simp_all add: group_tester_def)
  have quiet: "\<forall>p \<in> set ?start. \<not> is_panic p" "\<forall>p \<in> set ?ps1. \<not> is_panic p"
    using as_first_quiet t tester_quiet by (auto simp: list_all_iff is_panic_def)
  obtain w1 where a: "run E (as_first a) ?w = (Done (with_reason a None), w1)" "lastPonIntf w1 = 2"
    "count_for (sched_for 0) (sent w1) = count_for (sched_for 0) (sent ?w) + 1"
    "count_for (queue_for 0) (sent w1) = count_for (queue_for 0) (sent ?w) + 1"
    using run_as_first [OF assms(1) t(1), of ?w] assms(3) by auto
  obtain w2 where b: "run E (as_first b) w1 = (Done (with_reason b None), w2)" "lastPonIntf w2 = 2"
    "count_for (sched_for 0) (sent w2) = count_for (sched_for 0) (sent w1) + 1"
    "count_for (queue_for 0) (sent w2) = count_for (queue_for 0) (sent w1) + 1"
    using run_as_first [OF assms(1) t(2), of w1] assms(4) a(2) by auto
  obtain l1 where l1: "pool_runs E (?start, ?w) l1 (?ps1, w1)"
    using pool_runs_one [OF a(1) _ _ quiet(1), of 0] by (auto simp: result_prog_def)
  obtain l2 where l2: "pool_runs E (?ps1, w1) l2 (?ps, w2)"
    using pool_runs_one [OF b(1) _ _ quiet(2), of 1] by (auto simp: result_prog_def)
  have run: "pool_runs E (map ?d (a # b # cs), w) (l1 @ l2) (?ps, w2)"
    using pool_runs_append [OF pool_runs_append [OF l2 l1] race_to_add [OF assms(2-5)]] by simp
  then have "sent w2 = sent w @ requests (l1 @ l2)" by (rule pool_runs_requests [THEN conjunct1])
  then have counts: "count_for (sched_for 0) (requests (l1 @ l2)) = 2" "count_for (queue_for 0) (requests (l1 @ l2)) = 2"
    using a(3,4) b(3,4) by simp_all
  have "list_all2 past ?ps (0 # 0 # map (\<lambda>_. 1) cs)"
    using t(3) past_deploy by (auto simp: list_all2_conv_all_nth list_all_length nth_Cons split: nat.splits)
  moreover have "sum_list (map (\<lambda>_. 1) cs) = length cs" by (induction cs) simp_all
  ultimately have "word_past ?ps w2"
    unfolding word_past_def using assms(6) b(2) by (intro exI [of _ "0 # 0 # map (\<lambda>_. 1) cs"]) simp
  then have "\<forall>log' ps' w'. pool_runs E (?ps, w2) log' (ps', w') \<longrightarrow>
      list_all (\<lambda>r. \<not> sched_for 1 r \<and> \<not> queue_for 1 r) (requests log')"
    using word_past_runs by (auto simp: list_all_iff)
  with run b(2) counts show ?thesis unfolding Let_def by blast
qed

text \<open>With a third subscriber, on PON 1, that is deployed to its end: it reports success though its port got no scheduler.\<close>

theorem multicast_race_witness:
  "let c = sample_subscriber ''TT'' 1 1; done = (\<lambda>s. Ret (with_reason s None))
   in \<exists>log w1 log' w2. pool_runs accepting (map (\<lambda>s. DeployWorkflow s True)
          [sample_subscriber ''TT'' 0 1, sample_subscriber ''TT'' 0 2, c], world_init) log
        ([done (sample_subscriber ''TT'' 0 1), done (sample_subscriber ''TT'' 0 2), DeployWorkflow c True], w1) \<and>
      count_for (sched_for 0) (requests log) = 2 \<and>
      pool_runs accepting ([done (sample_subscriber ''TT'' 0 1), done (sample_subscriber ''TT'' 0 2), DeployWorkflow c True], w1) log'
        (map done [sample_subscriber ''TT'' 0 1, sample_subscriber ''TT'' 0 2, c], w2) \<and>
      requests log' \<noteq> [] \<and> list_all (\<lambda>r. \<not> sched_for 1 r \<and> \<not> queue_for 1 r) (requests log')"
proof -
  let ?a = "sample_subscriber ''TT'' 0 1" and ?b = "sample_subscriber ''TT'' 0 2" and ?c = "sample_subscriber ''TT'' 1 1"
  let ?ps = "Ret (with_reason ?a None) # Ret (with_reason ?b None) # map (\<lambda>s. DeployWorkflow s True) [?c]"
  have hyps: "list_all group_tester (?a # ?b # [?c])" "lastPonIntf world_init = 0" "length [?c] < 2 ^ 32 - 2"
    by (simp_all add: world_init_def)
  note race = multicast_race [OF env_samples(1) hyps(1) sample_subscriber_fields(3) sample_subscriber_fields(3) hyps(2,3),
      unfolded Let_def]
  obtain log w1 where 1: "pool_runs accepting (map (\<lambda>s. DeployWorkflow s True) (?a # ?b # [?c]), world_init) log (?ps, w1)"
    "lastPonIntf w1 = 2" "count_for (sched_for 0) (requests log) = 2"
    and never: "\<And>log' ps' w2. pool_runs accepting (?ps, w1) log' (ps', w2) \<Longrightarrow>
      list_all (\<lambda>r. \<not> sched_for 1 r \<and> \<not> queue_for 1 r) (requests log')"
    using race by blast
  obtain w2 where c: "run accepting (DeployWorkflow ?c True) w1 = (Done (with_reason ?c None), w2)"
    "map kind (sent w2) = map kind (sent w1) @ [''group'']"
    using run_deploy_group [of accepting ?c w1] 1(2) by auto
  have "\<forall>p \<in> set ?ps. \<not> is_panic p" using tester_quiet [of ?c] by (simp add: is_panic_def)
  from pool_runs_one [OF c(1) _ _ this, of 2]
  obtain cs where cs: "pool_runs accepting (?ps, w1) (map (Pair 2) cs) (?ps[2 := Ret (with_reason ?c None)], w2)"
    "sent w2 = sent w1 @ map fst cs" by (auto simp: result_prog_def numeral_2_eq_2)
  have "cs \<noteq> []" using cs(2) c(2) by auto
  then show ?thesis unfolding Let_def
    using 1 cs(1) never [OF cs(1)]
    by (intro exI [of _ log] exI [of _ w1] exI [of _ "map (Pair 2) cs"] exI [of _ w2]) (simp add: numeral_2_eq_2)
qed

end
