(* ===== verification/Retry.thy ===== *)
theory Retry
  imports Workflow_Manager
begin

text \<open>
  The retrying senders of \<open>core/workflow\_utils.go\<close>: how many calls they make and what they return, for every
  behaviour of the device. The two senders for schedulers and queues share one loop; the one for flows decides
  by status codes.
\<close>

section \<open>Lemmas\<close>

lemma upt_Suc_Cons: "[0..<Suc n] = 0 # map Suc [0..<n]"
  by (simp add: map_Suc_upt upt_conv_Cons)

lemma find_shift: "find P [0..<Suc n] = (if P 0 then Some 0 else map_option Suc (find (\<lambda>k. P (Suc k)) [0..<n]))"
proof -
  have "find P (map Suc xs) = map_option Suc (find (\<lambda>k. P (Suc k)) xs)" for xs
    by (induction xs) auto
  then show ?thesis unfolding upt_Suc_Cons by simp
qed

lemma replicate_snoc: "xs @ r # replicate k r = xs @ replicate (Suc k) r"
  by simp

lemma run_retry_call:
  "run E (retry_call n r msg) w =
     (case find (\<lambda>k. reply E (sent w @ replicate k r) r = None) [0..<n] of
        Some k \<Rightarrow> (Done None, w\<lparr>sent := sent w @ replicate (Suc k) r\<rparr>)
      | None \<Rightarrow> (Done (Some (ErrorString msg)), w\<lparr>sent := sent w @ replicate n r\<rparr>))"
proof (induction n arbitrary: w)
  case (Suc n)
  have "run E (retry_call n r msg) (w\<lparr>sent := sent w @ [r]\<rparr>) =
     (case find (\<lambda>k. reply E (sent w @ replicate (Suc k) r) r = None) [0..<n] of
        Some k \<Rightarrow> (Done None, w\<lparr>sent := sent w @ replicate (Suc (Suc k)) r\<rparr>)
      | None \<Rightarrow> (Done (Some (ErrorString msg)), w\<lparr>sent := sent w @ replicate (Suc n) r\<rparr>))"
    by (subst Suc) (simp split: option.split)
  then show ?case by (auto simp: find_shift split: option.split simp del: upt_Suc)
qed simp

lemma run_call_then_retry:
  "run E (Call r (\<lambda>err. if err = None then Ret None else retry_call maxRetry r msg)) w =
     (case find (\<lambda>k. reply E (sent w @ replicate k r) r = None) [0..<21] of
        Some k \<Rightarrow> (Done None, w\<lparr>sent := sent w @ replicate (Suc k) r\<rparr>)
      | None \<Rightarrow> (Done (Some (ErrorString msg)), w\<lparr>sent := sent w @ replicate 21 r\<rparr>))"
proof -
  have "Call r (\<lambda>err. if err = None then Ret None else retry_call maxRetry r msg) = retry_call (Suc maxRetry) r msg"
    by (simp add: fun_eq_iff)
  moreover have "Suc maxRetry = 21" by (simp add: maxRetry_def)
  ultimately show ?thesis by (simp only: run_retry_call)
qed

lemma run_retry_flow:
  "run E (retry_flow n f err) w =
     (case find (\<lambda>k. status_code (reply E (sent w @ replicate k (FlowAdd f)) (FlowAdd f)) = OK) [0..<n] of
        Some k \<Rightarrow> (Done None, w\<lparr>sent := sent w @ replicate (Suc k) (FlowAdd f)\<rparr>)
      | None \<Rightarrow> (Done (if n = 0 then err else reply E (sent w @ replicate (n - 1) (FlowAdd f)) (FlowAdd f)),
          w\<lparr>sent := sent w @ replicate n (FlowAdd f)\<rparr>))"
proof (induction n arbitrary: w err)
  case (Suc n)
  let ?e = "reply E (sent w) (FlowAdd f)"
  have "run E (retry_flow n f ?e) (w\<lparr>sent := sent w @ [FlowAdd f]\<rparr>) =
     (case find (\<lambda>k. status_code (reply E (sent w @ replicate (Suc k) (FlowAdd f)) (FlowAdd f)) = OK) [0..<n] of
        Some k \<Rightarrow> (Done None, w\<lparr>sent := sent w @ replicate (Suc (Suc k)) (FlowAdd f)\<rparr>)
      | None \<Rightarrow> (Done (if n = 0 then ?e else reply E (sent w @ replicate n (FlowAdd f)) (FlowAdd f)),
          w\<lparr>sent := sent w @ replicate (Suc n) (FlowAdd f)\<rparr>))"
    by (subst Suc) (cases n; simp split: option.split del: upt_Suc)
  then show ?case by (cases n) (auto simp: find_shift split: option.split simp del: upt_Suc)
qed simp

section \<open>Properties\<close>

text \<open>
  C39: the retrying senders make at most 21 calls, all with the same request. Those for schedulers and queues stop at the
  first call without an error and fail only after 21 refusals. The one for flows retries only when the device
  is exhausted: any other error of the first call is returned at once, and an existing flow is success; once it retries, though,
  only an answer without error counts, so a flow that exists by then is sent again
  and again, and that error is returned in the end.
\<close>

theorem retry_outcomes:
  "(let r = CreateTrafficSchedulers t in run E (CreateTrafficSchedWithRetry t) w =
     (case find (\<lambda>k. reply E (sent w @ replicate k r) r = None) [0..<21] of
        Some k \<Rightarrow> (Done None, w\<lparr>sent := sent w @ replicate (Suc k) r\<rparr>)
      | None \<Rightarrow> (Done (Some (ErrorString ''failed-to-create-traffic-sched-after-all-retries'')),
          w\<lparr>sent := sent w @ replicate 21 r\<rparr>))) \<and>
   (let r = CreateTrafficQueues q in run E (CreateTrafficQueuesWithRetry q) w =
     (case find (\<lambda>k. reply E (sent w @ replicate k r) r = None) [0..<21] of
        Some k \<Rightarrow> (Done None, w\<lparr>sent := sent w @ replicate (Suc k) r\<rparr>)
      | None \<Rightarrow> (Done (Some (ErrorString ''failed-to-create-traffic-queue-after-all-retries'')),
          w\<lparr>sent := sent w @ replicate 21 r\<rparr>))) \<and>
   (let r = FlowAdd f; err = (\<lambda>k. reply E (sent w @ replicate k r) r) in run E (AddFlowWithRetry f) w =
     (if status_code (err 0) = ResourceExhausted then
        (case find (\<lambda>k. status_code (err (Suc k)) = OK) [0..<20] of
           Some k \<Rightarrow> (Done None, w\<lparr>sent := sent w @ replicate (Suc (Suc k)) r\<rparr>)
         | None \<Rightarrow> (Done (err 20), w\<lparr>sent := sent w @ replicate 21 r\<rparr>))
      else (Done (if status_code (err 0) = AlreadyExists then None else err 0), w\<lparr>sent := sent w @ [r]\<rparr>)))"
proof (intro conjI)
  let ?r = "FlowAdd f"
  have flow: "run E (retry_flow maxRetry f e) (w\<lparr>sent := sent w @ [?r]\<rparr>) =
     (case find (\<lambda>k. status_code (reply E (sent w @ replicate (Suc k) ?r) ?r) = OK) [0..<20] of
        Some k \<Rightarrow> (Done None, w\<lparr>sent := sent w @ replicate (Suc (Suc k)) ?r\<rparr>)
      | None \<Rightarrow> (Done (reply E (sent w @ replicate 20 ?r) ?r), w\<lparr>sent := sent w @ replicate 21 ?r\<rparr>))" for e
  proof -
    have 20: "replicate 20 ?r = ?r # replicate 19 ?r" "replicate 21 ?r = ?r # replicate 20 ?r"
      by (simp_all add: numeral_eq_Suc)
    show ?thesis unfolding run_retry_flow maxRetry_def by (simp add: 20 split: option.split)
  qed
  show "let r = ?r; err = (\<lambda>k. reply E (sent w @ replicate k r) r) in run E (AddFlowWithRetry f) w =
     (if status_code (err 0) = ResourceExhausted then
        (case find (\<lambda>k. status_code (err (Suc k)) = OK) [0..<20] of
           Some k \<Rightarrow> (Done None, w\<lparr>sent := sent w @ replicate (Suc (Suc k)) r\<rparr>)
         | None \<Rightarrow> (Done (err 20), w\<lparr>sent := sent w @ replicate 21 r\<rparr>))
      else (Done (if status_code (err 0) = AlreadyExists then None else err 0), w\<lparr>sent := sent w @ [r]\<rparr>))"
    unfolding Let_def AddFlowWithRetry_def by (auto simp: flow simp del: replicate_Suc)
qed (simp_all only: Let_def CreateTrafficSchedWithRetry_def CreateTrafficQueuesWithRetry_def run_call_then_retry)

end
