(* ===== verification/Request_Types.thy ===== *)
theory Request_Types
  imports Workflow_Manager
begin

text \<open>
  The types of the requests that deployments send, finer than those of the messages: VLANs are 12 bits wide, priority bits 3 bits or the
  wildcard 255, MAC addresses absent or of six bytes, tag types and flow directions are the known names, inner VLANs are
  classified on double-tagged packets only, and so on. The messages themselves carry 32-bit words and strings, so the
  message types do not give this.

  \<open>typed p\<close> says that whatever answers \<open>p\<close> gets, it sends well-typed requests only; the lemmas give it for
  the operations of the three workflows, the property for every interleaving of deployments.
\<close>

section \<open>Well-typed requests\<close>

text \<open>
  A VLAN of a request for a subscriber: 12 bits, or one of the subscriber's own two tags. The counters these come from are 32 bits wide
  and unbounded, so that nothing in the code keeps the tags in 12 bits.
\<close>

definition vid_ok :: "Subscriber \<Rightarrow> uint32 \<Rightarrow> bool" where
  "vid_ok subs v \<longleftrightarrow> v < 4096 \<or> v = Ctag subs \<or> v = Stag subs"

definition pbits_ok :: "uint32 \<Rightarrow> bool" where
  "pbits_ok p \<longleftrightarrow> p < 8 \<or> p = 255"

definition classifier_ok :: "Subscriber \<Rightarrow> Classifier \<Rightarrow> bool" where
  "classifier_ok subs c \<longleftrightarrow> vid_ok subs (cl_OVid c) \<and> vid_ok subs (cl_IVid c) \<and> pbits_ok (cl_OPbits c) \<and> pbits_ok (cl_IPbits c) \<and>
     length (cl_DstMac c) \<in> {0, 6} \<and> cl_SrcMac c = [] \<and> cl_PktTagType c \<in> {SingleTag, DoubleTag} \<and>
     (cl_IVid c \<noteq> 0 \<longrightarrow> cl_PktTagType c = DoubleTag)"

definition action_ok :: "Subscriber \<Rightarrow> string \<Rightarrow> Action \<Rightarrow> bool" where
  "action_ok subs direction a \<longleftrightarrow> vid_ok subs (ac_OVid a) \<and> vid_ok subs (ac_IVid a) \<and> ac_OPbits a < 8 \<and> ac_IPbits a < 8 \<and>
     (case ac_Cmd a of
        None \<Rightarrow> False
      | Some cmd \<Rightarrow>
          (cmd_AddOuterTag cmd \<or> cmd_TrapToHost cmd \<longrightarrow> direction = Upstream) \<and>
          (cmd_RemoveOuterTag cmd \<longrightarrow> direction = Downstream))"

definition flow_ok :: "Subscriber \<Rightarrow> Flow \<Rightarrow> bool" where
  "flow_ok subs f \<longleftrightarrow> fl_FlowType f \<in> {Upstream, Downstream, ''multicast''} \<and>
     (case fl_Classifier f of None \<Rightarrow> False | Some c \<Rightarrow> classifier_ok subs c) \<and>
     (case fl_Action f of
        None \<Rightarrow> fl_FlowType f = ''multicast''
      | Some a \<Rightarrow> action_ok subs (fl_FlowType f) a)"

fun rpc_ok :: "Subscriber \<Rightarrow> rpc \<Rightarrow> bool" where
  "rpc_ok subs (CreateTrafficSchedulers t) \<longleftrightarrow>
     (case tss_TrafficScheds t of
        [s] \<Rightarrow>
          (case (ts_Scheduler s, ts_TrafficShapingInfo s) of
             (Some cfg, Some sh) \<Rightarrow> ts_Direction s = sc_Direction cfg \<and> sh_Cir sh \<le> sh_Pir sh \<and> sh_Cbs sh \<le> sh_Pbs sh
           | _ \<Rightarrow> False)
      | _ \<Rightarrow> False)"
| "rpc_ok subs (CreateTrafficQueues q) \<longleftrightarrow>
     (\<exists>d \<in> {UPSTREAM, DOWNSTREAM}. \<forall>x \<in> set (tqs_TrafficQueues q). tq_Direction x = d)"
| "rpc_ok subs (RemoveTrafficQueues q) \<longleftrightarrow> False"
| "rpc_ok subs (FlowAdd f) \<longleftrightarrow> flow_ok subs f"
| "rpc_ok subs (PerformGroupOp g) \<longleftrightarrow>
     (case gr_Command g of
        SET_MEMBERS \<Rightarrow> gr_Members g = []
      | ADD_MEMBERS \<Rightarrow> (case gr_Members g of [m] \<Rightarrow> gm_InterfaceType m = GM_PON | _ \<Rightarrow> False)
      | REMOVE_MEMBERS \<Rightarrow> False)"
| "rpc_ok subs (ActivateOnu r) \<longleftrightarrow> False"

text \<open>The subscribers whose requests are well typed: the bit maps of their profile have eight bits.\<close>

definition typed_subscriber :: "Subscriber \<Rightarrow> bool" where
  "typed_subscriber subs \<longleftrightarrow> list_all (\<lambda>g. pbit_string (gp_PbitMap g)) (the_gems subs)"

abbreviation typed :: "Subscriber \<Rightarrow> 'a prog \<Rightarrow> bool" where
  "typed subs p \<equiv> safe (rpc_ok subs) any p"

section \<open>Lemmas\<close>

lemma typed_bindp: "typed subs m \<Longrightarrow> (\<And>x. typed subs (f x)) \<Longrightarrow> typed subs (bindp m f)"
  by (rule safe_bindp) simp_all

lemma any_True [simp]: "any x"
  by (simp add: any_def)

lemma typed_Ret: "typed subs (Ret x)"
  by simp

lemma pcp_ok:
  assumes "typed_subscriber subs" "(pcp, gem) \<in> set (gem_pbits (the_gems subs))"
  shows "pcp < 8"
proof -
  obtain g where g: "g \<in> set (the_gems subs)" "pcp \<in> set (set_pbits (gp_PbitMap g))"
    using assms(2) by (auto simp: gem_pbits_def)
  then have s: "pbit_string (gp_PbitMap g)" using assms(1) by (simp add: typed_subscriber_def list_all_iff)
  obtain k where k: "has_pbit (gp_PbitMap g) k" "pcp = of_nat k" using g(2) set_set_pbits by blast
  have "length (TrimPrefix (gp_PbitMap g) ''0b'') = 8" using s by (simp add: pbit_string_def TrimPrefix_def numeral_2_eq_2)
  with k(1) have "k < 8" by (simp add: has_pbit_def Let_def)
  with k(2) show ?thesis by (simp add: word_less_nat_alt unat_of_nat take_bit_nat_eq_self)
qed

text \<open>The flow of a subscriber has the type of its classifier and action.\<close>

definition pair_ok :: "Subscriber \<Rightarrow> string \<Rightarrow> Classifier \<times> Action \<Rightarrow> bool" where
  "pair_ok subs direction ca \<longleftrightarrow> classifier_ok subs (fst ca) \<and> action_ok subs direction (snd ca)"

lemma subscriber_flow_ok:
  assumes "pair_ok subs direction ca" "pbits_ok pcp" "direction \<in> {Upstream, Downstream}"
  shows "rpc_ok subs (FlowAdd (subscriber_flow subs ca direction fid alloc gem pcp rep smf m))"
  using assms by (auto simp: flow_ok_def subscriber_flow_def Let_def pair_ok_def classifier_ok_def)

lemma att_pair_ok:
  "pair_ok subs Upstream (FormatClassfierAction EapolFlow Upstream subs)"
    "pair_ok subs Upstream (FormatClassfierAction DhcpFlowIPV4 Upstream subs)"
    "pair_ok subs Upstream (FormatClassfierAction HsiaFlow Upstream subs)"
    "pair_ok subs Downstream (FormatClassfierAction HsiaFlow Downstream subs)"
  by (simp_all add: FormatClassfierAction_def pair_ok_def classifier_ok_def action_ok_def flow_names flow_consts zero_defs
      pbits_ok_def vid_ok_def)

lemma typed_send_flow: "rpc_ok subs (FlowAdd f) \<Longrightarrow> typed subs (send_flow f)"
  by (simp add: send_flow_def any_def)

lemma typed_AddFlow:
  assumes "pair_ok subs direction (FormatClassfierAction ft direction subs)" "pbits_ok pcp" "direction \<in> {Upstream, Downstream}"
  shows "typed subs (AddFlow subs ft direction fid alloc gem pcp rep smf m)"
  unfolding AddFlow_def by (rule typed_send_flow) (rule subscriber_flow_ok [OF assms])

lemma typed_with_flow_id: "(\<And>id. typed subs (k id)) \<Longrightarrow> typed subs (with_flow_id subs k)"
  by (simp add: with_flow_id_eq)

lemma wildcard_ok [simp]: "pbits_ok 0xff"
  by (simp add: pbits_ok_def)

lemma typed_provision_scheds: "ready subs \<Longrightarrow> typed subs (provision_scheds subs)"
  unfolding provision_scheds_def
  by (intro safe_and_then; simp add: create_scheds_ready)
    (auto simp: sched_request_def Let_def any_def sched_config_def TrafficShapingInfo_zero_def)

lemma typed_provision_queues: "ready subs \<Longrightarrow> typed subs (provision_queues subs)"
  unfolding provision_queues_def
  by (intro safe_and_then; simp add: create_queues_ready)
    (auto simp: queue_request_def any_def traffic_queue_def TrafficQueues_zero_def)

lemma typed_att:
  assumes "ready subs" "typed_subscriber subs"
  shows "typed subs (att_ProvisionEapFlow subs)" "typed subs (att_ProvisionDhcpIPV4Flow subs)" "typed subs (att_ProvisionHsiaFlow subs)"
  using assms att_pair_ok [of subs]
  by (auto simp: att_flow_defs alloc_and_gems_ready Let_def typed_subscriber_def
      intro!: typed_with_flow_id typed_AddFlow safe_and_then)

text \<open>The services of the TT workflow.\<close>

lemma typed_Format:
  assumes "direction \<in> {Upstream, Downstream}" "flowType \<in> {HsiaFlow, VoipFlow, VodFlow, MgmtFlow}"
  shows "safe (rpc_ok subs) (pair_ok subs direction) (FormatTtClassfierAction flowType direction subs)"
    "safe (rpc_ok subs) (pair_ok subs Upstream) (FormatTtClassfierAction IgmpFlow Upstream subs)"
proof -
  have mac: "safe (rpc_ok subs) Q (bindp (GenerateMac True) f)" if "\<And>mac. length mac = 6 \<Longrightarrow> safe (rpc_ok subs) Q (f mac)"
    for Q :: "Classifier \<times> Action \<Rightarrow> bool" and f
    by (rule safe_bindp [OF safe_GenerateMac]) (use that in simp)
  note ok = pair_ok_def classifier_ok_def action_ok_def zero_defs pbits_ok_def vid_ok_def
  show "safe (rpc_ok subs) (pair_ok subs direction) (FormatTtClassfierAction flowType direction subs)"
    using assms by (auto simp: FormatTtClassfierAction_def flow_names flow_consts ok intro!: mac)
  show "safe (rpc_ok subs) (pair_ok subs Upstream) (FormatTtClassfierAction IgmpFlow Upstream subs)"
    by (simp add: FormatTtClassfierAction_def flow_names flow_consts ok)
qed

lemma typed_AddTtFlow:
  assumes "safe (rpc_ok subs) (pair_ok subs direction) (FormatTtClassfierAction ft direction subs)" "pbits_ok pcp"
    "direction \<in> {Upstream, Downstream}"
  shows "typed subs (AddTtFlow subs ft direction fid alloc gem pcp rep smf m)"
  unfolding AddTtFlow_def
  by (rule safe_bindp [OF assms(1)]) (rule typed_send_flow, rule subscriber_flow_ok [OF _ assms(2,3)])

lemma typed_for_bits:
  "(\<And>pcp gemID. (pcp, gemID) \<in> set bits \<Longrightarrow> typed subs (body pcp gemID)) \<Longrightarrow> typed subs (for_bits body bits)"
proof (induction bits)
  case (Cons b bits)
  then show ?case by (cases b) (auto intro!: safe_and_then)
qed simp

lemma typed_service:
  assumes "typed_subscriber subs" "(pcp, gem) \<in> set (gem_pbits (the_gems subs))" "ft \<in> {HsiaFlow, VoipFlow, VodFlow, MgmtFlow}"
  shows "typed subs (AddTtFlow subs ft Upstream fid alloc gemID pcp rep smf m)"
    "typed subs (AddTtFlow subs ft Downstream fid alloc gemID pcp rep smf m)"
    "typed subs (AddTtFlow subs IgmpFlow Upstream fid alloc gemID pcp rep smf m)"
    "typed subs (AddFlow subs DhcpFlowIPV4 Upstream fid alloc gemID pcp rep smf m)"
proof -
  have pcp: "pbits_ok pcp" using pcp_ok [OF assms(1,2)] by (simp add: pbits_ok_def)
  show "typed subs (AddTtFlow subs ft Upstream fid alloc gemID pcp rep smf m)"
    "typed subs (AddTtFlow subs ft Downstream fid alloc gemID pcp rep smf m)"
    "typed subs (AddTtFlow subs IgmpFlow Upstream fid alloc gemID pcp rep smf m)"
    by (rule typed_AddTtFlow [OF _ pcp]; use assms(3) typed_Format in blast)+
  show "typed subs (AddFlow subs DhcpFlowIPV4 Upstream fid alloc gemID pcp rep smf m)"
    by (rule typed_AddFlow [OF _ pcp]) (use assms(1) att_pair_ok in \<open>auto simp: typed_subscriber_def\<close>)
qed

lemma typed_tt:
  assumes "ready subs" "typed_subscriber subs"
  shows "typed subs (tt_ProvisionHsiaFlow subs)" "typed subs (tt_ProvisionVoipFlow subs)"
    "typed subs (tt_ProvisionVodFlow subs)" "typed subs (tt_ProvisionMgmtFlow subs)"
  unfolding tt_ProvisionHsiaFlow_def tt_ProvisionVoipFlow_def tt_ProvisionVodFlow_def tt_ProvisionMgmtFlow_def
    alloc_and_gems_ready [OF assms(1)] bindp.simps prod.case
  by (intro typed_for_bits typed_with_flow_id typed_bindp typed_Ret; 
      rule typed_service(1,2) [OF assms(2)] typed_service(3,4) [OF assms(2), where ft = HsiaFlow]; (assumption | simp))+

lemma typed_multicast:
  assumes "ready (gd_Subs grp)" "gd_Weight grp = 20"
  shows "typed subs (AddMulticastQueueFlow grp)"
proof -
  obtain us ds where "tp_UsScheduler (the_tp (gd_Subs grp)) = Some us" "tp_DsScheduler (the_tp (gd_Subs grp)) = Some ds"
    using assms(1) by (rule ready_schedulers)
  then have sched: "typed subs (AddMulticastSched grp)"
    by (simp add: AddMulticastSched_def Let_def ready_pointer [OF assms(1)] GetTrafficScheduler_Some any_def
        TrafficShapingInfo_zero_def)
  have flow: "typed subs (AddMulticastFlow grp)"
    by (auto simp: AddMulticastFlow_def Let_def any_def send_raw_flow_def flow_ok_def classifier_ok_def zero_defs
        pbits_ok_def vid_ok_def flow_consts intro!: safe_bindp [OF safe_GetFlowID] safe_bindp [OF safe_GenerateMulticastMac])
  show ?thesis
    unfolding AddMulticastQueueFlow_def when_p_def
    using sched flow
    by (intro safe_and_then)
      (auto simp: CreateGroup_def PerformGroupOperation_def OpMulticastTrafficQueue_def OpMemberToGroup_def
        TrafficQueues_zero_def TrafficQueue_zero_def Let_def any_def)
qed

lemma typed_deploy:
  assumes "deployable isGroup subs" "typed_subscriber subs"
  shows "typed subs (DeployWorkflow subs isGroup)"
proof -
  have r: "ready subs" using assms(1) by (simp add: deployable_def)
  have multi: "typed subs (tt_ProvisionMulticastFlow subs)" if "di_PonPorts (rm_deviceInfo (RsrMgr subs)) \<noteq> 0"
    using that typed_multicast [of "multicast_group subs b" for b] r
    by (auto simp: tt_ProvisionMulticastFlow_def multicast_group_def)
  note parts = typed_provision_scheds [OF r] typed_provision_queues [OF r] typed_att [OF r assms(2)] typed_tt [OF r assms(2)]
  have uni: "typed subs (provision_unicast AttWorkFlow subs)" "typed subs (provision_unicast DtWorkFlow subs)"
    "typed subs (provision_unicast TtWorkFlow subs)"
    unfolding provision_unicast_def
    by (intro safe_and_then; simp add: AttWorkFlow_def DtWorkFlow_def TtWorkFlow_def att_ProvisionScheds_def att_ProvisionQueues_def
        dt_ProvisionScheds_def dt_ProvisionQueues_def tt_ProvisionScheds_def tt_ProvisionQueues_def att_noop_defs dt_noop_defs
        tt_noop_defs dt_hsia_is_att_hsia parts)+
  have mult: "typed subs (if isGroup then wf_ProvisionMulticastFlow wfl subs else provision_unicast wfl subs)"
    if "getWorkFlow subs = Some wfl" for wfl
    using that assms(1) getWorkFlow_cases [of subs] uni multi
    by (auto simp: deployable_def AttWorkFlow_def DtWorkFlow_def TtWorkFlow_def att_noop_defs dt_noop_defs)
  obtain wfl where w: "getWorkFlow subs = Some wfl" using assms(1) by (auto simp: deployable_def)
  show ?thesis
    using typed_bindp [OF mult [OF w], of "\<lambda>err. case err of Some e \<Rightarrow> Ret (subs\<lparr>SubsReason := Error e\<rparr>)
      | None \<Rightarrow> Ret (subs\<lparr>SubsReason := ''SUBSCRIBER_PROVISION_SUCCESS''\<rparr>)"]
    by (simp add: DeployWorkflow_def w split: option.split)
qed

section \<open>Properties\<close>

text \<open>
  C7: every request that a deployment sends, in both modes, under every schedule of any list of deployments and whatever the
  device answers, is well typed for the subscriber it is for, when the bit maps of the subscribers' profiles have
  eight bits: priority bits, tag types, directions, MAC addresses, actions, scheduler rates and group members are in
  their ranges, though the types of the messages admit any word and any string. The VLANs are 12 bits wide or one of the two tags of
  the subscriber, which no code bounds; a subscriber with tags of 12 bits has VLANs of 12 bits only.
\<close>

theorem requests_well_typed:
  assumes "\<forall>subs \<in> set ss. deployable isGroup subs \<and> typed_subscriber subs"
    and "pool_runs E (map (\<lambda>subs. DeployWorkflow subs isGroup) ss, w) log (ps', w')"
  shows "sent w' = sent w @ requests log \<and> (\<forall>(i, r, a) \<in> set log. i < length ss \<and> rpc_ok (ss ! i) r)"
proof -
  have "pool_safe (\<lambda>i. rpc_ok (ss ! i)) (\<lambda>i. any) (map (\<lambda>subs. DeployWorkflow subs isGroup) ss)"
    using assms(1) typed_deploy by (simp add: pool_safe_def)
  from pool_runs_safe [OF assms(2) this] pool_runs_requests [OF assms(2)] show ?thesis by simp
qed

lemma sample_typed: "typed_subscriber (sample_subscriber name pon onu)"
  by (simp add: typed_subscriber_def the_gems_def) (simp add: sample_instance_def sample_gem_def pbit_string_def)

lemma sample_deployable:
  "name \<in> {''ATT'', ''DT'', ''TT''} \<Longrightarrow> deployable isGroup (sample_subscriber name pon onu)"
  by (auto simp: deployable_def)

text \<open>A TT subscriber with two priority bits and an ATT subscriber, deployed together.\<close>

theorem requests_well_typed_witness:
  "let ss = [sample_subscriber ''TT'' 0 1, sample_subscriber ''ATT'' 3 2] in
   \<exists>cs ds ps' w'. pool_runs accepting (map (\<lambda>subs. DeployWorkflow subs False) ss, world_init)
       (map (Pair 0) cs @ map (Pair 1) ds) (ps', w') \<and>
     length cs = 28 \<and> list_all (\<lambda>c. rpc_ok (ss ! 0) (fst c)) cs \<and>
     length ds = 8 \<and> list_all (\<lambda>c. rpc_ok (ss ! 1) (fst c)) ds"
proof -
  let ?a = "sample_subscriber ''TT'' 0 1" and ?b = "sample_subscriber ''ATT'' 3 2"
  let ?s = "[?a, ?b]"
  have all: "play accepting h gs = (None, h @ concat (map (map fst) gs))" for h gs
    by (rule play_accepting) (simp add: accepted_def)
  obtain x w1 where 1: "run accepting (DeployWorkflow ?a False) world_init = (x, w1)" by (rule prod.exhaust)
  obtain y w2 where 2: "run accepting (DeployWorkflow ?b False) w1 = (y, w2)" by (rule prod.exhaust)
  have tt: "length (sent w1) = length (sent world_init) + 28"
    using tt.deploy_run(2) [of ?a accepting world_init] 1
    by (simp add: all tt_plan_def sample_gems sched_plan_def queue_plan_def hsia_group_def dhcp_group_def
        igmp_group_def del: play.simps)
  have att: "length (sent w2) = length (sent w1) + 8"
    using att.deploy_run(2) [of ?b accepting w1] 2
    by (simp add: all att_plan_def sched_plan_def queue_plan_def hsia_plan_def del: play.simps)
  have d: "deployable False ?a" "deployable False ?b" by (simp_all add: sample_deployable)
  then have dep: "\<forall>subs \<in> set ?s. deployable False subs \<and> typed_subscriber subs"
    by (simp add: sample_typed)
  from deploy_two [OF d 1 2]
  obtain cs ds where r: "pool_runs accepting (map (\<lambda>subs. DeployWorkflow subs False) ?s, world_init)
      (map (Pair 0) cs @ map (Pair 1) ds) ([result_prog x, result_prog y], w2)"
    "sent w1 = sent world_init @ map fst cs" "sent w2 = sent w1 @ map fst ds" by blast
  have len: "length cs = 28" "length ds = 8" using r(2,3) tt att by simp_all
  have "\<forall>(i, r, a) \<in> set (map (Pair 0) cs @ map (Pair 1) ds). rpc_ok (?s ! i) r"
    using requests_well_typed [OF dep r(1)] by blast
  then have ok: "list_all (\<lambda>c. rpc_ok (?s ! 0) (fst c)) cs" "list_all (\<lambda>c. rpc_ok (?s ! 1) (fst c)) ds"
    by (simp_all add: list_all_iff ball_Un split_beta)
  show ?thesis
    unfolding Let_def using r(1) len ok by blast
qed

end
