(* ===== verification/Deploy_Steps.thy ===== *)
theory Deploy_Steps
  imports Workflow_Manager
begin

text \<open>
  How long deployments take. \<open>within p n\<close> says that \<open>p\<close> takes at most \<open>n\<close> actions whatever the answers it gets: requests to
  the device, flow IDs, random numbers and accesses to the shared port counter. The bounds add up along the programs, and
  over the goroutines of a pool, where every schedule is covered.
\<close>

section \<open>Bounds on actions\<close>

primrec within :: "'a prog \<Rightarrow> nat \<Rightarrow> bool" where
  "within (Ret x) n = True"
| "within (Panic e) n = True"
| "within (NextFlowID m k) n = (case n of 0 \<Rightarrow> False | Suc n' \<Rightarrow> \<forall>v. within (k v) n')"
| "within (Tag r k) n = (case n of 0 \<Rightarrow> False | Suc n' \<Rightarrow> \<forall>v. within (k v) n')"
| "within (LoadPon k) n = (case n of 0 \<Rightarrow> False | Suc n' \<Rightarrow> \<forall>v. within (k v) n')"
| "within (AddPon d k) n = (case n of 0 \<Rightarrow> False | Suc n' \<Rightarrow> \<forall>v. within (k v) n')"
| "within (Rand m k) n = (case n of 0 \<Rightarrow> False | Suc n' \<Rightarrow> \<forall>v. within (k v) n')"
| "within (Call r k) n = (case n of 0 \<Rightarrow> False | Suc n' \<Rightarrow> \<forall>v. within (k v) n')"
| "within (TpCreate r k) n = (case n of 0 \<Rightarrow> False | Suc n' \<Rightarrow> \<forall>v. within (k v) n')"

text \<open>The actions a deployment can take, from the workflow and the number of priority bits of its GEM ports.\<close>

definition deploy_bound :: "bool \<Rightarrow> Subscriber \<Rightarrow> nat" where
  "deploy_bound isGroup subs =
     (let wn = WorkflowName (TestConfig subs)
      in if isGroup then (if wn = ''TT'' then 9 else 0)
         else if wn = ''ATT'' then 12
         else if wn = ''DT'' then 8
         else 4 + 42 * length (gem_pbits (the_gems subs)))"

section \<open>Lemmas\<close>

lemma suc_bound_mono:
  assumes "case n of 0 \<Rightarrow> False | Suc m \<Rightarrow> \<forall>v. W (k v) m" "n \<le> n'"
    and "\<And>v m m'. W (k v) m \<Longrightarrow> m \<le> m' \<Longrightarrow> W (k v) m'"
  shows "case n' of 0 \<Rightarrow> False | Suc m \<Rightarrow> \<forall>v. W (k v) m"
proof -
  obtain m where m: "n = Suc m" "\<forall>v. W (k v) m" using assms(1) by (cases n) simp_all
  then obtain m' where "n' = Suc m'" "m \<le> m'" using assms(2) by (cases n') simp_all
  then show ?thesis using m(2) assms(3) by (simp only: nat.case) blast
qed

lemma within_mono: "within p n \<Longrightarrow> n \<le> n' \<Longrightarrow> within p n'"
  by (induction p arbitrary: n n'; simp only: within.simps; erule suc_bound_mono; blast)

lemma within_bindp: "within m a \<Longrightarrow> (\<And>x. within (f x) b) \<Longrightarrow> within (bindp m f) (a + b)"
  by (induction m arbitrary: a) (auto intro: within_mono [OF _ le_add2] split: nat.splits simp del: split_paired_All)

lemma within_and_then: "within m a \<Longrightarrow> within n b \<Longrightarrow> within (and_then m n) (a + b)"
  unfolding and_then_def by (rule within_bindp) (auto split: option.split)

lemma within_step:
  assumes "within p n" "step1 E p w = Some (p', w')"
  shows "0 < n \<and> within p' (n - 1)"
  using assms by (cases p) (auto simp: flow_id_section_def Let_def split: nat.splits simp del: split_paired_All)

text \<open>A pool uses up its bounds one by one.\<close>

lemma pool_step_bound:
  assumes "pool_step E (ps, w) (ps', w')" "list_all2 within ps ns"
  shows "\<exists>ns'. list_all2 within ps' ns' \<and> Suc (sum_list ns') = sum_list ns"
proof -
  obtain i p' where i: "i < length ps" "step1 E (ps ! i) w = Some (p', w')" "ps' = ps[i := p']"
    using assms(1) by (auto simp: pool_step_iff)
  from assms(2) i(1) have w: "within (ps ! i) (ns ! i)" and l: "i < length ns" by (auto simp: list_all2_conv_all_nth)
  from within_step [OF w i(2)] have n: "0 < ns ! i" "within p' (ns ! i - 1)" by simp_all
  then have "list_all2 within ps' (ns[i := ns ! i - 1])"
    using assms(2) i(3) by (simp add: list_all2_update_cong)
  moreover have "Suc (sum_list (ns[i := ns ! i - 1])) = sum_list ns"
    using n(1) l elem_le_sum_list [OF l] by (simp add: sum_list_update)
  ultimately show ?thesis by blast
qed

lemma pool_steps_bound:
  assumes "(pool_step E ^^ n) (ps, w) (ps', w')" "list_all2 within ps ns"
  shows "n \<le> sum_list ns"
  using assms
proof (induction n arbitrary: ps w ns)
  case (Suc n)
  from Suc.prems(1) obtain c where c: "pool_step E (ps, w) c" "(pool_step E ^^ n) c (ps', w')" by (rule relpowp_Suc_E2)
  obtain ps1 w1 where d: "c = (ps1, w1)" by (cases c)
  obtain ns1 where 1: "list_all2 within ps1 ns1" "Suc (sum_list ns1) = sum_list ns"
    using pool_step_bound [OF c(1) [unfolded d] Suc.prems(2)] by blast
  from Suc.IH [OF c(2) [unfolded d] 1(1)] 1(2) show ?case by simp
qed simp

text \<open>When the lengths of all schedules are bounded, some schedule cannot be continued.\<close>

lemma bounded_ends:
  assumes "\<And>n d. (R ^^ n) c d \<Longrightarrow> n \<le> B"
  shows "\<exists>n d. n \<le> B \<and> (R ^^ n) c d \<and> (\<nexists>e. R d e)"
proof -
  let ?P = "\<lambda>n. \<exists>d. (R ^^ n) c d"
  have "?P 0" by simp
  then have "?P (GREATEST n. ?P n)" by (rule GreatestI_nat [where b = B]) (use assms in blast)
  then obtain d where d: "(R ^^ (GREATEST n. ?P n)) c d" by blast
  have "\<not> R d e" for e
  proof
    assume "R d e"
    with d have "?P (Suc (GREATEST n. ?P n))" by (metis relpowp_Suc_I)
    then have "Suc (GREATEST n. ?P n) \<le> (GREATEST n. ?P n)" by (rule Greatest_le_nat [where b = B]) (use assms in blast)
    then show False by simp
  qed
  with d assms show ?thesis by blast
qed

section \<open>The operations\<close>

lemma within_send_flow: "within (send_flow f) 1"
  by (simp add: send_flow_def)

lemma within_AddFlow: "within (AddFlow subs ft dir fid alloc gem pcp rep smf m) 1"
  unfolding AddFlow_def by (rule within_send_flow)

lemma within_with_flow_id: "(\<And>id. within (k id) n) \<Longrightarrow> within (with_flow_id subs k) (Suc n)"
  by (simp add: with_flow_id_eq)

lemma within_scheds: "ready subs \<Longrightarrow> within (provision_scheds subs) 2"
  unfolding provision_scheds_def numeral_2_eq_2
  by (rule within_and_then [where a = 1 and b = 1, simplified]; simp add: create_scheds_ready)

lemma within_queues: "ready subs \<Longrightarrow> within (provision_queues subs) 2"
  unfolding provision_queues_def numeral_2_eq_2
  by (rule within_and_then [where a = 1 and b = 1, simplified]; simp add: create_queues_ready)

lemma within_att:
  assumes "ready subs"
  shows "within (att_ProvisionEapFlow subs) 2" "within (att_ProvisionDhcpIPV4Flow subs) 2"
    "within (att_ProvisionHsiaFlow subs) 4"
proof -
  show "within (att_ProvisionEapFlow subs) 2" "within (att_ProvisionDhcpIPV4Flow subs) 2"
    using assms within_with_flow_id [where n = 1, OF within_AddFlow]
    by (simp_all add: att_flow_defs alloc_and_gems_ready Let_def numeral_2_eq_2)
  have "within (with_flow_id subs (\<lambda>us. and_then (AddFlow subs HsiaFlow Upstream us a 0 255 True 0 m)
      (with_flow_id subs (\<lambda>ds. AddFlow subs HsiaFlow Downstream ds a 0 255 True us m)))) (Suc (1 + Suc 1))" for a m
    by (intro within_with_flow_id within_and_then within_AddFlow)
  then show "within (att_ProvisionHsiaFlow subs) 4"
    using assms by (simp add: att_flow_defs alloc_and_gems_ready Let_def eval_nat_numeral)
qed

text \<open>Six random bytes make an address.\<close>

lemma within_rand_bytes: "within (rand_bytes n) n"
proof (induction n)
  case (Suc n)
  have "within (bindp (rand_bytes n) (\<lambda>mac. Ret (g mac))) (n + 0)" for g :: "uint8 list \<Rightarrow> uint8 list"
    by (rule within_bindp [OF Suc]) simp
  then show ?case by simp
qed simp

lemma within_Format:
  "within (FormatTtClassfierAction ft dir subs) (if dir = Downstream \<and> ft \<in> {VoipFlow, VodFlow, MgmtFlow} then 6 else 0)"
proof -
  have "within (bindp (GenerateMac True) (\<lambda>mac. Ret (f mac))) 6" for f :: "uint8 list \<Rightarrow> Classifier \<times> Action"
    using within_bindp [OF within_rand_bytes [of MacSize], of "\<lambda>mac. Ret (f mac)" 0] by (simp add: GenerateMac_def MacSize_def)
  then show ?thesis by (auto simp: FormatTtClassfierAction_def flow_names)
qed

lemma within_AddTtFlow:
  "within (AddTtFlow subs ft dir fid alloc gem pcp rep smf m)
     (if dir = Downstream \<and> ft \<in> {VoipFlow, VodFlow, MgmtFlow} then 7 else 1)"
proof -
  have "within (AddTtFlow subs ft dir fid alloc gem pcp rep smf m)
      ((if dir = Downstream \<and> ft \<in> {VoipFlow, VodFlow, MgmtFlow} then 6 else 0) + 1)"
    unfolding AddTtFlow_def by (rule within_bindp [OF within_Format within_send_flow])
  then show ?thesis by (auto split: if_splits)
qed

lemma within_for_bits: "(\<And>pcp gemID. within (body pcp gemID) n) \<Longrightarrow> within (for_bits body bits) (n * length bits)"
proof (induction bits)
  case (Cons b bits)
  obtain pcp gem where "b = (pcp, gem)" by (cases b)
  with within_and_then [OF Cons.prems [of pcp gem] Cons.IH [OF Cons.prems]] show ?case by simp
qed simp

text \<open>A flow of a service: a flow ID, perhaps an address, and a request.\<close>

lemma within_service:
  assumes "\<And>fid err. within (k fid err) n"
  shows "within (with_flow_id subs (\<lambda>fid. bindp (AddTtFlow subs ft Upstream (f fid) alloc gem pcp rep (smf fid) m) (k fid))) (2 + n)"
    "within (with_flow_id subs (\<lambda>fid. bindp (AddTtFlow subs HsiaFlow dir (f fid) alloc gem pcp rep (smf fid) m) (k fid))) (2 + n)"
    "within (with_flow_id subs (\<lambda>fid. bindp (AddTtFlow subs ft dir (f fid) alloc gem pcp rep (smf fid) m) (k fid))) (8 + n)"
    "within (with_flow_id subs (\<lambda>fid. bindp (AddFlow subs ft' Upstream (f fid) alloc gem pcp rep (smf fid) m) (k fid))) (2 + n)"
proof -
  have up: "within (AddTtFlow subs ft Upstream fid alloc gem pcp rep s m) 1" for fid s
    using within_AddTtFlow [of subs ft Upstream] by (simp add: flow_names)
  have hsia: "within (AddTtFlow subs HsiaFlow dir fid alloc gem pcp rep s m) 1" for fid s
    using within_AddTtFlow [of subs HsiaFlow dir] by (simp add: flow_names)
  have down: "within (AddTtFlow subs ft dir fid alloc gem pcp rep s m) 7" for fid s
    by (rule within_mono [OF within_AddTtFlow]) simp
  note seq = within_with_flow_id [OF within_bindp [OF _ assms]]
  show "within (with_flow_id subs (\<lambda>fid. bindp (AddTtFlow subs ft Upstream (f fid) alloc gem pcp rep (smf fid) m) (k fid))) (2 + n)"
    using seq [OF up] by simp
  show "within (with_flow_id subs (\<lambda>fid. bindp (AddTtFlow subs HsiaFlow dir (f fid) alloc gem pcp rep (smf fid) m) (k fid))) (2 + n)"
    using seq [OF hsia] by simp
  show "within (with_flow_id subs (\<lambda>fid. bindp (AddTtFlow subs ft dir (f fid) alloc gem pcp rep (smf fid) m) (k fid))) (8 + n)"
    using seq [OF down] by (simp add: eval_nat_numeral)
  show "within (with_flow_id subs (\<lambda>fid. bindp (AddFlow subs ft' Upstream (f fid) alloc gem pcp rep (smf fid) m) (k fid))) (2 + n)"
    using seq [OF within_AddFlow] by simp
qed

lemma within_tt:
  assumes "ready subs"
  shows "within (tt_ProvisionHsiaFlow subs) (4 * length (gem_pbits (the_gems subs)))"
    "within (tt_ProvisionVoipFlow subs) (12 * length (gem_pbits (the_gems subs)))"
    "within (tt_ProvisionVodFlow subs) (14 * length (gem_pbits (the_gems subs)))"
    "within (tt_ProvisionMgmtFlow subs) (12 * length (gem_pbits (the_gems subs)))"
proof -
  note svc = within_service [where f = "\<lambda>x. x"]
  show "within (tt_ProvisionHsiaFlow subs) (4 * length (gem_pbits (the_gems subs)))"
    unfolding tt_ProvisionHsiaFlow_def alloc_and_gems_ready [OF assms] bindp.simps prod.case
    by (rule within_for_bits, rule within_mono, (rule svc)+) simp_all
  show "within (tt_ProvisionVoipFlow subs) (12 * length (gem_pbits (the_gems subs)))"
    unfolding tt_ProvisionVoipFlow_def alloc_and_gems_ready [OF assms] bindp.simps prod.case
    by (rule within_for_bits, rule within_mono, rule svc(1), rule svc(3), rule svc(4)) simp_all
  show "within (tt_ProvisionVodFlow subs) (14 * length (gem_pbits (the_gems subs)))"
    unfolding tt_ProvisionVodFlow_def alloc_and_gems_ready [OF assms] bindp.simps prod.case
    by (rule within_for_bits, rule within_mono, rule svc(1), rule svc(3), rule svc(4), rule svc(1)) simp_all
  show "within (tt_ProvisionMgmtFlow subs) (12 * length (gem_pbits (the_gems subs)))"
    unfolding tt_ProvisionMgmtFlow_def alloc_and_gems_ready [OF assms] bindp.simps prod.case
    by (rule within_for_bits, rule within_mono, rule svc(1), rule svc(3), rule svc(4)) simp_all
qed

lemma within_multicast:
  assumes "ready (gd_Subs grp)"
  shows "within (AddMulticastQueueFlow grp) 7"
proof -
  obtain us ds where "tp_UsScheduler (the_tp (gd_Subs grp)) = Some us" "tp_DsScheduler (the_tp (gd_Subs grp)) = Some ds"
    using assms by (rule ready_schedulers)
  then have sched: "within (AddMulticastSched grp) 1"
    by (simp add: AddMulticastSched_def Let_def ready_pointer [OF assms] GetTrafficScheduler_Some)
  have flow: "within (AddMulticastFlow grp) 3"
    by (simp add: AddMulticastFlow_def Let_def GetFlowID_def GenerateMulticastMac_def send_raw_flow_def eval_nat_numeral)
  have others: "within (CreateGroup grp) 1" "within (OpMulticastTrafficQueue grp True) 1" "within (OpMemberToGroup grp True) 1"
    by (simp_all add: CreateGroup_def PerformGroupOperation_def OpMulticastTrafficQueue_def OpMemberToGroup_def Let_def)
  have guard: "within (when_p b m) n" if "within m n" for b m n using that by (simp add: when_p_def)
  have "within (AddMulticastQueueFlow grp) (1 + (3 + (1 + (1 + 1))))"
    unfolding AddMulticastQueueFlow_def by (intro within_and_then guard sched flow others)
  then show ?thesis by simp
qed

lemma within_unicast:
  assumes "ready subs"
  shows "within (provision_unicast AttWorkFlow subs) 12" "within (provision_unicast DtWorkFlow subs) 8"
    "within (provision_unicast TtWorkFlow subs) (4 + 42 * length (gem_pbits (the_gems subs)))"
proof -
  note wf = provision_unicast_def AttWorkFlow_def DtWorkFlow_def TtWorkFlow_def att_ProvisionScheds_def att_ProvisionQueues_def
    dt_ProvisionScheds_def dt_ProvisionQueues_def tt_ProvisionScheds_def tt_ProvisionQueues_def att_noop_defs dt_noop_defs
    tt_noop_defs dt_hsia_is_att_hsia WorkFlow.simps and_then_simps
  note parts = within_scheds [OF assms] within_queues [OF assms] within_att [OF assms] within_tt [OF assms]
  have skip: "within (and_then p (Ret None)) n" if "within p n" for p and n :: nat
    using within_and_then [OF that, of "Ret None" 0] by simp
  have "within (provision_unicast AttWorkFlow subs) (2 + (2 + (2 + (2 + 4))))"
    unfolding wf by (intro within_and_then skip parts)
  then show "within (provision_unicast AttWorkFlow subs) 12" by simp
  have "within (provision_unicast DtWorkFlow subs) (2 + (2 + 4))"
    unfolding wf by (intro within_and_then skip parts)
  then show "within (provision_unicast DtWorkFlow subs) 8" by simp
  have "within (provision_unicast TtWorkFlow subs) (2 + (2 + (4 * length (gem_pbits (the_gems subs)) +
      (12 * length (gem_pbits (the_gems subs)) + (14 * length (gem_pbits (the_gems subs)) + 12 * length (gem_pbits (the_gems subs)))))))"
    unfolding wf by (intro within_and_then parts)
  then show "within (provision_unicast TtWorkFlow subs) (4 + 42 * length (gem_pbits (the_gems subs)))"
    by (rule within_mono) simp
qed

lemma within_deploy:
  assumes "deployable isGroup subs"
  shows "within (DeployWorkflow subs isGroup) (deploy_bound isGroup subs)"
proof -
  have r: "ready subs" using assms by (simp add: deployable_def)
  have "within (tt_ProvisionMulticastFlow subs) 9"
    using within_multicast [of "multicast_group subs b" for b] r
    by (auto simp: tt_ProvisionMulticastFlow_def multicast_group_def eval_nat_numeral intro: within_mono)
  then have op: "within (if isGroup then wf_ProvisionMulticastFlow wfl subs else provision_unicast wfl subs) (deploy_bound isGroup subs)"
    if "getWorkFlow subs = Some wfl" for wfl
    using that within_unicast [OF r] unfolding getWorkFlow_def deploy_bound_def
    by (auto simp: AttWorkFlow_def DtWorkFlow_def TtWorkFlow_def att_noop_defs dt_noop_defs split: if_splits)
  obtain wfl where w: "getWorkFlow subs = Some wfl" using assms by (auto simp: deployable_def)
  have "within (DeployWorkflow subs isGroup) (deploy_bound isGroup subs + 0)"
    unfolding DeployWorkflow_def w deref_simps bindp.simps
    by (rule within_bindp [OF op [OF w]]) (simp split: option.split)
  then show ?thesis by simp
qed

section \<open>Properties\<close>

text \<open>
  C10: deployments terminate, with an explicit bound: however the goroutines of any list of deployable subscribers are scheduled
  and whatever the device answers, together they take at most the sum of their bounds of actions (12 for ATT, 8 for DT, 4 and 42 for every
  priority bit of a GEM port for TT, 9 in the group test, none there for ATT and DT), and some schedule of at
  most that length leaves no goroutine that can move.
\<close>

theorem deployments_step_bound:
  assumes "\<forall>subs \<in> set ss. deployable isGroup subs"
  shows "(\<forall>n c. (pool_step E ^^ n) (map (\<lambda>subs. DeployWorkflow subs isGroup) ss, w) c \<longrightarrow> n \<le> (\<Sum>subs\<leftarrow>ss. deploy_bound isGroup subs)) \<and>
     (\<exists>n c. n \<le> (\<Sum>subs\<leftarrow>ss. deploy_bound isGroup subs) \<and>
        (pool_step E ^^ n) (map (\<lambda>subs. DeployWorkflow subs isGroup) ss, w) c \<and> (\<nexists>d. pool_step E c d))"
proof -
  have all: "list_all2 within (map (\<lambda>subs. DeployWorkflow subs isGroup) ss) (map (deploy_bound isGroup) ss)"
    using assms within_deploy by (auto simp: list_all2_conv_all_nth)
  have bound: "n \<le> (\<Sum>subs\<leftarrow>ss. deploy_bound isGroup subs)"
    if "(pool_step E ^^ n) (map (\<lambda>subs. DeployWorkflow subs isGroup) ss, w) c" for n c
    using pool_steps_bound [OF _ all, of n E w "fst c" "snd c"] that by simp
  have "\<exists>n c. n \<le> (\<Sum>subs\<leftarrow>ss. deploy_bound isGroup subs) \<and>
      (pool_step E ^^ n) (map (\<lambda>subs. DeployWorkflow subs isGroup) ss, w) c \<and> (\<nexists>d. pool_step E c d)"
    by (rule bounded_ends) (rule bound)
  with bound show ?thesis by (intro conjI allI impI)
qed

theorem deployments_step_bound_witness:
  "\<exists>n c. n \<le> 96 \<and> (pool_step accepting ^^ n)
     ([DeployWorkflow (sample_subscriber ''TT'' 3 1) False, DeployWorkflow (sample_subscriber ''DT'' 3 2) False], world_init) c \<and>
     (\<nexists>d. pool_step accepting c d)"
proof -
  have "deploy_bound False (sample_subscriber ''TT'' 3 1) = 88" "deploy_bound False (sample_subscriber ''DT'' 3 2) = 8"
    by (simp_all add: deploy_bound_def Let_def sample_gems)
  then show ?thesis
    using deployments_step_bound [of "[sample_subscriber ''TT'' 3 1, sample_subscriber ''DT'' 3 2]" False accepting world_init]
    by (simp add: deployable_def)
qed

end
