(* ===== verification/Spec2Isabelle.thy ===== *)
theory Spec2Isabelle
  imports Whole_Program Flow_Ids Subscriber_Tags Multicast Retry Request_Types Deploy_Steps
begin

text \<open>
  A verification development for the OpenOLT scale tester (\<open>opencord/openolt-scale-tester\<close>): the program that
  connects to an OLT agent over gRPC, activates a number of emulated ONUs in batches, creates subscribers on
  them and provisions each subscriber with the traffic schedulers, queues and flows of an
  operator workflow (ATT, DT or TT).

  \<^bold>\<open>The program.\<close> \<open>main.go\<close> builds the configuration (\<open>config/config.go\<close>) and starts the OLT manager
  (\<open>core/olt_manager.go\<close>). It reads the device information, creates a resource manager per PON port
  (\<open>core/resource_manager.go\<close>), installs trap flows on the NNI and provisions the ONUs batch by batch;
  every activated ONU (\<open>core/onu_manager.go\<close>) creates its subscribers, whose goroutines
  (\<open>core/subscriber_manager.go\<close>) fetch their technology profile instances and deploy a workflow
  (\<open>core/workflow_manager.go\<close>, \<open>core/workflow_utils.go\<close>, \<open>core/att_workflow.go\<close>, \<open>core/dt_workflow.go\<close>,
  \<open>core/tt_workflow.go\<close>). Identifiers come from \<open>core/utils.go\<close>.

  \<^bold>\<open>Theories.\<close>
  \<^item> \<open>Prelude\<close>: names of the machine integers, panics and outcomes, shared lemmas. \<open>Go_Strings\<close>: the string
    functions of Go's library that are used, with round trips. \<open>Openolt_Api\<close>: the gRPC messages and errors.
  \<^item> \<open>Utils\<close>: C-tags, S-tags, serial and port numbers. The locale \<open>tag_counter\<close> is the contract of a C-tag
    allocator, \<open>stag_table\<close> that of the S-tag table; both are interpreted on the code's allocators.
  \<^item> \<open>Config\<close>: flags, defaults, the list of profile IDs.
  \<^item> \<open>Effects\<close>: programs as trees of atomic actions, their runs on a world (counters, tags, history of calls),
    interleavings of goroutines, and \<open>safe\<close>, the bound on what a program can do on every path. \<open>Pool_Log\<close>: schedules with
    the log of which goroutine made which call, so that properties can say whose request a request is.
  \<^item> \<open>Id_Pool\<close>: the vendored bitmap and the pools of identifiers over it. The locale \<open>allocator\<close> is the contract of a pool and
    is interpreted on the bitmap code; the lemmas read a bitmap as the set of identifiers taken. \<open>Pon_Resources\<close>: the vendored PON resource manager, its
    ranges and its pools in the key-value store. The store is a map from keys to values; a parameter says of each operation whether it
    succeeds, or fails before or after its effect. The lemmas say what each operation does to the identifiers
    taken; the properties follow any history of requests.
  \<^item> \<open>Resource_Mgr\<close>, \<open>Subscriber\<close>, \<open>Techprofile\<close>: the resource manager over these pools, the subscriber record and reason codes,
    and the operations of the vendored profile library that the workflows call on an instance.
  \<^item> \<open>Workflow_Utils\<close>, \<open>Pbit_Map\<close>, \<open>Provisioning\<close>, \<open>Att_Workflow\<close>, \<open>Dt_Workflow\<close>, \<open>Tt_Workflow\<close>,
    \<open>Workflow_Manager\<close>: the workflows. The specification of a workflow is a plan, the list of requests it has to
    send, and \<open>follows\<close> says that a program plays its plan for every behaviour of the device. The locale
    \<open>workflow\<close> is the contract of an implementation of the interface and is interpreted for all three.
  \<^item> \<open>Onu_Manager\<close>: the subscribers of an ONU and the life of a subscriber goroutine. \<open>Batching\<close>: the
    arithmetic of the batches. \<open>Olt_Manager\<close>: serial number strings, activation, the provisioning loops.
    \<open>Olt_Start\<close>: the start of the manager, the loading of the profiles, the indications. \<open>Onu_Ids\<close>: the provisioning loops
    composed with the pools in the store, and which ONU IDs come out.
  \<^item> \<open>Tp_Instance\<close>, \<open>Tp_Creation\<close>, \<open>Tp_Lifecycle\<close>: the vendored technology profile manager: templates, creation,
    cache, record in the store and reconciliation at a restart; then what a creation gives, and subscribers
    started with this manager as their library.
  \<^item> \<open>Wait_Groups\<close>: the batches, ONUs and subscribers as a step relation over their phases, with the invariant of the
    wait groups, termination, and the failures that block a batch.
  \<^item> \<open>Goroutines\<close>: the provisioner, the ONUs and the subscribers as goroutines that run the programs of the theories above
    on one world, one atomic action at a time in any order. The locale \<open>system\<close> is the contract of the environment; what is proved
    in it (invariant, refinement of \<open>Wait_Groups\<close>, what a system at rest looks like) is instantiated for any environment and, in
    \<open>Healthy_Run\<close>, for one that works, where the provisioning is totally correct.
    \<open>Process\<close>: \<open>main\<close>, \<open>Start\<close>, the goroutines, the receive loop as far as it can end the process, and the signal that ends it, composed with the pools of the store.
  \<^item> \<open>Tp_Library\<close>: the profile managers of all ports as the library of the program, and the room that any calls leave in their pools.
    \<open>Library_Run\<close>: the goroutines on this library. The calls a run can make are bounded by a potential, and while there is room for
    them the library cannot be told from one that always delivers, so that \<open>Healthy_Run\<close> applies. \<open>First_Start\<close>: the pools that the
    start of the program creates. \<open>Whole_Program\<close>: all of it composed, from the command line to the exit code.
  \<^item> \<open>Flow_Ids\<close>: flow IDs are unique per port under every interleaving. \<open>Subscriber_Tags\<close>: the tags subscribers get from
    the allocators of \<open>Utils\<close> while the ONUs create them at the same time.
    \<open>Multicast\<close>: the group test, in sequence and under a race. \<open>Retry\<close>: the retrying senders.
    \<open>Request_Types\<close>: the ranges of the fields of every request that is sent. \<open>Deploy_Steps\<close>: an explicit bound on the
    actions of deployments under every schedule.
  \<^item> \<open>Samples\<close>: data for the evaluations.

  \<^bold>\<open>Correspondence.\<close> A Go function that only computes is a function; one that touches shared state, calls the
  device or the profile library, or draws random numbers is a program of \<open>Effects\<close>, with one action per critical
  section, atomic operation or call. Early returns on an error are \<open>and_then\<close>; a nil dereference, a failed type assertion, an
  index out of range and a division by zero are panics, which end the process. Integers keep their
  width; \<open>int\<close> and \<open>uint\<close> are 64 bits. The device and the library are the record \<open>env\<close>, whose answers may depend
  on all earlier calls.

  \<^bold>\<open>Not modelled.\<close> Logging and timing, signals from outside, and a signal of the provisioner that comes before \<open>main\<close> has
    registered for signals; the gRPC transport, the clients of etcd, and the encoding of messages, pools and
    records (the store holds decoded values). Of voltha-lib-go: EPON, the operations nothing in this program
    reaches, and the mutexes around requests to a pool, which are taken to make a request atomic (lemma \<open>shared_pool_race\<close> splits a request
    to show what happens between managers, whose mutexes differ); a call of the profile library is one action likewise. The
    pools of ONU IDs and the rest of the store are followed separately, which their keys allow. \<open>DiscardConfigV2\<close> of a GEM port, which nothing reads.

  \<^bold>\<open>Bounds.\<close> Loops over lists are structural recursion, so no fuel is used; the two retry loops count their attempts down from
  20 as in the code, the search for a shared instance runs over the 16 UNIs of the code, and the search of a pool counts its bits down.
\<close>

end
